(* ===== verification/NetAddr.thy ===== *)
theory NetAddr
  imports Prelude
begin

section \<open>Package net: addresses, prefixes, host and port\<close>

text \<open>
  The part of Go's package \<^verbatim>\<open>net\<close> the sources call: \<^verbatim>\<open>ParseIP\<close>, \<^verbatim>\<open>IP.To4\<close>, \<^verbatim>\<open>IP.String\<close>,
  \<^verbatim>\<open>IP.IsLoopback\<close>, \<^verbatim>\<open>IP.IsUnspecified\<close>, \<^verbatim>\<open>ParseCIDR\<close>, \<^verbatim>\<open>IPNet.Contains\<close>, \<^verbatim>\<open>SplitHostPort\<close>,
  \<^verbatim>\<open>JoinHostPort\<close>. A \<^verbatim>\<open>net.IP\<close> is its 16-byte form, a 128-bit word; an IPv4 address is the
  mapped address \<^verbatim>\<open>::ffff:a.b.c.d\<close>, as \<^verbatim>\<open>ParseIP\<close> returns it. A nil \<^verbatim>\<open>net.IP\<close> is \<open>None\<close>.
\<close>

unbundle bit_operations_syntax

type_synonym ip = "128 word"

definition v4_mapped :: "32 word \<Rightarrow> ip" where
  "v4_mapped w = push_bit 32 (mask 16) OR ucast w"

text \<open>\<^verbatim>\<open>ip.To4() != nil\<close>\<close>

definition is_v4 :: "ip \<Rightarrow> bool" where
  "is_v4 a \<longleftrightarrow> drop_bit 32 a = mask 16"

definition To4 :: "ip \<Rightarrow> 32 word option" where
  "To4 a = (if is_v4 a then Some (ucast a) else None)"

definition IsUnspecified :: "ip \<Rightarrow> bool" where
  "IsUnspecified a \<longleftrightarrow> a = 0 \<or> a = v4_mapped 0"

definition IsLoopback :: "ip \<Rightarrow> bool" where
  "IsLoopback a \<longleftrightarrow>
     (case To4 a of Some w \<Rightarrow> drop_bit 24 w = 127 | None \<Rightarrow> a = 1)"

subsection \<open>Parsing\<close>

definition v4_octet :: "string \<Rightarrow> int option" where
  "v4_octet f =
     (if f \<noteq> [] \<and> length f \<le> 3 \<and> list_all is_digit f \<and> (length f = 1 \<or> hd f \<noteq> CHR ''0'')
         \<and> digits_value f \<le> 255
      then Some (digits_value f) else None)"

definition parse_v4 :: "string \<Rightarrow> 32 word option" where
  "parse_v4 s =
     (case map v4_octet (Split CHR ''.'' s) of
        [Some a, Some b, Some c, Some d] \<Rightarrow>
          Some (word_of_int (a * 16777216 + b * 65536 + c * 256 + d))
      | _ \<Rightarrow> None)"

definition hex_digit :: "char \<Rightarrow> int option" where
  "hex_digit c =
     (let n = (of_char c :: int) in
      if 48 \<le> n \<and> n \<le> 57 then Some (n - 48)
      else if 97 \<le> n \<and> n \<le> 102 then Some (n - 87)
      else if 65 \<le> n \<and> n \<le> 70 then Some (n - 55) else None)"

definition hex_value :: "string \<Rightarrow> int" where
  "hex_value s = foldl (\<lambda>a c. 16 * a + the (hex_digit c)) 0 s"

text \<open>
  The loop of \<open>parseIPv6\<close>: \<open>n\<close> 16-bit groups are still free, \<open>gs\<close> are those read, \<open>ell\<close> is
  the position of the ellipsis. The result is the groups, the ellipsis and the unread rest.
\<close>

fun v6_loop :: "nat \<Rightarrow> int list \<Rightarrow> nat option \<Rightarrow> string \<Rightarrow> (int list \<times> nat option \<times> string) option"
where
  "v6_loop 0 gs ell s = Some (gs, ell, s)"
| "v6_loop (Suc n) gs ell s =
     (let h = takeWhile (\<lambda>c. hex_digit c \<noteq> None) s; rest = drop (length h) s in
      if h = [] \<or> 4 < length h then None
      else if HasPrefix rest ''.'' then
        (if (ell = None \<and> length gs \<noteq> 6) \<or> 6 < length gs then None
         else case parse_v4 s of
                None \<Rightarrow> None
              | Some w \<Rightarrow> Some (gs @ [uint w div 65536, uint w mod 65536], ell, []))
      else
        (let gs' = gs @ [hex_value h] in
         case rest of
           [] \<Rightarrow> Some (gs', ell, [])
         | c # [] \<Rightarrow> None
         | c # d # t \<Rightarrow>
             if c \<noteq> CHR '':'' then None
             else if d = CHR '':'' then
               (if ell \<noteq> None then None
                else if t = [] then Some (gs', Some (length gs'), [])
                else v6_loop n gs' (Some (length gs')) t)
             else v6_loop n gs' ell (d # t)))"

definition groups_value :: "int list \<Rightarrow> ip" where
  "groups_value gs = word_of_int (foldl (\<lambda>a g. 65536 * a + g) 0 gs)"

definition parse_v6 :: "string \<Rightarrow> ip option" where
  "parse_v6 s =
     (let start = (if HasPrefix s ''::'' then Some 0 else None);
          body = (if HasPrefix s ''::'' then drop 2 s else s)
      in if start \<noteq> None \<and> body = [] then Some 0
         else case v6_loop 8 [] start body of
                None \<Rightarrow> None
              | Some (gs, ell, rest) \<Rightarrow>
                  if rest \<noteq> [] then None
                  else case ell of
                         None \<Rightarrow> if length gs = 8 then Some (groups_value gs) else None
                       | Some e \<Rightarrow>
                           if length gs < 8
                           then Some (groups_value
                                  (take e gs @ replicate (8 - length gs) 0 @ drop e gs))
                           else None)"

text \<open>\<^verbatim>\<open>net.ParseIP\<close>: the first of \<open>'.'\<close>, \<open>':'\<close>, \<open>'%'\<close> decides; an address with a zone is refused.\<close>

definition ParseIP :: "string \<Rightarrow> ip option" where
  "ParseIP s =
     (case find (\<lambda>c. c \<in> {CHR ''.'', CHR '':'', CHR ''%''}) s of
        Some c \<Rightarrow>
          if c = CHR ''.'' then map_option v4_mapped (parse_v4 s)
          else if c = CHR '':'' \<and> CHR ''%'' \<notin> set s then parse_v6 s
          else None
      | None \<Rightarrow> None)"

subsection \<open>Printing\<close>

fun digits_of :: "nat \<Rightarrow> int \<Rightarrow> int \<Rightarrow> string" where
  "digits_of 0 b n = []"
| "digits_of (Suc k) b n =
     (if n < b then [char_of (if n < 10 then n + 48 else n + 87)]
      else digits_of k b (n div b) @
           [char_of (if n mod b < 10 then n mod b + 48 else n mod b + 87)])"

text \<open>Decimal digits of a number (64 digits are more than any 64-bit value needs).\<close>

definition dec :: "int \<Rightarrow> string" where
  "dec n = digits_of 64 10 n"

definition v4_string :: "32 word \<Rightarrow> string" where
  "v4_string w =
     Join ''.'' (map (\<lambda>i. dec (uint w div 256 ^ i mod 256)) [3, 2, 1, 0])"

text \<open>The leftmost longest run of at least two zero groups, as (start, length).\<close>

fun zero_run :: "nat \<Rightarrow> int list \<Rightarrow> nat \<times> nat" where
  "zero_run i [] = (0, 0)"
| "zero_run i (g # gs) =
     (let l = length (takeWhile (\<lambda>x. x = 0) (g # gs)); (j, m) = zero_run (Suc i) gs
      in if m \<le> l \<and> 2 \<le> l then (i, l) else (j, m))"

definition v6_string :: "ip \<Rightarrow> string" where
  "v6_string a =
     (let gs = map (\<lambda>i. uint a div 65536 ^ i mod 65536) [7, 6, 5, 4, 3, 2, 1, 0];
          hex = map (digits_of 4 16) gs;
          (i, l) = zero_run 0 gs
      in if l = 0 then Join '':'' hex
         else Join '':'' (take i hex) @ ''::'' @ Join '':'' (drop (i + l) hex))"

definition ip_string :: "ip \<Rightarrow> string" where
  "ip_string a = (case To4 a of Some w \<Rightarrow> v4_string w | None \<Rightarrow> v6_string a)"

subsection \<open>Prefixes\<close>

record cidr =
  net_ip :: ip
  net_mask :: ip

definition ones :: "nat \<Rightarrow> ip" where
  "ones n = push_bit (128 - n) (mask n)"

definition ParseCIDR :: "string \<Rightarrow> cidr option" where
  "ParseCIDR s =
     (case index_where (\<lambda>c. c = CHR ''/'') s of
        None \<Rightarrow> None
      | Some i \<Rightarrow>
          (let addr = take i s; m = drop (Suc i) s in
           case ParseIP addr of
             None \<Rightarrow> None
           | Some a \<Rightarrow>
               (let v4 = CHR '':'' \<notin> set addr; limit = (if v4 then 32 else 128);
                    n = digits_value m; bits = (if v4 then 96 + nat n else nat n)
                in if m = [] \<or> \<not> list_all is_digit m \<or> limit < n then None
                   else Some \<lparr>net_ip = a AND ones bits, net_mask = ones bits\<rparr>)))"

definition Contains :: "cidr \<Rightarrow> ip \<Rightarrow> bool" where
  "Contains n a \<longleftrightarrow>
     (if is_v4 (net_ip n)
      then is_v4 a \<and> (ucast (a AND net_mask n) :: 32 word) = ucast (net_ip n AND net_mask n)
      else \<not> is_v4 a \<and> a AND net_mask n = net_ip n AND net_mask n)"

subsection \<open>Host and port\<close>

definition SplitHostPort :: "string \<Rightarrow> (string \<times> string) option" where
  "SplitHostPort hp =
     (case last_index_where (\<lambda>c. c = CHR '':'') hp of
        None \<Rightarrow> None
      | Some i \<Rightarrow>
          if HasPrefix hp ''['' then
            (case index_where (\<lambda>c. c = CHR '']'') hp of
               None \<Rightarrow> None
             | Some e \<Rightarrow>
                 if Suc e \<noteq> i \<or> CHR ''['' \<in> set (drop 1 hp) \<or> CHR '']'' \<in> set (drop (Suc e) hp)
                 then None
                 else Some (take (e - 1) (drop 1 hp), drop (Suc i) hp))
          else if CHR '':'' \<in> set (take i hp) \<or> CHR ''['' \<in> set hp \<or> CHR '']'' \<in> set hp then None
          else Some (take i hp, drop (Suc i) hp))"

definition JoinHostPort :: "string \<Rightarrow> string \<Rightarrow> string" where
  "JoinHostPort host port =
     (if CHR '':'' \<in> set host then ''['' @ host @ '']:'' @ port else host @ '':'' @ port)"

subsection \<open>Lemmas\<close>

lemma bit_word32: "bit (w :: 32 word) n \<Longrightarrow> n < 32"
  using bit_imp_le_length [of w n] by simp

lemma is_v4_mapped [simp]: "is_v4 (v4_mapped w)"
  unfolding is_v4_def v4_mapped_def
  by (rule bit_word_eqI) (auto simp: bit_simps dest: bit_word32 simp del: push_bit_mask_eq)

lemma To4_mapped [simp]: "To4 (v4_mapped w) = Some w"
proof -
  have "ucast (v4_mapped w) = w"
    unfolding v4_mapped_def by (rule bit_word_eqI) (auto simp: bit_simps)
  then show ?thesis by (simp add: To4_def)
qed

lemma v4_mapped_ucast: "is_v4 a \<Longrightarrow> v4_mapped (ucast a) = a"
proof -
  assume v4: "is_v4 a"
  have hi: "bit a n = bit (mask 16 :: ip) (n - 32)" if "32 \<le> n" for n
  proof -
    have "bit (drop_bit 32 a) (n - 32) = bit (mask 16 :: ip) (n - 32)"
      using v4 by (simp add: is_v4_def)
    with that show ?thesis by (simp add: bit_drop_bit_eq)
  qed
  show ?thesis
    unfolding v4_mapped_def
    by (rule bit_word_eqI) (auto simp: bit_simps hi not_less)
qed

lemma To4_Some_iff: "To4 a = Some w \<longleftrightarrow> a = v4_mapped w"
  by (metis To4_def To4_mapped option.discI option.inject v4_mapped_ucast)

end
