(* ===== verification/Model.thy ===== *)
theory Model
  imports NetAddr
begin

section \<open>Data: the model package and the DNS message\<close>

text \<open>
  The structs of \<^verbatim>\<open>model/*.go\<close> as records, and the shape of the messages of the DNS library
  (\<^verbatim>\<open>github.com/miekg/dns\<close>) as far as the handler builds and inspects them. The library's
  functions are not defined here: they are the fields of \<open>dnslib\<close>, a parameter of every
  operation that calls the library.
\<close>

subsection \<open>Package model\<close>

record Record =
  r_ID :: rowid
  r_ZoneID :: rowid
  r_Name :: string
  r_Type :: string
  r_Content :: string
  r_TTL :: int
  r_Priority :: int
  r_Enabled :: bool
  r_LastQueryAt :: "instant option"
  r_CreatedAt :: instant
  r_UpdatedAt :: instant

record Zone =
  z_ID :: rowid
  z_Name :: string
  z_SOAMname :: string
  z_SOARname :: string
  z_SOASerial :: int
  z_SOARefresh :: int
  z_SOARetry :: int
  z_SOAExpire :: int
  z_SOAMinimum :: int
  z_Enabled :: bool
  z_AllowFallback :: bool
  z_CreatedAt :: instant
  z_UpdatedAt :: instant

record UpstreamServer =
  u_ID :: rowid
  u_Name :: string
  u_Address :: string
  u_Protocol :: string
  u_Priority :: int
  u_Enabled :: bool
  u_CreatedAt :: instant
  u_UpdatedAt :: instant

record CacheSettings =
  cs_Enabled :: bool
  cs_MaxSize :: int
  cs_DefaultTTL :: int
  cs_MinTTL :: int
  cs_MaxTTL :: int
  cs_NegativeTTL :: int
  cs_PrefetchTrigger :: rat
  cs_UpdatedAt :: instant

record GSLBPolicy =
  p_ID :: rowid
  p_Name :: string
  p_Domain :: string
  p_RecordType :: string
  p_TTL :: int
  p_Enabled :: bool
  p_CreatedAt :: instant

record GSLBPool =
  pl_ID :: rowid
  pl_PolicyID :: rowid
  pl_Name :: string
  pl_MatchType :: string
  pl_MatchValue :: string
  pl_Priority :: int
  pl_FallbackPool :: bool

record GSLBMember =
  mb_ID :: rowid
  mb_PoolID :: rowid
  mb_Address :: string
  mb_Weight :: int
  mb_Enabled :: bool

record HealthCheck =
  hc_ID :: rowid
  hc_PolicyID :: rowid
  hc_CheckType :: string
  hc_Target :: string
  hc_IntervalSec :: int
  hc_TimeoutSec :: int
  hc_HealthyThreshold :: int
  hc_UnhealthyThreshold :: int
  hc_ExpectedCodes :: "int list"
  hc_Enabled :: bool

record AdblockSource =
  as_ID :: rowid
  as_Name :: string
  as_URL :: string
  as_Enabled :: bool
  as_LastSync :: "instant option"
  as_LastModified :: "string option"
  as_RuleCount :: int
  as_CreatedAt :: instant
  as_UpdatedAt :: instant

record AdblockDomain =
  ad_ID :: rowid
  ad_Domain :: string
  ad_SourceID :: rowid
  ad_AddedAt :: instant

record QueryLog =
  ql_ID :: rowid
  ql_Timestamp :: instant
  ql_ClientIP :: string
  ql_Domain :: string
  ql_QueryType :: string
  ql_ResponseCode :: string
  ql_ResponseSource :: string
  ql_LatencyMs :: rat
  ql_ResponseData :: string
  ql_Protocol :: string
  ql_ResponseSize :: int
  ql_EDNSPresent :: bool
  ql_EDNSVersion :: int
  ql_EDNSBufferSize :: int

subsection \<open>DNS messages\<close>

record RR_Header =
  h_Name :: string
  h_Rrtype :: "16 word"
  h_Class :: "16 word"
  h_Ttl :: "32 word"

datatype RR =
    RR_A RR_Header ip
  | RR_AAAA RR_Header ip
  | RR_CNAME RR_Header string
  | RR_MX RR_Header "16 word" string
  | RR_TXT RR_Header "string list"
  | RR_NS RR_Header string
  | RR_SOA RR_Header string string "32 word" "32 word" "32 word" "32 word" "32 word"
  | RR_SRV RR_Header "16 word" "16 word" "16 word" string
  | RR_PTR RR_Header string
  | RR_CAA RR_Header "8 word" string string
  | RR_Other RR_Header string

fun Header :: "RR \<Rightarrow> RR_Header" where
  "Header (RR_A h _) = h"
| "Header (RR_AAAA h _) = h"
| "Header (RR_CNAME h _) = h"
| "Header (RR_MX h _ _) = h"
| "Header (RR_TXT h _) = h"
| "Header (RR_NS h _) = h"
| "Header (RR_SOA h _ _ _ _ _ _ _) = h"
| "Header (RR_SRV h _ _ _ _) = h"
| "Header (RR_PTR h _) = h"
| "Header (RR_CAA h _ _ _) = h"
| "Header (RR_Other h _) = h"

record Question =
  q_Name :: string
  q_Qtype :: "16 word"
  q_Qclass :: "16 word"

datatype EdnsOption = EDNS0_NSID string | EDNS0_SUBNET "ip option" | EDNS0_OTHER nat

record OPT =
  o_UDPSize :: int
  o_Version :: int
  o_Do :: bool
  o_Option :: "EdnsOption list"

text \<open>The OPT record of the additional section is the field \<open>m_Opt\<close> (\<^verbatim>\<open>Msg.IsEdns0\<close>).\<close>

record Msg =
  m_Id :: "16 word"
  m_Response :: bool
  m_Authoritative :: bool
  m_RecursionDesired :: bool
  m_RecursionAvailable :: bool
  m_Rcode :: int
  m_Question :: "Question list"
  m_Answer :: "RR list"
  m_Ns :: "RR list"
  m_Opt :: "OPT option"

text \<open>The constants of the library that the sources name (RFC 1035, RFC 3596, RFC 6844).\<close>

abbreviation (input) "TypeA \<equiv> (1 :: 16 word)"
abbreviation (input) "TypeSOA \<equiv> (6 :: 16 word)"
abbreviation (input) "TypeTXT \<equiv> (16 :: 16 word)"
abbreviation (input) "TypeAAAA \<equiv> (28 :: 16 word)"
abbreviation (input) "TypeANY \<equiv> (255 :: 16 word)"
abbreviation (input) "ClassINET \<equiv> (1 :: 16 word)"
abbreviation (input) "ClassCHAOS \<equiv> (3 :: 16 word)"
abbreviation (input) "RcodeSuccess \<equiv> (0 :: int)"
abbreviation (input) "RcodeFormatError \<equiv> (1 :: int)"
abbreviation (input) "RcodeServerFailure \<equiv> (2 :: int)"
abbreviation (input) "RcodeNameError \<equiv> (3 :: int)"
abbreviation (input) "RcodeNotImplemented \<equiv> (4 :: int)"
abbreviation (input) "RcodeRefused \<equiv> (5 :: int)"

text \<open>
  The functions of the library, a parameter.
\<close>

record dnslib =
  lib_SetReply :: "Msg \<Rightarrow> Msg"
  lib_SetQuestion :: "string \<Rightarrow> 16 word \<Rightarrow> Msg"
  lib_SetEdns0 :: "int \<Rightarrow> bool \<Rightarrow> Msg \<Rightarrow> Msg"
  lib_Fqdn :: "string \<Rightarrow> string"
  lib_TypeToString :: "16 word \<Rightarrow> string"
  lib_StringToType :: "string \<Rightarrow> 16 word"
  lib_RcodeToString :: "int \<Rightarrow> string"
  lib_Len :: "Msg \<Rightarrow> int"
  lib_RRString :: "RR \<Rightarrow> string"

end
