(* ===== verification/DnsCache.thy ===== *)
theory DnsCache
  imports Model "HOL-Library.AList"
begin

section \<open>The L1 response cache (dns/cache.go)\<close>

text \<open>
  \<^verbatim>\<open>DNSCache\<close> keeps the entries twice: in the \<^verbatim>\<open>sync.Map\<close> \<open>entries\<close>, read without the lock, and in
  \<open>items\<close>, the LRU bookkeeping guarded by \<open>mu\<close>. Both hold pointers to the same entry, and the
  code compares pointers, so entries live in a heap and the maps hold addresses. \<open>items\<close> is an
  association list: its order is the order in which \<^verbatim>\<open>range\<close> visits the Go map, about which
  no lemma assumes anything. The counters are 64-bit words. One operation reads the clock once.
\<close>

record DNSCacheEntry =
  RRs :: "RR list"
  Expiry :: instant
  PrefetchTime :: instant
  IsNegative :: bool
  prefetchTriggered :: bool

record CacheStats =
  Hits :: "64 word"
  Misses :: "64 word"
  Evictions :: "64 word"
  Size :: "64 word"

record cacheItem =
  ci_entry :: nat
  ci_key :: string
  lastAccess :: instant

record DNSCache =
  entries :: "string \<rightharpoonup> nat"
  maxSize :: int
  defaultTTL :: int
  negativeTTL :: int
  prefetchTrigger :: rat
  stats :: CacheStats
  prefetchFn :: bool
  items :: "(string \<times> cacheItem) list"
  running :: bool
  heap :: "nat \<Rightarrow> DNSCacheEntry"
  nextAddr :: nat
  prefetched :: "(string \<times> string) list"

definition no_entry :: DNSCacheEntry where
  "no_entry = \<lparr>RRs = [], Expiry = 0, PrefetchTime = 0, IsNegative = False, prefetchTriggered = False\<rparr>"

definition IsExpired :: "instant \<Rightarrow> DNSCacheEntry \<Rightarrow> bool" where
  "IsExpired now e \<longleftrightarrow> now > Expiry e"

definition ShouldPrefetch :: "instant \<Rightarrow> DNSCacheEntry \<Rightarrow> bool" where
  "ShouldPrefetch now e \<longleftrightarrow> now > PrefetchTime e"

definition NewDNSCache :: "int \<Rightarrow> int \<Rightarrow> int \<Rightarrow> rat \<Rightarrow> DNSCache" where
  "NewDNSCache msize dttl nttl trigger =
     \<lparr>entries = Map.empty, maxSize = msize, defaultTTL = dttl, negativeTTL = nttl,
      prefetchTrigger = trigger, stats = \<lparr>Hits = 0, Misses = 0, Evictions = 0, Size = 0\<rparr>,
      prefetchFn = False, items = [], running = True, heap = (\<lambda>_. no_entry), nextAddr = 0,
      prefetched = []\<rparr>"

definition SetPrefetchFunc :: "DNSCache \<Rightarrow> DNSCache" where
  "SetPrefetchFunc c = c\<lparr>prefetchFn := True\<rparr>"

definition makeKey :: "string \<Rightarrow> string \<Rightarrow> string" where
  "makeKey domain qtype = domain @ '':'' @ qtype"

text \<open>Counter updates; a decrement adds \<^verbatim>\<open>^uint64(0)\<close>.\<close>

definition bumpHits :: "DNSCache \<Rightarrow> DNSCache" where
  "bumpHits c = c\<lparr>stats := (stats c)\<lparr>Hits := Hits (stats c) + 1\<rparr>\<rparr>"

definition bumpMisses :: "DNSCache \<Rightarrow> DNSCache" where
  "bumpMisses c = c\<lparr>stats := (stats c)\<lparr>Misses := Misses (stats c) + 1\<rparr>\<rparr>"

definition addSize :: "64 word \<Rightarrow> DNSCache \<Rightarrow> DNSCache" where
  "addSize d c = c\<lparr>stats := (stats c)\<lparr>Size := Size (stats c) + d\<rparr>\<rparr>"

text \<open>\<open>entries.Delete(key)\<close>, \<open>delete(items, key)\<close> and the decrement, as every removal does.\<close>

definition dropKey :: "string \<Rightarrow> DNSCache \<Rightarrow> DNSCache" where
  "dropKey k c = addSize (-1) (c\<lparr>entries := (entries c)(k := None), items := AList.delete k (items c)\<rparr>)"

text \<open>\<open>checkPrefetch\<close>: a compare-and-swap makes sure that one prefetch is started per entry.\<close>

definition checkPrefetch :: "instant \<Rightarrow> nat \<Rightarrow> string \<Rightarrow> string \<Rightarrow> DNSCache \<Rightarrow> DNSCache" where
  "checkPrefetch now a domain qtype c =
     (if \<not> prefetchFn c then c
      else if ShouldPrefetch now (heap c a) \<and> \<not> IsNegative (heap c a) then
        (if \<not> prefetchTriggered (heap c a)
         then c\<lparr>heap := (heap c)(a := (heap c a)\<lparr>prefetchTriggered := True\<rparr>),
                prefetched := prefetched c @ [(domain, qtype)]\<rparr>
         else c)
      else c)"

text \<open>
  \<open>Get\<close> in its atomic sections. \<open>getExpired\<close> is the locked section for an expired entry:
  \<open>Some\<close> when the loaded entry was still current and is removed, \<open>None\<close> for \<^verbatim>\<open>continue\<close>.
  \<open>getTouch\<close> is the locked section that records the access.
\<close>

definition getExpired :: "string \<Rightarrow> nat \<Rightarrow> DNSCache \<Rightarrow> DNSCache option" where
  "getExpired key a c =
     (if entries c key = Some a then Some (bumpMisses (dropKey key c)) else None)"

definition getTouch :: "instant \<Rightarrow> string \<Rightarrow> nat \<Rightarrow> DNSCache \<Rightarrow> DNSCache" where
  "getTouch now key a c =
     (case map_of (items c) key of
        Some it \<Rightarrow>
          if ci_entry it = a
          then c\<lparr>items := AList.update key (it\<lparr>lastAccess := now\<rparr>) (items c)\<rparr> else c
      | None \<Rightarrow> c)"

text \<open>
  One pass of the loop of \<open>Get\<close>, with no other goroutine between its sections: \<open>None\<close> is
  \<^verbatim>\<open>continue\<close>, \<open>Some (r, c')\<close> a return with the entry found, if any.
\<close>

definition getPass ::
  "instant \<Rightarrow> string \<Rightarrow> string \<Rightarrow> DNSCache \<Rightarrow> (DNSCacheEntry option \<times> DNSCache) option" where
  "getPass now domain qtype c =
     (let key = makeKey domain qtype in
      case entries c key of
        None \<Rightarrow> Some (None, bumpMisses c)
      | Some a \<Rightarrow>
          if IsExpired now (heap c a) then
            (case getExpired key a c of Some c' \<Rightarrow> Some (None, c') | None \<Rightarrow> None)
          else
            (let c' = checkPrefetch now a domain qtype (bumpHits (getTouch now key a c))
             in Some (Some (heap c' a), c')))"

partial_function (option) cacheGet ::
  "instant \<Rightarrow> string \<Rightarrow> string \<Rightarrow> DNSCache \<Rightarrow> (DNSCacheEntry option \<times> DNSCache) option" where
  "cacheGet now domain qtype c =
     (case getPass now domain qtype c of
        Some r \<Rightarrow> Some r
      | None \<Rightarrow> cacheGet now domain qtype c)"

text \<open>
  \<open>evictOldestLocked\<close>: the loop keeps the key and time of the oldest item seen so far;
  \<open>None\<close> stands for \<^verbatim>\<open>first\<close> still being true.
\<close>

fun oldest :: "(string \<times> instant) option \<Rightarrow> (string \<times> cacheItem) list \<Rightarrow> (string \<times> instant) option"
where
  "oldest acc [] = acc"
| "oldest acc ((k, it) # its) =
     (case acc of
        None \<Rightarrow> oldest (Some (k, lastAccess it)) its
      | Some (ok, ot) \<Rightarrow>
          if lastAccess it < ot then oldest (Some (k, lastAccess it)) its else oldest acc its)"

definition evictOldestLocked :: "DNSCache \<Rightarrow> DNSCache" where
  "evictOldestLocked c =
     (case oldest None (items c) of
        None \<Rightarrow> c
      | Some (k, _) \<Rightarrow>
          if k \<noteq> '''' then
            (let c' = dropKey k c
             in c'\<lparr>stats := (stats c')\<lparr>Evictions := Evictions (stats c') + 1\<rparr>\<rparr>)
          else c)"

text \<open>\<^verbatim>\<open>time.Duration(f)\<close> of a float truncates towards zero; the product is taken exactly.\<close>

definition prefetchDuration :: "int \<Rightarrow> rat \<Rightarrow> int" where
  "prefetchDuration ttl trigger =
     (let x = of_int ttl * trigger * 1000000000 in if 0 \<le> x then \<lfloor>x\<rfloor> else \<lceil>x\<rceil>)"

definition effectiveTTL :: "DNSCache \<Rightarrow> int \<Rightarrow> bool \<Rightarrow> int" where
  "effectiveTTL c ttl neg =
     (if ttl = 0 then (if neg then negativeTTL c else defaultTTL c) else ttl)"

definition cacheSet ::
  "instant \<Rightarrow> string \<Rightarrow> string \<Rightarrow> RR list \<Rightarrow> int \<Rightarrow> bool \<Rightarrow> DNSCache \<Rightarrow> DNSCache" where
  "cacheSet now domain qtype rrs ttl neg c =
     (let key = makeKey domain qtype;
          eff = effectiveTTL c ttl neg;
          duration = wrap64 (seconds eff);
          entry = \<lparr>RRs = rrs, Expiry = now + duration,
                   PrefetchTime = now + prefetchDuration eff (prefetchTrigger c),
                   IsNegative = neg, prefetchTriggered = False\<rparr>;
          isOld = (entries c key \<noteq> None);
          c1 = (if \<not> isOld \<and> int (length (items c)) \<ge> maxSize c then evictOldestLocked c else c);
          a = nextAddr c1;
          c2 = c1\<lparr>heap := (heap c1)(a := entry), nextAddr := Suc a,
                  entries := (entries c1)(key := Some a),
                  items := AList.update key \<lparr>ci_entry = a, ci_key = key, lastAccess = now\<rparr> (items c1)\<rparr>
      in if \<not> isOld then addSize 1 c2 else c2)"

text \<open>\<open>Delete(domain)\<close> removes every key that is the domain followed by a colon.\<close>

definition keyOfDomain :: "string \<Rightarrow> string \<Rightarrow> bool" where
  "keyOfDomain domain key \<longleftrightarrow>
     length key > length domain \<and> take (length domain) key = domain
       \<and> key ! length domain = CHR '':''"

definition cacheDelete :: "string \<Rightarrow> DNSCache \<Rightarrow> DNSCache" where
  "cacheDelete domain c =
     fold dropKey (filter (keyOfDomain domain) (map fst (items c))) c"

definition cacheClear :: "DNSCache \<Rightarrow> DNSCache" where
  "cacheClear c = c\<lparr>entries := Map.empty, items := [], stats := (stats c)\<lparr>Size := 0\<rparr>\<rparr>"

definition GetStats :: "DNSCache \<Rightarrow> CacheStats" where
  "GetStats c = stats c"

definition cacheSize :: "DNSCache \<Rightarrow> int" where
  "cacheSize c = sint (Size (stats c))"

definition removeExpired :: "instant \<Rightarrow> DNSCache \<Rightarrow> DNSCache" where
  "removeExpired now c =
     fold dropKey
       (map fst (filter (\<lambda>(k, it). IsExpired now (heap c (ci_entry it))) (items c))) c"

text \<open>The cleanup goroutine: a list of what its \<^verbatim>\<open>select\<close> receives, up to the stop.\<close>

datatype cleanupEvent = Tick instant | StopCh

fun cleanupExpired :: "cleanupEvent list \<Rightarrow> DNSCache \<Rightarrow> DNSCache" where
  "cleanupExpired [] c = c"
| "cleanupExpired (Tick now # es) c = cleanupExpired es (removeExpired now c)"
| "cleanupExpired (StopCh # es) c = c\<lparr>running := False\<rparr>"

definition cacheStop :: "DNSCache \<Rightarrow> DNSCache" where
  "cacheStop c = (if running c then cleanupExpired [StopCh] c else c)"

subsection \<open>The two maps agree\<close>

text \<open>
  The invariant: \<open>items\<close> has no key twice; \<open>entries\<close> and \<open>items\<close> hold the same pointers under
  the same keys; an item knows its key; no two keys share an entry; every pointer was allocated;
  the counter \<open>Size\<close> is the number of items (modulo \<open>2^64\<close>); every key has the colon of
  \<open>makeKey\<close>, so the empty-key guard of the eviction never bites.
\<close>

definition cache_inv :: "DNSCache \<Rightarrow> bool" where
  "cache_inv c \<longleftrightarrow>
     distinct (map fst (items c)) \<and>
     (\<forall>k. entries c k = map_option ci_entry (map_of (items c) k)) \<and>
     (\<forall>k it. map_of (items c) k = Some it \<longrightarrow> ci_key it = k \<and> ci_entry it < nextAddr c) \<and>
     (\<forall>k k' a. entries c k = Some a \<longrightarrow> entries c k' = Some a \<longrightarrow> k = k') \<and>
     Size (stats c) = of_nat (length (items c)) \<and>
     (\<forall>k \<in> fst ` set (items c). CHR '':'' \<in> set k)"

lemma length_AList_delete:
  "distinct (map fst xs) \<Longrightarrow> length (AList.delete k xs) = length xs - (if k \<in> fst ` set xs then 1 else 0)"
proof (induction xs)
  case (Cons x xs)
  show ?case
  proof (cases "fst x = k")
    case True
    with Cons.prems have "AList.delete k xs = xs"
      by (simp add: delete_idem)
    with True show ?thesis by (cases x) auto
  next
    case False
    with Cons show ?thesis by (cases x; cases xs) auto
  qed
qed simp

lemma length_AList_update:
  "length (AList.update k v xs) = length xs + (if k \<in> fst ` set xs then 0 else 1)"
  by (induction xs) auto

lemma dropKey_simps [simp]:
  "entries (dropKey k c) = (entries c)(k := None)"
  "items (dropKey k c) = AList.delete k (items c)"
  "heap (dropKey k c) = heap c"
  "nextAddr (dropKey k c) = nextAddr c"
  "maxSize (dropKey k c) = maxSize c"
  "defaultTTL (dropKey k c) = defaultTTL c"
  "negativeTTL (dropKey k c) = negativeTTL c"
  "prefetchTrigger (dropKey k c) = prefetchTrigger c"
  "Size (stats (dropKey k c)) = Size (stats c) - 1"
  by (simp_all add: dropKey_def addSize_def)

lemma cache_invI:
  assumes "distinct (map fst (items c))"
    and "\<And>k. entries c k = map_option ci_entry (map_of (items c) k)"
    and "\<And>k it. map_of (items c) k = Some it \<Longrightarrow> ci_key it = k \<and> ci_entry it < nextAddr c"
    and "\<And>k k' a. entries c k = Some a \<Longrightarrow> entries c k' = Some a \<Longrightarrow> k = k'"
    and "Size (stats c) = of_nat (length (items c))"
    and "\<And>k. k \<in> fst ` set (items c) \<Longrightarrow> CHR '':'' \<in> set k"
  shows "cache_inv c"
  using assms by (simp add: cache_inv_def)

lemma cache_invD:
  assumes "cache_inv c"
  shows "distinct (map fst (items c))"
    and "entries c k = map_option ci_entry (map_of (items c) k)"
    and "map_of (items c) k = Some it \<Longrightarrow> ci_key it = k \<and> ci_entry it < nextAddr c"
    and "entries c k = Some a \<Longrightarrow> entries c k' = Some a \<Longrightarrow> k = k'"
    and "Size (stats c) = of_nat (length (items c))"
    and "k \<in> fst ` set (items c) \<Longrightarrow> CHR '':'' \<in> set k"
  using assms unfolding cache_inv_def by blast+

lemma cache_inv_item_entry: "cache_inv c \<Longrightarrow> k \<in> fst ` set (items c) \<longleftrightarrow> entries c k \<noteq> None"
  using cache_invD(2) [of c k] by (auto simp: map_of_eq_None_iff)

lemma cache_inv_item: "cache_inv c \<Longrightarrow> (k, it) \<in> set (items c) \<Longrightarrow> entries c k = Some (ci_entry it)"
  using cache_invD(1,2) [of c] by (simp add: map_of_is_SomeI)

lemma cache_inv_dropKey [invs]:
  assumes inv: "cache_inv c" and k: "entries c k \<noteq> None"
  shows "cache_inv (dropKey k c)"
proof (rule cache_invI)
  show "distinct (map fst (items (dropKey k c)))"
    using cache_invD(1) [OF inv] by (simp add: distinct_delete)
  show "entries (dropKey k c) k' = map_option ci_entry (map_of (items (dropKey k c)) k')" for k'
    using cache_invD(2) [OF inv] by (simp add: AList.delete_conv')
  show "ci_key it = k' \<and> ci_entry it < nextAddr (dropKey k c)"
    if "map_of (items (dropKey k c)) k' = Some it" for k' it
    using that cache_invD(3) [OF inv] by (simp add: AList.delete_conv' split: if_splits)
  show "k1 = k2" if "entries (dropKey k c) k1 = Some a" "entries (dropKey k c) k2 = Some a" for k1 k2 a
    using that cache_invD(4) [OF inv] by (simp split: if_splits)
  have mem: "k \<in> fst ` set (items c)" using inv k by (simp add: cache_inv_item_entry)
  then have "1 \<le> length (items c)" by (cases "items c") auto
  then show "Size (stats (dropKey k c)) = of_nat (length (items (dropKey k c)))"
    using cache_invD(1,5) [OF inv] mem by (simp add: length_AList_delete of_nat_diff)
  show "CHR '':'' \<in> set k'" if "k' \<in> fst ` set (items (dropKey k c))" for k'
    using that cache_invD(6) [OF inv, of k'] by (auto simp: AList.delete_eq)
qed

lemma entries_fold_dropKey [simp]:
  "entries (fold dropKey ks c) = (\<lambda>k. if k \<in> set ks then None else entries c k)"
  by (induction ks arbitrary: c) auto

lemma heap_fold_dropKey [simp]: "heap (fold dropKey ks c) = heap c"
  by (induction ks arbitrary: c) auto

lemma maxSize_fold_dropKey [simp]: "maxSize (fold dropKey ks c) = maxSize c"
  by (induction ks arbitrary: c) auto

lemma length_items_fold_dropKey: "length (items (fold dropKey ks c)) \<le> length (items c)"
proof (induction ks arbitrary: c)
  case (Cons k ks)
  have "length (items (fold dropKey ks (dropKey k c))) \<le> length (items (dropKey k c))"
    by (rule Cons.IH)
  also have "\<dots> \<le> length (items c)" by (simp add: length_delete_le)
  finally show ?case by simp
qed simp

lemma cache_inv_fold_dropKey [invs]:
  "cache_inv c \<Longrightarrow> distinct ks \<Longrightarrow> \<forall>k \<in> set ks. entries c k \<noteq> None \<Longrightarrow> cache_inv (fold dropKey ks c)"
proof (induction ks arbitrary: c)
  case (Cons k ks)
  then show ?case by (auto intro!: Cons.IH cache_inv_dropKey)
qed simp

subsection \<open>Eviction removes a least recently used entry\<close>

lemma oldest_Some:
  "oldest (Some (k, t)) its = Some (k', t') \<Longrightarrow>
     t' \<le> t \<and> (\<forall>(k'', it) \<in> set its. t' \<le> lastAccess it) \<and>
     ((k', t') = (k, t) \<or> (\<exists>it. (k', it) \<in> set its \<and> lastAccess it = t'))"
proof (induction its arbitrary: k t)
  case (Cons p its)
  obtain k0 it0 where p: "p = (k0, it0)" by (cases p)
  show ?case
  proof (cases "lastAccess it0 < t")
    case True
    with Cons.prems Cons.IH [of k0 "lastAccess it0"] p show ?thesis by fastforce
  next
    case False
    with Cons.prems Cons.IH [of k t] p show ?thesis by fastforce
  qed
qed simp

lemma oldest_total: "\<exists>r. oldest (Some p) its = Some r"
proof (induction its arbitrary: p)
  case (Cons q its)
  then show ?case by (cases p; cases q) auto
qed simp

lemma oldest_None_iff: "oldest None its = None \<longleftrightarrow> its = []"
proof (cases its)
  case (Cons p ps)
  then show ?thesis using oldest_total [of "(fst p, lastAccess (snd p))" ps] by (cases p) auto
qed simp

lemma oldest_least:
  assumes "oldest None its = Some (k, t)"
  shows "\<exists>it. (k, it) \<in> set its \<and> lastAccess it = t \<and> (\<forall>(k', it') \<in> set its. t \<le> lastAccess it')"
proof (cases its)
  case (Cons p ps)
  obtain k0 it0 where p: "p = (k0, it0)" by (cases p)
  from assms Cons p have "oldest (Some (k0, lastAccess it0)) ps = Some (k, t)" by simp
  from oldest_Some [OF this] Cons p show ?thesis by fastforce
qed (use assms in simp)

definition evictionVictim :: "DNSCache \<Rightarrow> string" where
  "evictionVictim c = fst (the (oldest None (items c)))"

lemma evictOldestLocked_eq:
  assumes "cache_inv c" and "items c \<noteq> []"
  shows "evictOldestLocked c =
    (let c' = dropKey (evictionVictim c) c
     in c'\<lparr>stats := (stats c')\<lparr>Evictions := Evictions (stats c') + 1\<rparr>\<rparr>)"
    and "evictionVictim c \<in> fst ` set (items c)"
    and "\<forall>(k, it) \<in> set (items c). \<forall>v. (evictionVictim c, v) \<in> set (items c) \<longrightarrow> lastAccess v \<le> lastAccess it"
proof -
  obtain k t where kt: "oldest None (items c) = Some (k, t)"
    using assms(2) oldest_None_iff [of "items c"] by fastforce
  from oldest_least [OF kt] obtain it where it: "(k, it) \<in> set (items c)" "lastAccess it = t"
      "\<forall>(k', it') \<in> set (items c). t \<le> lastAccess it'" by blast
  have v: "evictionVictim c = k" by (simp add: evictionVictim_def kt)
  from it(1) assms(1) have "k \<noteq> ''''" by (force simp: cache_inv_def)
  then show "evictOldestLocked c =
    (let c' = dropKey (evictionVictim c) c
     in c'\<lparr>stats := (stats c')\<lparr>Evictions := Evictions (stats c') + 1\<rparr>\<rparr>)"
    by (simp add: evictOldestLocked_def kt v)
  show "evictionVictim c \<in> fst ` set (items c)" using it(1) v by force
  have "\<And>w. (k, w) \<in> set (items c) \<Longrightarrow> w = it"
    using assms(1) it(1) by (auto simp: cache_inv_def dest: eq_key_imp_eq_value)
  then show "\<forall>(k, it) \<in> set (items c). \<forall>v. (evictionVictim c, v) \<in> set (items c) \<longrightarrow> lastAccess v \<le> lastAccess it"
    using it v by fastforce
qed

subsection \<open>Every operation keeps the invariant\<close>

lemma counters_frame [simp]:
  "entries (bumpHits c) = entries c" "items (bumpHits c) = items c" "heap (bumpHits c) = heap c"
  "nextAddr (bumpHits c) = nextAddr c" "maxSize (bumpHits c) = maxSize c"
  "Size (stats (bumpHits c)) = Size (stats c)"
  "entries (bumpMisses c) = entries c" "items (bumpMisses c) = items c" "heap (bumpMisses c) = heap c"
  "nextAddr (bumpMisses c) = nextAddr c" "maxSize (bumpMisses c) = maxSize c"
  "Size (stats (bumpMisses c)) = Size (stats c)"
  by (simp_all add: bumpHits_def bumpMisses_def)

lemma cache_inv_counters [invs]:
  "cache_inv (bumpHits c) = cache_inv c" "cache_inv (bumpMisses c) = cache_inv c"
  "cache_inv (c\<lparr>stats := (stats c)\<lparr>Evictions := n\<rparr>\<rparr>) = cache_inv c"
  by (simp_all add: cache_inv_def)

lemma cache_inv_checkPrefetch [invs]: "cache_inv (checkPrefetch now a d q c) = cache_inv c"
  by (simp add: checkPrefetch_def cache_inv_def)

lemma checkPrefetch_frame [simp]:
  "entries (checkPrefetch now a d q c) = entries c"
  "items (checkPrefetch now a d q c) = items c"
  "maxSize (checkPrefetch now a d q c) = maxSize c"
  by (simp_all add: checkPrefetch_def)

lemma getTouch_frame [simp]:
  "entries (getTouch now k a c) = entries c"
  "heap (getTouch now k a c) = heap c"
  "maxSize (getTouch now k a c) = maxSize c"
  "length (items (getTouch now k a c)) = length (items c)"
  by (auto simp: getTouch_def length_AList_update split: option.splits dest: map_of_SomeD intro: rev_image_eqI)

lemma cache_inv_getTouch [invs]:
  assumes inv: "cache_inv c" shows "cache_inv (getTouch now k a c)"
proof (cases "\<exists>it. map_of (items c) k = Some it \<and> ci_entry it = a")
  case False
  with inv show ?thesis by (auto simp: getTouch_def split: option.splits)
next
  case True
  then obtain it where it: "map_of (items c) k = Some it" "ci_entry it = a" by blast
  let ?c = "c\<lparr>items := AList.update k (it\<lparr>lastAccess := now\<rparr>) (items c)\<rparr>"
  have mem: "k \<in> fst ` set (items c)" using it(1) by (metis map_of_eq_None_iff option.distinct(1))
  have "cache_inv ?c"
  proof (rule cache_invI)
    show "distinct (map fst (items ?c))" using cache_invD(1) [OF inv] by (simp add: distinct_update)
    show "entries ?c k' = map_option ci_entry (map_of (items ?c) k')" for k'
      using cache_invD(2) [OF inv] it by (simp add: AList.update_conv')
    show "ci_key it' = k' \<and> ci_entry it' < nextAddr ?c" if "map_of (items ?c) k' = Some it'" for k' it'
      using that cache_invD(3) [OF inv] it by (auto simp: AList.update_conv' split: if_splits)
    show "k1 = k2" if "entries ?c k1 = Some a'" "entries ?c k2 = Some a'" for k1 k2 a'
      using that cache_invD(4) [OF inv] by simp
    show "Size (stats ?c) = of_nat (length (items ?c))"
      using cache_invD(5) [OF inv] mem by (simp add: length_AList_update)
    show "CHR '':'' \<in> set k'" if "k' \<in> fst ` set (items ?c)" for k'
      using that mem cache_invD(6) [OF inv] by (auto simp: dom_update)
  qed
  with it show ?thesis by (simp add: getTouch_def)
qed

text \<open>With no other goroutine between load and lock, the loop of \<open>Get\<close> ends in its first pass.\<close>

lemma getPass_total: "\<exists>r. getPass now d q c = Some r"
  by (auto simp: getPass_def getExpired_def Let_def split: option.splits)

lemma cacheGet_getPass: "cacheGet now d q c = getPass now d q c"
  using getPass_total [of now d q c] by (subst cacheGet.simps) auto

lemma cacheGet_cases:
  obtains (miss) "entries c (makeKey d q) = None" "cacheGet now d q c = Some (None, bumpMisses c)"
  | (expired) a where "entries c (makeKey d q) = Some a" "IsExpired now (heap c a)"
      "cacheGet now d q c = Some (None, bumpMisses (dropKey (makeKey d q) c))"
  | (hit) a where "entries c (makeKey d q) = Some a" "\<not> IsExpired now (heap c a)"
      "cacheGet now d q c =
         Some (Some (heap (checkPrefetch now a d q (bumpHits (getTouch now (makeKey d q) a c))) a),
               checkPrefetch now a d q (bumpHits (getTouch now (makeKey d q) a c)))"
  by (cases "entries c (makeKey d q)")
    (auto simp: cacheGet_getPass getPass_def getExpired_def Let_def split: if_splits)

lemma cache_inv_cacheGet [invs]:
  "cache_inv c \<Longrightarrow> cacheGet now d q c = Some (r, c') \<Longrightarrow> cache_inv c'"
proof -
  assume inv: "cache_inv c" and get: "cacheGet now d q c = Some (r, c')"
  from inv have touch: "cache_inv (checkPrefetch now a d q (bumpHits (getTouch now k a c)))" for a k
    by (simp add: cache_inv_checkPrefetch cache_inv_counters cache_inv_getTouch)
  show "cache_inv c'"
  proof (cases rule: cacheGet_cases [of c d q now])
    case miss
    with get have "c' = bumpMisses c" by simp
    with inv show ?thesis by (simp add: cache_inv_counters)
  next
    case (expired a)
    with get have "c' = bumpMisses (dropKey (makeKey d q) c)" by simp
    with inv expired(1) show ?thesis by (simp add: cache_inv_counters cache_inv_dropKey)
  next
    case (hit a)
    with get have "c' = checkPrefetch now a d q (bumpHits (getTouch now (makeKey d q) a c))" by simp
    with touch show ?thesis by simp
  qed
qed

lemma cache_inv_evict [invs]:
  assumes "cache_inv c" shows "cache_inv (evictOldestLocked c)"
proof (cases "items c = []")
  case True
  with assms show ?thesis by (simp add: evictOldestLocked_def)
next
  case False
  have "cache_inv (dropKey (evictionVictim c) c)"
    using assms evictOldestLocked_eq(2) [OF assms False] by (simp add: cache_inv_item_entry cache_inv_dropKey)
  then show ?thesis by (simp add: evictOldestLocked_eq(1) [OF assms False] Let_def cache_inv_counters)
qed

lemma evict_frame:
  assumes "cache_inv c" and "items c \<noteq> []"
  shows "length (items (evictOldestLocked c)) = length (items c) - 1"
    and "entries (evictOldestLocked c) = (entries c)(evictionVictim c := None)"
    and "heap (evictOldestLocked c) = heap c"
    and "nextAddr (evictOldestLocked c) = nextAddr c"
  using evictOldestLocked_eq(1,2) [OF assms] cache_invD(1) [OF assms(1)]
  by (simp_all add: Let_def length_AList_delete)

lemma evict_config [simp]:
  "maxSize (evictOldestLocked c) = maxSize c"
  "heap (evictOldestLocked c) = heap c"
  "nextAddr (evictOldestLocked c) = nextAddr c"
  by (simp_all add: evictOldestLocked_def Let_def split: option.splits)

lemma makeKey_colon [simp]: "CHR '':'' \<in> set (makeKey d q)"
  by (simp add: makeKey_def)

text \<open>Storing a fresh entry under a key: the part of \<open>Set\<close> after the eviction.\<close>

definition storeEntry :: "string \<Rightarrow> DNSCacheEntry \<Rightarrow> instant \<Rightarrow> DNSCache \<Rightarrow> DNSCache" where
  "storeEntry key e now c =
     (let a = nextAddr c;
          c2 = c\<lparr>heap := (heap c)(a := e), nextAddr := Suc a, entries := (entries c)(key := Some a),
                 items := AList.update key \<lparr>ci_entry = a, ci_key = key, lastAccess = now\<rparr> (items c)\<rparr>
      in if entries c key = None then addSize 1 c2 else c2)"

lemma storeEntry_simps [simp]:
  "entries (storeEntry k e now c) = (entries c)(k := Some (nextAddr c))"
  "heap (storeEntry k e now c) = (heap c)(nextAddr c := e)"
  "nextAddr (storeEntry k e now c) = Suc (nextAddr c)"
  "maxSize (storeEntry k e now c) = maxSize c"
  "items (storeEntry k e now c) =
     AList.update k \<lparr>ci_entry = nextAddr c, ci_key = k, lastAccess = now\<rparr> (items c)"
  by (simp_all add: storeEntry_def Let_def addSize_def)

lemma cache_inv_storeEntry [invs]:
  assumes inv: "cache_inv c" and colon: "CHR '':'' \<in> set k"
  shows "cache_inv (storeEntry k e now c)"
proof (rule cache_invI)
  show "distinct (map fst (items (storeEntry k e now c)))"
    using cache_invD(1) [OF inv] by (simp add: distinct_update)
  show "entries (storeEntry k e now c) k' =
      map_option ci_entry (map_of (items (storeEntry k e now c)) k')" for k'
    using cache_invD(2) [OF inv] by (simp add: AList.update_conv')
  show "ci_key it = k' \<and> ci_entry it < nextAddr (storeEntry k e now c)"
    if "map_of (items (storeEntry k e now c)) k' = Some it" for k' it
    using that cache_invD(3) [OF inv] by (auto simp: AList.update_conv' less_SucI split: if_splits)
  have old: "a < nextAddr c" if "entries c k' = Some a" for k' a
    using that cache_invD(2,3) [OF inv, of k'] by auto
  show "k1 = k2" if "entries (storeEntry k e now c) k1 = Some a"
      "entries (storeEntry k e now c) k2 = Some a" for k1 k2 a
    using that cache_invD(4) [OF inv, of k1 a k2] old [of k1 a] old [of k2 a]
    by (auto split: if_splits)
  show "Size (stats (storeEntry k e now c)) = of_nat (length (items (storeEntry k e now c)))"
    using cache_invD(5) [OF inv] cache_inv_item_entry [OF inv, of k]
    by (auto simp: storeEntry_def Let_def addSize_def length_AList_update)
  show "CHR '':'' \<in> set k'" if "k' \<in> fst ` set (items (storeEntry k e now c))" for k'
    using that colon cache_invD(6) [OF inv] by (auto simp: dom_update)
qed

definition newEntry :: "instant \<Rightarrow> RR list \<Rightarrow> int \<Rightarrow> bool \<Rightarrow> DNSCache \<Rightarrow> DNSCacheEntry" where
  "newEntry now rrs ttl neg c =
     (let eff = effectiveTTL c ttl neg
      in \<lparr>RRs = rrs, Expiry = now + wrap64 (seconds eff),
          PrefetchTime = now + prefetchDuration eff (prefetchTrigger c),
          IsNegative = neg, prefetchTriggered = False\<rparr>)"

definition makeRoom :: "string \<Rightarrow> DNSCache \<Rightarrow> DNSCache" where
  "makeRoom key c =
     (if entries c key = None \<and> int (length (items c)) \<ge> maxSize c then evictOldestLocked c else c)"

lemma makeRoom_key: "cache_inv c \<Longrightarrow> entries (makeRoom k c) k = None \<longleftrightarrow> entries c k = None"
proof (cases "items c = []")
  case True
  then show ?thesis by (simp add: makeRoom_def evictOldestLocked_def)
next
  case False
  assume "cache_inv c"
  with False show ?thesis by (simp add: makeRoom_def evict_frame(2))
qed

lemma cacheSet_eq:
  assumes "cache_inv c"
  shows "cacheSet now d q rrs ttl neg c =
    storeEntry (makeKey d q) (newEntry now rrs ttl neg c) now (makeRoom (makeKey d q) c)"
  using makeRoom_key [OF assms, of "makeKey d q"]
  by (simp add: cacheSet_def storeEntry_def newEntry_def makeRoom_def Let_def)

lemma cache_inv_makeRoom [invs]: "cache_inv c \<Longrightarrow> cache_inv (makeRoom k c)"
  by (simp add: makeRoom_def cache_inv_evict)

lemma cache_inv_cacheSet [invs]: "cache_inv c \<Longrightarrow> cache_inv (cacheSet now d q rrs ttl neg c)"
  by (simp add: cacheSet_eq cache_inv_storeEntry cache_inv_makeRoom)

lemma cache_inv_cacheDelete [invs]: "cache_inv c \<Longrightarrow> cache_inv (cacheDelete d c)"
  unfolding cacheDelete_def
  by (rule cache_inv_fold_dropKey) (auto simp: cache_invD(1) distinct_filter dest: cache_inv_item)

lemma cache_inv_removeExpired [invs]: "cache_inv c \<Longrightarrow> cache_inv (removeExpired now c)"
  unfolding removeExpired_def
  by (rule cache_inv_fold_dropKey)
    (auto simp: distinct_map_filter cache_invD(1) dest: cache_inv_item)

lemma cache_inv_cacheClear [invs]: "cache_inv (cacheClear c)"
  by (rule cache_invI) (simp_all add: cacheClear_def)

lemma cache_inv_New [invs]: "cache_inv (NewDNSCache m d n t)"
  by (rule cache_invI) (simp_all add: NewDNSCache_def)

subsection \<open>The cache as a map of live answers\<close>

text \<open>
  The abstract state: the answer (records, negative flag, expiry) a lookup at instant \<open>t\<close> would
  find under a key.
\<close>

definition view :: "instant \<Rightarrow> DNSCache \<Rightarrow> string \<Rightarrow> (RR list \<times> bool \<times> instant) option" where
  "view t c k =
     (case entries c k of
        None \<Rightarrow> None
      | Some a \<Rightarrow>
          if IsExpired t (heap c a) then None
          else Some (RRs (heap c a), IsNegative (heap c a), Expiry (heap c a)))"

definition answer_of :: "DNSCacheEntry \<Rightarrow> RR list \<times> bool \<times> instant" where
  "answer_of e = (RRs e, IsNegative e, Expiry e)"

lemma view_bump [simp]: "view t (bumpHits c) = view t c" "view t (bumpMisses c) = view t c"
  by (simp_all add: view_def fun_eq_iff split: option.splits)

lemma view_touch [simp]: "view t (getTouch now k a c) = view t c"
  by (simp add: view_def fun_eq_iff split: option.splits)

lemma heap_checkPrefetch:
  "answer_of (heap (checkPrefetch now a d q c) b) = answer_of (heap c b)"
  by (simp add: checkPrefetch_def answer_of_def)

lemma view_answer_of:
  "view t c k =
     (case entries c k of None \<Rightarrow> None
      | Some a \<Rightarrow> let (rrs, neg, x) = answer_of (heap c a) in if t > x then None else Some (rrs, neg, x))"
  by (simp add: view_def answer_of_def IsExpired_def split: option.splits)

lemma view_checkPrefetch [simp]: "view t (checkPrefetch now a d q c) = view t c"
  by (simp add: view_answer_of fun_eq_iff heap_checkPrefetch split: option.splits)

lemma view_dropKey: "view t (dropKey k c) = (view t c)(k := None)"
  by (simp add: view_def fun_eq_iff split: option.splits)

lemma view_fold_dropKey: "view t (fold dropKey ks c) k = (if k \<in> set ks then None else view t c k)"
  by (simp add: view_def split: option.splits)

lemma view_get:
  assumes get: "cacheGet now d q c = Some (r, c')"
  shows "map_option answer_of r = view now c (makeKey d q)"
    and "now \<le> t \<Longrightarrow> view t c' = view t c"
proof -
  show "map_option answer_of r = view now c (makeKey d q)"
  proof (cases rule: cacheGet_cases [of c d q now])
    case miss
    with get show ?thesis by (simp add: view_def)
  next
    case (expired a)
    with get show ?thesis by (simp add: view_def)
  next
    case (hit a)
    then have "map_option answer_of r = Some (answer_of (heap c a))"
      using get by (auto simp: heap_checkPrefetch)
    with hit(1,2) show ?thesis by (simp add: view_def answer_of_def)
  qed
  assume t: "now \<le> t"
  show "view t c' = view t c"
  proof (cases rule: cacheGet_cases [of c d q now])
    case miss
    with get have "c' = bumpMisses c" by simp
    then show ?thesis by simp
  next
    case (expired a)
    with get have "c' = bumpMisses (dropKey (makeKey d q) c)" by simp
    moreover have "view t c (makeKey d q) = None"
      using expired(1,2) t by (simp add: view_def IsExpired_def)
    ultimately show ?thesis by (simp add: view_dropKey fun_upd_idem)
  next
    case (hit a)
    with get have "c' = checkPrefetch now a d q (bumpHits (getTouch now (makeKey d q) a c))" by simp
    then show ?thesis by simp
  qed
qed

lemma view_storeEntry:
  assumes "cache_inv c"
  shows "view t (storeEntry k e now c) =
    (view t c)(k := (if t > Expiry e then None else Some (RRs e, IsNegative e, Expiry e)))"
proof (rule ext)
  fix k'
  have "a < nextAddr c" if "entries c k' = Some a" for a
    using that cache_invD(2,3) [OF assms, of k'] by auto
  then show "view t (storeEntry k e now c) k' =
      ((view t c)(k := (if t > Expiry e then None else Some (RRs e, IsNegative e, Expiry e)))) k'"
    by (auto simp: view_def IsExpired_def split: option.splits)
qed

text \<open>The key that \<open>Set\<close> evicts for a new key, when the cache is full.\<close>

definition evicted :: "string \<Rightarrow> DNSCache \<Rightarrow> string option" where
  "evicted key c =
     (if entries c key = None \<and> int (length (items c)) \<ge> maxSize c \<and> items c \<noteq> []
      then Some (evictionVictim c) else None)"

lemma view_makeRoom:
  assumes "cache_inv c"
  shows "view t (makeRoom k c) k' = (if evicted k c = Some k' then None else view t c k')"
proof (cases "items c = []")
  case True
  then show ?thesis by (simp add: makeRoom_def evicted_def evictOldestLocked_def)
next
  case False
  then show ?thesis using evict_frame(2) [OF assms False] by (simp add: makeRoom_def evicted_def view_def split: option.splits)
qed

lemma view_set:
  assumes "cache_inv c"
  shows "view t (cacheSet now d q rrs ttl neg c) k =
    (let x = now + wrap64 (seconds (effectiveTTL c ttl neg))
     in if k = makeKey d q then (if t > x then None else Some (rrs, neg, x))
        else if evicted (makeKey d q) c = Some k then None else view t c k)"
  by (simp add: cacheSet_eq [OF assms] view_storeEntry cache_inv_makeRoom [OF assms]
      view_makeRoom [OF assms] newEntry_def Let_def)

lemma view_delete:
  assumes "cache_inv c"
  shows "view t (cacheDelete d c) k = (if keyOfDomain d k then None else view t c k)"
proof -
  have "view t c k = None" if "k \<notin> fst ` set (items c)"
    using that cache_inv_item_entry [OF assms] by (simp add: view_def)
  then show ?thesis by (auto simp: cacheDelete_def view_fold_dropKey)
qed

lemma view_removeExpired:
  assumes "cache_inv c" and "now \<le> t"
  shows "view t (removeExpired now c) k = view t c k"
proof -
  have "view t c k = None" if "(k, it) \<in> set (items c)" "IsExpired now (heap c (ci_entry it))" for it
    using that cache_inv_item [OF assms(1), of k it] assms(2) by (simp add: view_def IsExpired_def)
  then show ?thesis by (auto simp: removeExpired_def view_fold_dropKey)
qed

lemma view_clear [simp]: "view t (cacheClear c) k = None"
  by (simp add: view_def cacheClear_def)

lemma keyOfDomain_makeKey [simp]: "keyOfDomain d (makeKey d q)"
  by (simp add: keyOfDomain_def makeKey_def)

lemma makeKey_inj:
  assumes "CHR '':'' \<notin> set q" "CHR '':'' \<notin> set q'"
  shows "makeKey d q = makeKey d' q' \<longleftrightarrow> d = d' \<and> q = q'"
proof
  assume eq: "makeKey d q = makeKey d' q'"
  have split: "takeWhile (\<lambda>c. c \<noteq> CHR '':'') (rev (makeKey d q)) = rev q"
    if "CHR '':'' \<notin> set q" for d q
    using that by (simp add: makeKey_def takeWhile_append takeWhile_eq_all_conv)
  have "rev q = rev q'" using split [OF assms(1), of d] split [OF assms(2), of d'] eq by metis
  with eq show "d = d' \<and> q = q'" by (simp add: makeKey_def)
qed simp

subsection \<open>Capacity and reachable caches\<close>

inductive cache_step :: "DNSCache \<Rightarrow> DNSCache \<Rightarrow> bool" where
  get: "cacheGet now d q c = Some (r, c') \<Longrightarrow> cache_step c c'"
| set: "cache_step c (cacheSet now d q rrs ttl neg c)"
| delete: "cache_step c (cacheDelete d c)"
| clear: "cache_step c (cacheClear c)"
| cleanup: "cache_step c (removeExpired now c)"

inductive cache_reach :: "int \<Rightarrow> int \<Rightarrow> int \<Rightarrow> rat \<Rightarrow> DNSCache \<Rightarrow> bool" for m dt nt tr where
  init: "cache_reach m dt nt tr (NewDNSCache m dt nt tr)"
| step: "cache_reach m dt nt tr c \<Longrightarrow> cache_step c c' \<Longrightarrow> cache_reach m dt nt tr c'"

definition within_capacity :: "DNSCache \<Rightarrow> bool" where
  "within_capacity c \<longleftrightarrow> int (length (items c)) \<le> max 1 (maxSize c)"

lemma cache_step_inv: "cache_step c c' \<Longrightarrow> cache_inv c \<Longrightarrow> cache_inv c'"
  by (induction rule: cache_step.induct)
    (auto intro: cache_inv_cacheGet cache_inv_cacheSet cache_inv_cacheDelete cache_inv_cacheClear
      cache_inv_removeExpired)

lemma cacheGet_capacity:
  assumes "cacheGet now d q c = Some (r, c')"
  shows "maxSize c' = maxSize c" and "length (items c') \<le> length (items c)"
  by (cases rule: cacheGet_cases [of c d q now];
      use assms in \<open>auto simp: length_delete_le\<close>)+

lemma makeRoom_capacity:
  assumes "cache_inv c" and "entries c k = None" and "within_capacity c"
  shows "int (length (items (makeRoom k c))) < max 1 (maxSize c)"
proof (cases "items c = []")
  case True
  then show ?thesis using assms(2) by (simp add: makeRoom_def evictOldestLocked_def)
next
  case False
  then have "0 < length (items c)" by simp
  then show ?thesis
    using assms(2,3) evict_frame(1) [OF assms(1) False]
    by (auto simp: makeRoom_def within_capacity_def)
qed

lemma makeRoom_maxSize [simp]: "maxSize (makeRoom k c) = maxSize c"
  by (simp add: makeRoom_def)

lemma cacheSet_capacity:
  assumes inv: "cache_inv c" and cap: "within_capacity c"
  shows "within_capacity (cacheSet now d q rrs ttl neg c)"
proof (cases "entries c (makeKey d q)")
  case None
  with makeRoom_capacity [OF inv None cap] show ?thesis
    by (auto simp: cacheSet_eq [OF inv] within_capacity_def length_AList_update)
next
  case (Some a)
  then have "makeRoom (makeKey d q) c = c" by (simp add: makeRoom_def)
  with Some cap cache_inv_item_entry [OF inv, of "makeKey d q"] show ?thesis
    by (simp add: cacheSet_eq [OF inv] within_capacity_def length_AList_update)
qed

lemma cache_step_capacity:
  "cache_step c c' \<Longrightarrow> cache_inv c \<Longrightarrow> within_capacity c \<Longrightarrow> within_capacity c'"
proof (induction rule: cache_step.induct)
  case (get now d q c r c')
  with cacheGet_capacity [OF get.hyps] show ?case by (simp add: within_capacity_def)
next
  case (set c now d q rrs ttl neg)
  then show ?case by (simp add: cacheSet_capacity)
next
  case (delete c d)
  let ?ks = "filter (keyOfDomain d) (map fst (items c))"
  from delete length_items_fold_dropKey [of ?ks c] show ?case
    by (simp add: within_capacity_def cacheDelete_def)
next
  case (clear c)
  then show ?case by (simp add: within_capacity_def cacheClear_def)
next
  case (cleanup c now)
  let ?ks = "map fst (filter (\<lambda>(k, it). IsExpired now (heap c (ci_entry it))) (items c))"
  from cleanup length_items_fold_dropKey [of ?ks c] show ?case
    by (simp add: within_capacity_def removeExpired_def)
qed

lemma cache_reach_inv: "cache_reach m dt nt tr c \<Longrightarrow> cache_inv c \<and> within_capacity c"
proof (induction rule: cache_reach.induct)
  case init
  have "within_capacity (NewDNSCache m dt nt tr)"
    by (simp add: within_capacity_def NewDNSCache_def)
  then show ?case by (simp add: cache_inv_New)
next
  case (step c c')
  then show ?case using cache_step_inv cache_step_capacity by blast
qed


subsection \<open>The interface the handler relies on\<close>

text \<open>
  A response cache: \<open>look t c k\<close> is the answer a lookup of \<open>k\<close> at \<open>t\<close> would find, \<open>get\<close> performs the
  lookup, \<open>put\<close> stores. Requests with the same \<open>key\<close> share an entry; storing a new key may drop
  the entry that \<open>drops\<close> names. The clients' lemmas follow from these laws alone.
\<close>

locale response_cache =
  fixes ok :: "'c \<Rightarrow> bool" and key :: "'k \<Rightarrow> 'i"
    and look :: "instant \<Rightarrow> 'c \<Rightarrow> 'i \<Rightarrow> 'a option"
    and get :: "instant \<Rightarrow> 'k \<Rightarrow> 'c \<Rightarrow> 'a option \<times> 'c"
    and put :: "instant \<Rightarrow> 'k \<Rightarrow> 'p \<Rightarrow> 'c \<Rightarrow> 'c"
    and ans :: "instant \<Rightarrow> 'p \<Rightarrow> 'c \<Rightarrow> 'a" and live :: "instant \<Rightarrow> 'a \<Rightarrow> bool"
    and drops :: "'i \<Rightarrow> 'c \<Rightarrow> 'i option"
  assumes get_value: "ok c \<Longrightarrow> fst (get t k c) = look t c (key k)"
    and get_ok: "ok c \<Longrightarrow> ok (snd (get t k c))"
    and get_keeps: "ok c \<Longrightarrow> t \<le> t' \<Longrightarrow> look t' (snd (get t k c)) = look t' c"
    and put_ok: "ok c \<Longrightarrow> ok (put now k p c)"
    and put_look: "ok c \<Longrightarrow> look t (put now k p c) i =
       (if i = key k then (if live t (ans now p c) then Some (ans now p c) else None)
        else if drops (key k) c = Some i then None else look t c i)"
begin

lemma get_after_put:
  "ok c \<Longrightarrow> key k' = key k \<Longrightarrow>
     fst (get t k' (put now k p c)) = (if live t (ans now p c) then Some (ans now p c) else None)"
  by (simp add: get_value put_ok put_look)

lemma get_twice:
  assumes "ok c" and "t \<le> t'"
  shows "fst (get t' k (snd (get t k' c))) = fst (get t' k c)"
  using assms by (simp add: get_value get_ok get_keeps)

lemma put_other:
  "ok c \<Longrightarrow> key k' \<noteq> key k \<Longrightarrow> drops (key k) c \<noteq> Some (key k') \<Longrightarrow>
     fst (get t k' (put now k p c)) = fst (get t k' c)"
  by (simp add: get_value put_ok put_look)

end

definition getAnswer :: "instant \<Rightarrow> string \<times> string \<Rightarrow> DNSCache \<Rightarrow> (RR list \<times> bool \<times> instant) option \<times> DNSCache" where
  "getAnswer t k c =
     (case cacheGet t (fst k) (snd k) c of
        Some (r, c') \<Rightarrow> (map_option answer_of r, c')
      | None \<Rightarrow> (None, c))"

definition expiryOf :: "instant \<Rightarrow> int \<Rightarrow> bool \<Rightarrow> DNSCache \<Rightarrow> instant" where
  "expiryOf now ttl neg c = now + wrap64 (seconds (effectiveTTL c ttl neg))"

lemma cacheGet_returns: "\<exists>r c'. cacheGet t d q c = Some (r, c')"
  by (cases rule: cacheGet_cases [of c d q t]) auto

interpretation cache: response_cache cache_inv "\<lambda>(d, q). makeKey d q" view getAnswer
  "\<lambda>now (d, q) (rrs, ttl, neg). cacheSet now d q rrs ttl neg"
  "\<lambda>now (rrs, ttl, neg) c. (rrs, neg, expiryOf now ttl neg c)" "\<lambda>t (rrs, neg, x). t \<le> x" evicted
proof (unfold_locales, goal_cases)
  case (1 c t k)
  obtain d q where k: "k = (d, q)" by (cases k)
  obtain r c' where g: "cacheGet t d q c = Some (r, c')" using cacheGet_returns by blast
  from view_get(1) [OF g] k g show ?case by (simp add: getAnswer_def)
next
  case (2 c t k)
  obtain d q where k: "k = (d, q)" by (cases k)
  obtain r c' where "cacheGet t d q c = Some (r, c')" using cacheGet_returns by blast
  with 2 k show ?case by (auto simp: getAnswer_def dest: cache_inv_cacheGet)
next
  case (3 c t t' k)
  obtain d q where k: "k = (d, q)" by (cases k)
  obtain r c' where g: "cacheGet t d q c = Some (r, c')" using cacheGet_returns by blast
  from view_get(2) [OF g 3(2)] k g show ?case by (simp add: getAnswer_def)
next
  case (4 c now k p)
  then show ?case by (cases k; cases p) (simp add: cache_inv_cacheSet)
next
  case (5 c t now k p i)
  then show ?case by (cases k; cases p) (simp add: view_set expiryOf_def Let_def not_less)
qed

subsection \<open>Properties\<close>

text \<open>
  C6: The cache is well formed and bounded. Every cache that lookups, stores, deletions, clears and
  cleanups reach from a new one satisfies the invariant (the lock-free map and the LRU
  table hold the same entries under the same keys, the size counter counts them) and holds at most
  \<^verbatim>\<open>maxSize\<close> entries, or one when \<^verbatim>\<open>maxSize\<close> is not positive.
\<close>

theorem cache_wellformed_bounded:
  assumes "cache_reach m dt nt tr c"
  shows "cache_inv c \<and> int (length (items c)) \<le> max 1 (maxSize c)"
  using cache_reach_inv [OF assms] by (simp add: within_capacity_def)

definition sample_rr :: RR where
  "sample_rr = RR_A \<lparr>h_Name = ''a.'', h_Rrtype = 1, h_Class = 1, h_Ttl = 60\<rparr> (v4_mapped 0x01020304)"

theorem cache_wellformed_bounded_witness:
  "length (items (cacheSet 2 ''b.'' ''A'' [sample_rr] 60 False
     (cacheSet 1 ''a.'' ''A'' [sample_rr] 60 False (NewDNSCache 1 300 300 (9/10))))) = 1"
proof -
  have "cache_reach 1 300 300 (9/10) (cacheSet 2 ''b.'' ''A'' [sample_rr] 60 False
     (cacheSet 1 ''a.'' ''A'' [sample_rr] 60 False (NewDNSCache 1 300 300 (9/10))))"
    by (intro cache_reach.step [OF cache_reach.step [OF cache_reach.init cache_step.set] cache_step.set])
  from cache_wellformed_bounded [OF this] show ?thesis
    by (simp add: cacheSet_def NewDNSCache_def makeKey_def Let_def evictOldestLocked_def addSize_def dropKey_def)
qed

text \<open>
  C4: A stored answer is found until it expires, and only until then. After a store under a domain and type, a
  lookup at any time returns the stored records and negative flag up to the expiry, which is the
  given TTL (or the configured default when it is zero) after the store, and nothing later;
  the lookup always returns, although it is written as an endless loop.
\<close>

theorem cache_get_after_set:
  assumes "cache_inv c"
  shows "\<exists>r c'. cacheGet t d q (cacheSet now d q rrs ttl neg c) = Some (r, c')
     \<and> map_option answer_of r =
         (let x = now + wrap64 (seconds (if ttl = 0 then if neg then negativeTTL c else defaultTTL c else ttl))
          in if t \<le> x then Some (rrs, neg, x) else None)"
proof -
  obtain r c' where g: "cacheGet t d q (cacheSet now d q rrs ttl neg c) = Some (r, c')"
    using cacheGet_returns by blast
  with cache.get_after_put [OF assms, of "(d, q)" "(d, q)" t now "(rrs, ttl, neg)"] show ?thesis
    by (auto simp: getAnswer_def expiryOf_def effectiveTTL_def Let_def)
qed

theorem cache_get_after_set_witness:
  "\<exists>r c'. cacheGet (seconds 60) ''a.'' ''A'' (cacheSet 0 ''a.'' ''A'' [sample_rr] 60 False (NewDNSCache 1 300 300 (9/10)))
     = Some (r, c') \<and> map_option answer_of r = Some ([sample_rr], False, seconds 60)"
  using cache_get_after_set [OF cache_inv_New [of 1 300 300 "9/10"], of "seconds 60" "''a.''" "''A''" 0 "[sample_rr]" 60 False]
  by (simp add: seconds_def wrap64_def)

lemma evicted_oldest:
  assumes "cache_inv c" and "evicted k c = Some v"
  shows "int (length (items c)) \<ge> maxSize c
     \<and> (\<exists>it. (v, it) \<in> set (items c) \<and> (\<forall>(k, it') \<in> set (items c). lastAccess it \<le> lastAccess it'))"
proof -
  from assms(2) have ne: "items c \<noteq> []" "v = evictionVictim c" "int (length (items c)) \<ge> maxSize c"
    by (auto simp: evicted_def split: if_splits)
  from evictOldestLocked_eq(2) [OF assms(1) ne(1)] obtain it where "(v, it) \<in> set (items c)" using ne(2) by auto
  with evictOldestLocked_eq(3) [OF assms(1) ne(1)] ne show ?thesis by blast
qed

text \<open>
  C40: Storing one key disturbs no other, except the least recently used one of a full cache. A lookup of another
  key finds what it found before, unless the key is the victim of an eviction; the victim is
  a stored key whose last access is the oldest.
\<close>

theorem cache_set_other:
  assumes "cache_inv c" and "makeKey d' q' \<noteq> makeKey d q"
  shows "fst (getAnswer t (d', q') (cacheSet now d q rrs ttl neg c)) = fst (getAnswer t (d', q') c)
     \<or> (fst (getAnswer t (d', q') (cacheSet now d q rrs ttl neg c)) = None
        \<and> int (length (items c)) \<ge> maxSize c
        \<and> (\<exists>it. (makeKey d' q', it) \<in> set (items c) \<and> (\<forall>(k, it') \<in> set (items c). lastAccess it \<le> lastAccess it')))"
proof (cases "evicted (makeKey d q) c = Some (makeKey d' q')")
  case True
  have "fst (getAnswer t (d', q') (cacheSet now d q rrs ttl neg c)) = None"
    using assms True cache.get_value [of "cacheSet now d q rrs ttl neg c" t "(d', q')"]
    by (simp add: cache_inv_cacheSet view_set Let_def)
  with evicted_oldest [OF assms(1) True] show ?thesis by blast
next
  case False
  with assms cache.put_other [of c "(d', q')" "(d, q)" t now "(rrs, ttl, neg)"] show ?thesis by simp
qed

theorem cache_set_other_witness:
  "fst (getAnswer 3 (''a.'', ''A'') (cacheSet 2 ''b.'' ''A'' [sample_rr] 60 False
     (cacheSet 1 ''a.'' ''A'' [sample_rr] 60 False (NewDNSCache 2 300 300 (9/10))))) = Some ([sample_rr], False, 1 + seconds 60)"
proof -
  let ?c = "cacheSet 1 ''a.'' ''A'' [sample_rr] 60 False (NewDNSCache 2 300 300 (9/10))"
  have inv: "cache_inv ?c" by (intro cache_inv_cacheSet cache_inv_New)
  have small: "int (length (items ?c)) < maxSize ?c"
    by (simp add: cacheSet_def NewDNSCache_def Let_def addSize_def)
  have "fst (getAnswer 3 (''a.'', ''A'') ?c) = Some ([sample_rr], False, 1 + seconds 60)"
    using cache.get_after_put [OF cache_inv_New [of 2 300 300 "9/10"], of "(''a.'', ''A'')" "(''a.'', ''A'')" 3 1 "([sample_rr], 60, False)"]
    by (simp add: expiryOf_def effectiveTTL_def seconds_def wrap64_def)
  with cache_set_other [OF inv, of "''a.''" "''A''" "''b.''" "''A''" 3 2 "[sample_rr]" 60 False] small show ?thesis
    by (simp add: makeKey_def)
qed

text \<open>
  Deleting a domain removes exactly its answers. After \<^verbatim>\<open>Delete\<close> no lookup of the domain, whatever the type, finds
  an answer, and a lookup of a name that does not continue the domain by a colon is as before.
\<close>

lemma cache_delete_exact:
  assumes "cache_inv c"
  shows "fst (getAnswer t (d', q) (cacheDelete d c)) =
           (if d' = d \<or> keyOfDomain d (makeKey d' q) then None else fst (getAnswer t (d', q) c))"
proof -
  have "fst (getAnswer t (d', q) (cacheDelete d c)) = view t (cacheDelete d c) (makeKey d' q)"
    using cache.get_value [OF cache_inv_cacheDelete [OF assms], of t "(d', q)"] by simp
  then show ?thesis
    using cache.get_value [OF assms, of t "(d', q)"] view_delete [OF assms] by auto
qed

lemma cache_delete_exact_witness:
  "fst (getAnswer 3 (''a.'', ''A'') (cacheDelete ''a.'' (NewDNSCache 2 300 300 (9/10)))) = None"
  using cache_delete_exact [OF cache_inv_New [of 2 300 300 "9/10"], of 3 "''a.''" "''A''" "''a.''"] by simp

end
