(* ===== verification/Database.thy ===== *)
theory Database
  imports Model "HOL-Library.List_Lexorder" "HOL-Library.Char_ord" "HOL-Library.Product_Lexorder"
begin

section \<open>The database: tables, faults, transactions (storage/database.go, migration.go)\<close>

text \<open>
  The tables of the schema of \<^verbatim>\<open>storage/migration.go\<close> as lists of rows in rowid order, with the
  \<^verbatim>\<open>AUTOINCREMENT\<close> counters. A SQL statement of the sources is the list operation it denotes,
  with the schema's \<^verbatim>\<open>UNIQUE\<close> and foreign-key constraints as its failures and
  \<^verbatim>\<open>ON DELETE CASCADE\<close> as its effect. Besides, any call to the database may fail: \<open>faults\<close> is
  the script of the calls to come, \<open>True\<close> for one that returns an error (an empty script is a
  database that works). A read is one such call; a transaction is a call each for begin, for
  every statement and result inspection, and for commit, and its deferred rollback leaves the
  tables as they were.
\<close>

datatype table =
  TZones | TRecords | TUpstreams | TPolicies | TPools | TMembers | TChecks | TSources | TDomains

record tables =
  t_seq :: "table \<Rightarrow> rowid"
  t_zones :: "Zone list"
  t_records :: "Record list"
  t_upstreams :: "UpstreamServer list"
  t_policies :: "GSLBPolicy list"
  t_pools :: "GSLBPool list"
  t_members :: "GSLBMember list"
  t_checks :: "HealthCheck list"
  t_sources :: "AdblockSource list"
  t_domains :: "AdblockDomain list"
  t_adstats :: "(string \<times> string) list"
  t_cacheSettings :: "CacheSettings option"
  last_sync_version :: int
  data_checksum :: "string option"
  last_sync_at :: "instant option"

datatype db_error =
    QueryFailed
  | BeginFailed
  | ExecFailed
  | ConstraintFailed
  | ResultFailed
  | VersionFailed
  | CommitFailed
  | NotFound
  | Invalid string

record db =
  tables :: tables
  faults :: "bool list"

text \<open>The schema's defaults: \<^verbatim>\<open>Migrate\<close> on an empty file.\<close>

definition defaultSettings :: "instant \<Rightarrow> CacheSettings" where
  "defaultSettings now =
     \<lparr>cs_Enabled = True, cs_MaxSize = 10000, cs_DefaultTTL = 300, cs_MinTTL = 60, cs_MaxTTL = 86400,
      cs_NegativeTTL = 300, cs_PrefetchTrigger = 9 / 10, cs_UpdatedAt = now\<rparr>"

definition Migrate :: "instant \<Rightarrow> tables" where
  "Migrate now =
     \<lparr>t_seq = (\<lambda>_. 0), t_zones = [], t_records = [], t_upstreams = [], t_policies = [], t_pools = [],
      t_members = [], t_checks = [], t_sources = [], t_domains = [], t_adstats = [],
      t_cacheSettings = Some (defaultSettings now), last_sync_version = 0, data_checksum = None,
      last_sync_at = None\<rparr>"

subsection \<open>Calls that may fail\<close>

definition reader :: "(tables \<Rightarrow> 'a) \<Rightarrow> db \<Rightarrow> (db_error + 'a) \<times> db" where
  "reader query d =
     (case faults d of
        True # fs \<Rightarrow> (Inl QueryFailed, d\<lparr>faults := fs\<rparr>)
      | False # fs \<Rightarrow> (Inr (query (tables d)), d\<lparr>faults := fs\<rparr>)
      | [] \<Rightarrow> (Inr (query (tables d)), d))"

type_synonym 'a tx = "tables \<Rightarrow> bool list \<Rightarrow> (db_error + 'a \<times> tables) \<times> bool list"

definition tx_call :: "db_error \<Rightarrow> (tables \<Rightarrow> db_error + 'a \<times> tables) \<Rightarrow> 'a tx" where
  "tx_call e f t fs =
     (case fs of True # fs' \<Rightarrow> (Inl e, fs') | False # fs' \<Rightarrow> (f t, fs') | [] \<Rightarrow> (f t, []))"

definition tx_return :: "'a \<Rightarrow> 'a tx" where
  "tx_return a t fs = (Inr (a, t), fs)"

definition tx_bind :: "'a tx \<Rightarrow> ('a \<Rightarrow> 'b tx) \<Rightarrow> 'b tx" where
  "tx_bind m k t fs =
     (case m t fs of (Inl e, fs') \<Rightarrow> (Inl e, fs') | (Inr (a, t'), fs') \<Rightarrow> k a t' fs')"

text \<open>A call whose effect is only its possible error (\<^verbatim>\<open>Begin\<close>, \<^verbatim>\<open>LastInsertId\<close>, \<^verbatim>\<open>Commit\<close>).\<close>

definition tx_ok :: "db_error \<Rightarrow> unit tx" where
  "tx_ok e = tx_call e (\<lambda>t. Inr ((), t))"

text \<open>\<^verbatim>\<open>RowsAffected\<close>, then \<^verbatim>\<open>if rows == 0 { return not found }\<close>.\<close>

definition tx_affected :: "int \<Rightarrow> unit tx" where
  "tx_affected n = tx_call ResultFailed (\<lambda>t. if n = 0 then Inl NotFound else Inr ((), t))"

definition transaction :: "'a tx \<Rightarrow> db \<Rightarrow> (db_error + 'a) \<times> db" where
  "transaction body d =
     (case tx_bind (tx_ok BeginFailed)
             (\<lambda>_. tx_bind body (\<lambda>a. tx_bind (tx_ok CommitFailed) (\<lambda>_. tx_return a)))
             (tables d) (faults d) of
        (Inl e, fs) \<Rightarrow> (Inl e, d\<lparr>faults := fs\<rparr>)
      | (Inr (a, t), fs) \<Rightarrow> (Inr a, \<lparr>tables = t, faults = fs\<rparr>))"

text \<open>One statement outside a transaction (\<^verbatim>\<open>db.Writer.Exec\<close>) commits by itself.\<close>

definition autocommit :: "'a tx \<Rightarrow> db \<Rightarrow> (db_error + 'a) \<times> db" where
  "autocommit stmt d =
     (case stmt (tables d) (faults d) of
        (Inl e, fs) \<Rightarrow> (Inl e, d\<lparr>faults := fs\<rparr>)
      | (Inr (a, t), fs) \<Rightarrow> (Inr a, \<lparr>tables = t, faults = fs\<rparr>))"

text \<open>A storage write: the transaction, then, only after the commit, the cache invalidation.\<close>

definition store_write ::
  "'a tx \<Rightarrow> ('a \<Rightarrow> 'c \<Rightarrow> 'c) \<Rightarrow> db \<Rightarrow> 'c \<Rightarrow> (db_error + 'a) \<times> db \<times> 'c" where
  "store_write body invalidate d c =
     (case transaction body d of
        (Inl e, d') \<Rightarrow> (Inl e, d', c)
      | (Inr a, d') \<Rightarrow> (Inr a, d', invalidate a c))"

text \<open>A cached read: a hit is returned; otherwise the query runs and its result fills the cache.\<close>

definition read_through ::
  "'v option \<Rightarrow> (tables \<Rightarrow> 'v) \<Rightarrow> ('v \<Rightarrow> 'c \<Rightarrow> 'c) \<Rightarrow> db \<Rightarrow> 'c \<Rightarrow> (db_error + 'v) \<times> db \<times> 'c" where
  "read_through hit query fill d c =
     (case hit of
        Some v \<Rightarrow> (Inr v, d, c)
      | None \<Rightarrow>
          (case reader query d of
             (Inl e, d') \<Rightarrow> (Inl e, d', c)
           | (Inr v, d') \<Rightarrow> (Inr v, d', fill v c)))"

subsection \<open>The synchronisation version (storage/sync_version.go)\<close>

definition bump_version :: "tables \<Rightarrow> tables" where
  "bump_version t = t\<lparr>last_sync_version := last_sync_version t + 1\<rparr>"

definition IncrementVersion :: "unit tx" where
  "IncrementVersion = tx_call VersionFailed (\<lambda>t. Inr ((), bump_version t))"

definition GetVersion :: "db \<Rightarrow> (db_error + int) \<times> db" where
  "GetVersion = reader last_sync_version"

definition GetChecksum :: "db \<Rightarrow> (db_error + string) \<times> db" where
  "GetChecksum = reader (\<lambda>t. case data_checksum t of None \<Rightarrow> '''' | Some s \<Rightarrow> s)"

text \<open>The next value of an \<^verbatim>\<open>AUTOINCREMENT\<close> key, and the insertion of a row under it.\<close>

definition next_id :: "table \<Rightarrow> tables \<Rightarrow> rowid" where
  "next_id tb t = t_seq t tb + 1"

definition take_id :: "table \<Rightarrow> tables \<Rightarrow> tables" where
  "take_id tb t = t\<lparr>t_seq := (t_seq t)(tb := next_id tb t)\<rparr>"

text \<open>
  The two shapes of the transactions of the storage packages, between begin and commit: insert a
  row, read its id, raise the version; or change rows, refuse when none matched, raise the version.
\<close>

definition insert_tx :: "(tables \<Rightarrow> db_error + rowid \<times> tables) \<Rightarrow> rowid tx" where
  "insert_tx stmt =
     tx_bind (tx_call ExecFailed stmt) (\<lambda>i.
     tx_bind (tx_ok ResultFailed) (\<lambda>_.
     tx_bind IncrementVersion (\<lambda>_. tx_return i)))"

definition rows_tx :: "(tables \<Rightarrow> db_error + int \<times> tables) \<Rightarrow> unit tx" where
  "rows_tx stmt =
     tx_bind (tx_call ExecFailed stmt) (\<lambda>n.
     tx_bind (tx_affected n) (\<lambda>_. IncrementVersion))"

subsection \<open>Reads\<close>

lemma reader_cases:
  obtains (failed) fs where "reader q d = (Inl QueryFailed, d\<lparr>faults := fs\<rparr>)"
  | (answered) fs where "reader q d = (Inr (q (tables d)), d\<lparr>faults := fs\<rparr>)"
proof (cases "faults d")
  case Nil
  then have "reader q d = (Inr (q (tables d)), d\<lparr>faults := []\<rparr>)" by (simp add: reader_def)
  then show ?thesis by (rule answered)
next
  case (Cons b fs)
  then have "reader q d = (if b then Inl QueryFailed else Inr (q (tables d)), d\<lparr>faults := fs\<rparr>)"
    by (simp add: reader_def split: bool.splits)
  with that show ?thesis by (cases b) auto
qed

lemma reader_tables: "reader q d = (r, d') \<Longrightarrow> tables d' = tables d"
  by (rule reader_cases [of q d]) auto

lemma reader_result: "reader q d = (r, d') \<Longrightarrow> r = Inl QueryFailed \<or> r = Inr (q (tables d))"
  by (rule reader_cases [of q d]) auto

lemma reader_works [simp]: "faults d = [] \<Longrightarrow> reader q d = (Inr (q (tables d)), d)"
  by (simp add: reader_def)

lemma read_through_tables: "read_through h q f d c = (r, d', c') \<Longrightarrow> tables d' = tables d"
  by (rule reader_cases [of q d]) (auto simp: read_through_def split: option.splits)

text \<open>
  The contract of a read-through cache: \<open>hit\<close> is what the cache answers for a key, \<open>query\<close> what
  the database answers, \<open>fill\<close> what a miss stores. The law says that filling never makes up an
  answer: whatever the cache answers afterwards is the value just read, for the key it was read
  under, or was there before.
\<close>

locale read_cache =
  fixes hit :: "instant \<Rightarrow> 'k \<Rightarrow> 'c \<Rightarrow> 'v option"
    and query :: "'k \<Rightarrow> tables \<Rightarrow> 'v"
    and fill :: "instant \<Rightarrow> 'k \<Rightarrow> 'v \<Rightarrow> 'c \<Rightarrow> 'c"
  assumes fill_hit:
    "hit t k' (fill now k (query k tb) c) = Some w \<Longrightarrow>
       hit t k' c = Some w \<or> (k' = k \<and> w = query k tb)"
begin

definition coherent :: "tables \<Rightarrow> 'c \<Rightarrow> bool" where
  "coherent tb c \<longleftrightarrow> (\<forall>t k v. 0 < t \<longrightarrow> hit t k c = Some v \<longrightarrow> v = query k tb)"

lemma coherent_lookup:
  assumes "coherent (tables d) c" and "0 < now"
    and "read_through (hit now k c) (query k) (fill now k) d c = (r, d', c')"
  shows "r = Inl QueryFailed \<or> r = Inr (query k (tables d))"
  using assms
  by (auto simp: read_through_def coherent_def split: option.splits prod.splits sum.splits
      dest: reader_result)

lemma coherent_lookup_works:
  assumes "coherent (tables d) c" and "0 < now" and "faults d = []"
    and "read_through (hit now k c) (query k) (fill now k) d c = (r, d', c')"
  shows "r = Inr (query k (tables d))" and "d' = d"
  using assms by (auto simp: read_through_def coherent_def split: option.splits)

lemma coherent_keep:
  assumes "coherent (tables d) c"
    and "read_through (hit now k c) (query k) (fill now k) d c = (r, d', c')"
  shows "coherent (tables d') c'"
proof (cases "hit now k c")
  case (Some v)
  with assms show ?thesis by (simp add: read_through_def)
next
  case None
  show ?thesis
  proof (cases "fst (reader (query k) d)")
    case (Inl e)
    with None assms show ?thesis
      by (auto simp: read_through_def split: prod.splits dest: reader_tables)
  next
    case (Inr v)
    then have v: "v = query k (tables d)" using reader_result [of "query k" d] by (cases "reader (query k) d") auto
    with None Inr assms(2) have "c' = fill now k v c" "tables d' = tables d"
      by (auto simp: read_through_def split: prod.splits dest: reader_tables)
    with assms(1) v fill_hit [of _ _ now k "tables d" c] show ?thesis unfolding coherent_def by metis
  qed
qed

end

text \<open>A cache that can forget everything, and one that can forget one key, which is enough when
  a write only changes that key's answer.\<close>

locale flush_read_cache = read_cache hit query fill
  for hit :: "instant \<Rightarrow> 'k \<Rightarrow> 'c \<Rightarrow> 'v option" and query :: "'k \<Rightarrow> tables \<Rightarrow> 'v"
    and fill :: "instant \<Rightarrow> 'k \<Rightarrow> 'v \<Rightarrow> 'c \<Rightarrow> 'c" +
  fixes drop_all :: "'c \<Rightarrow> 'c"
  assumes drop_hit: "0 < t \<Longrightarrow> hit t k (drop_all c) = None"
begin

lemma coherent_drop: "coherent tb (drop_all c)"
  by (simp add: coherent_def drop_hit)

end

locale keyed_read_cache = read_cache hit query fill
  for hit :: "instant \<Rightarrow> 'k \<Rightarrow> 'c \<Rightarrow> 'v option" and query :: "'k \<Rightarrow> tables \<Rightarrow> 'v"
    and fill :: "instant \<Rightarrow> 'k \<Rightarrow> 'v \<Rightarrow> 'c \<Rightarrow> 'c" +
  fixes drop_key :: "'k \<Rightarrow> 'c \<Rightarrow> 'c"
  assumes drop_key_hit: "hit t k' (drop_key k c) = (if k' = k then None else hit t k' c)"
begin

lemma coherent_drop_key:
  assumes "coherent tb c" and "\<And>k'. k' \<noteq> k \<Longrightarrow> query k' tb' = query k' tb"
  shows "coherent tb' (drop_key k c)"
  using assms by (auto simp: coherent_def drop_key_hit split: if_splits)

end

subsection \<open>Writes\<close>

lemma store_write_cases:
  obtains (failed) e fs where "store_write body ival d c = (Inl e, d\<lparr>faults := fs\<rparr>, c)"
  | (committed) a t fs fs' fs'' where "body (tables d) fs = (Inr (a, t), fs')"
      "store_write body ival d c = (Inr a, \<lparr>tables = t, faults = fs''\<rparr>, ival a c)"
proof (cases "transaction body d")
  case (Pair r d')
  show ?thesis
  proof (cases r)
    case (Inl e)
    with Pair have "\<exists>fs. d' = d\<lparr>faults := fs\<rparr>"
      by (auto simp: transaction_def split: prod.splits sum.splits)
    with Pair Inl failed show ?thesis by (auto simp: store_write_def)
  next
    case (Inr a)
    obtain r0 fs where b: "tx_ok BeginFailed (tables d) (faults d) = (r0, fs)" by fastforce
    obtain r1 fs' where m: "body (tables d) fs = (r1, fs')" by fastforce
    from Pair Inr b m obtain t fs'' where "r1 = Inr (a, t)" "d' = \<lparr>tables = t, faults = fs''\<rparr>"
      by (auto simp: transaction_def tx_bind_def tx_ok_def tx_call_def tx_return_def
          split: prod.splits sum.splits list.splits bool.splits)
    with Pair Inr m committed show ?thesis by (auto simp: store_write_def)
  qed
qed

lemma transaction_cases:
  obtains (failed) e fs where "transaction body d = (Inl e, d\<lparr>faults := fs\<rparr>)"
  | (committed) a t fs fs' fs'' where "body (tables d) fs = (Inr (a, t), fs')"
      "transaction body d = (Inr a, \<lparr>tables = t, faults = fs''\<rparr>)"
proof (rule store_write_cases [of body "\<lambda>_ u. u" d "()"])
  fix e fs
  assume "store_write body (\<lambda>_ u. u) d () = (Inl e, d\<lparr>faults := fs\<rparr>, ())"
  then show ?thesis
    by (cases "transaction body d"; cases "fst (transaction body d)")
      (auto simp: store_write_def intro: failed)
next
  fix a t fs fs' fs''
  assume "body (tables d) fs = (Inr (a, t), fs')"
    and "store_write body (\<lambda>_ u. u) d () = (Inr a, \<lparr>tables = t, faults = fs''\<rparr>, ())"
  then show ?thesis
    by (cases "transaction body d"; cases "fst (transaction body d)")
      (auto simp: store_write_def intro: committed)
qed

text \<open>
  The contract of a versioned write: a body that commits has raised the synchronisation version
  by exactly one. It gives atomicity and version counting for the whole storage operation.
\<close>

locale versioned_write =
  fixes body :: "'a tx" and invalidate :: "'a \<Rightarrow> 'c \<Rightarrow> 'c"
  assumes body_version:
    "body t fs = (Inr (a, t'), fs') \<Longrightarrow> last_sync_version t' = last_sync_version t + 1"
begin

lemma write_atomic:
  assumes "store_write body invalidate d c = (Inl e, d', c')"
  shows "tables d' = tables d \<and> c' = c"
  by (rule store_write_cases [of body invalidate d c]) (use assms in auto)

lemma write_version:
  assumes "store_write body invalidate d c = (Inr a, d', c')"
  shows "last_sync_version (tables d') = last_sync_version (tables d) + 1"
  by (rule store_write_cases [of body invalidate d c]) (use assms body_version in auto)

lemma write_invalidates:
  assumes "store_write body invalidate d c = (Inr a, d', c')"
  shows "c' = invalidate a c"
  by (rule store_write_cases [of body invalidate d c]) (use assms in auto)

end

lemma tx_bind_Inr:
  "tx_bind m k t fs = (Inr (b, t''), fs'') \<longleftrightarrow>
     (\<exists>a t' fs'. m t fs = (Inr (a, t'), fs') \<and> k a t' fs' = (Inr (b, t''), fs''))"
  by (auto simp: tx_bind_def split: prod.splits sum.splits)

lemma tx_call_Inr: "tx_call e f t fs = (Inr (a, t'), fs') \<Longrightarrow> f t = Inr (a, t')"
  by (auto simp: tx_call_def split: list.splits bool.splits)

lemma tx_ok_Inr: "tx_ok e t fs = (Inr (a, t'), fs') \<Longrightarrow> t' = t"
  by (auto simp: tx_ok_def dest: tx_call_Inr)

lemma tx_affected_Inr: "tx_affected n t fs = (Inr (a, t'), fs') \<Longrightarrow> t' = t \<and> n \<noteq> 0"
  by (auto simp: tx_affected_def dest!: tx_call_Inr split: if_splits)

lemma IncrementVersion_Inr: "IncrementVersion t fs = (Inr (a, t'), fs') \<Longrightarrow> t' = bump_version t"
  by (auto simp: IncrementVersion_def dest: tx_call_Inr)

lemma tx_return_Inr: "tx_return b t fs = (Inr (a, t'), fs') \<longleftrightarrow> a = b \<and> t' = t \<and> fs' = fs"
  by (auto simp: tx_return_def)

lemma insert_tx_Inr:
  "insert_tx stmt t fs = (Inr (i, t'), fs') \<Longrightarrow> \<exists>t1. stmt t = Inr (i, t1) \<and> t' = bump_version t1"
  by (auto simp: insert_tx_def tx_bind_Inr tx_return_Inr
      dest!: tx_call_Inr tx_ok_Inr IncrementVersion_Inr)

lemma rows_tx_Inr:
  "rows_tx stmt t fs = (Inr (u, t'), fs') \<Longrightarrow>
     \<exists>n t1. stmt t = Inr (n, t1) \<and> n \<noteq> 0 \<and> t' = bump_version t1"
  by (auto simp: rows_tx_def tx_bind_Inr dest!: tx_call_Inr tx_affected_Inr IncrementVersion_Inr)

lemmas tx_dests = tx_call_Inr tx_ok_Inr tx_affected_Inr IncrementVersion_Inr


subsection \<open>The schema's constraints\<close>

text \<open>
  \<open>keyed\<close>: the keys of a table are distinct and not above its \<^verbatim>\<open>AUTOINCREMENT\<close> counter;
  \<open>refers\<close>: a foreign key column only holds keys of the table it references.
\<close>

definition keyed :: "rowid list \<Rightarrow> rowid \<Rightarrow> bool" where
  "keyed ks n \<longleftrightarrow> distinct ks \<and> (\<forall>k \<in> set ks. k \<le> n)"

definition refers :: "rowid list \<Rightarrow> rowid list \<Rightarrow> bool" where
  "refers fks ks \<longleftrightarrow> set fks \<subseteq> set ks"

definition zones_ok :: "tables \<Rightarrow> bool" where
  "zones_ok t \<longleftrightarrow> keyed (map z_ID (t_zones t)) (t_seq t TZones) \<and> distinct (map z_Name (t_zones t))"

definition records_ok :: "tables \<Rightarrow> bool" where
  "records_ok t \<longleftrightarrow> keyed (map r_ID (t_records t)) (t_seq t TRecords)
     \<and> refers (map r_ZoneID (t_records t)) (map z_ID (t_zones t))"

definition gslb_ok :: "tables \<Rightarrow> bool" where
  "gslb_ok t \<longleftrightarrow> keyed (map p_ID (t_policies t)) (t_seq t TPolicies)
     \<and> keyed (map pl_ID (t_pools t)) (t_seq t TPools)
     \<and> keyed (map mb_ID (t_members t)) (t_seq t TMembers)
     \<and> keyed (map hc_ID (t_checks t)) (t_seq t TChecks)
     \<and> refers (map pl_PolicyID (t_pools t)) (map p_ID (t_policies t))
     \<and> refers (map mb_PoolID (t_members t)) (map pl_ID (t_pools t))
     \<and> refers (map hc_PolicyID (t_checks t)) (map p_ID (t_policies t))"

lemma keyed_snoc [intro]: "keyed ks n \<Longrightarrow> keyed (ks @ [n + 1]) (n + 1)"
  by (auto simp: keyed_def)

lemma keyed_filter [intro]: "keyed (map f xs) n \<Longrightarrow> keyed (map f (filter P xs)) n"
  by (auto simp: keyed_def intro: distinct_map_filter)

lemma refers_filter [intro]: "refers (map f xs) ks \<Longrightarrow> refers (map f (filter P xs)) ks"
  by (auto simp: refers_def)

lemma refers_snoc [intro]: "refers fks ks \<Longrightarrow> refers fks (ks @ ls)"
  by (auto simp: refers_def)

lemma schema_Migrate: "zones_ok (Migrate now)" "records_ok (Migrate now)" "gslb_ok (Migrate now)"
  by (simp_all add: Migrate_def zones_ok_def records_ok_def gslb_ok_def keyed_def refers_def)

lemma schema_bump [simp]:
  "zones_ok (bump_version t) = zones_ok t" "records_ok (bump_version t) = records_ok t"
  "gslb_ok (bump_version t) = gslb_ok t"
  by (simp_all add: bump_version_def zones_ok_def records_ok_def gslb_ok_def)

text \<open>An update by key keeps the key column: what \<^verbatim>\<open>SET ... WHERE id = ?\<close> does to a table.\<close>

lemma map_update_key:
  assumes "\<And>y. key (upd y) = i"
  shows "map key (map (\<lambda>y. if key y = i then upd y else y) xs) = map key xs"
  using assms by (induction xs) auto


lemma distinct_update_key:
  assumes "distinct (map key xs)" and "distinct (map col xs)"
    and "\<And>y x. y \<in> set xs \<Longrightarrow> key y = i \<Longrightarrow> x \<in> set xs \<Longrightarrow> key x \<noteq> i \<Longrightarrow> col x \<noteq> col (upd y)"
  shows "distinct (map col (map (\<lambda>y. if key y = i then upd y else y) xs))"
proof -
  have "inj_on (\<lambda>y. col (if key y = i then upd y else y)) (set xs)"
  proof (rule inj_onI)
    fix x y
    assume "x \<in> set xs" "y \<in> set xs"
      and eq: "col (if key x = i then upd x else x) = col (if key y = i then upd y else y)"
    with assms(3) [of x y] assms(3) [of y x] assms(1,2) show "x = y"
      by (cases "key x = i"; cases "key y = i") (auto simp: distinct_map dest: inj_onD)
  qed
  then show ?thesis using assms(1) by (simp add: distinct_map comp_def)
qed

end
