(* ===== verification/ZoneStore.thy ===== *)
theory ZoneStore
  imports Database
begin

section \<open>Zones (storage/zone.go)\<close>

text \<open>
  The zone table behind its cache. \<^verbatim>\<open>ZoneCache\<close> keeps one map with one expiry for all names;
  \<^verbatim>\<open>Set\<close> replaces the whole map. Every operation takes the clock reading it sees.
\<close>

record ZoneCache =
  zc_zones :: "string \<rightharpoonup> Zone"
  zc_expiry :: instant
  zc_ttl :: int

definition NewZoneCache :: "int \<Rightarrow> ZoneCache" where
  "NewZoneCache ttl = \<lparr>zc_zones = Map.empty, zc_expiry = 0, zc_ttl = ttl\<rparr>"

definition zoneCacheGet :: "instant \<Rightarrow> string \<Rightarrow> ZoneCache \<Rightarrow> Zone option" where
  "zoneCacheGet now name c = (if now > zc_expiry c then None else zc_zones c name)"

definition zoneCacheSet :: "instant \<Rightarrow> Zone list \<Rightarrow> ZoneCache \<Rightarrow> ZoneCache" where
  "zoneCacheSet now zones c =
     c\<lparr>zc_zones := foldl (\<lambda>m z. m(z_Name z \<mapsto> z)) Map.empty zones, zc_expiry := now + zc_ttl c\<rparr>"

definition zoneCacheInvalidate :: "ZoneCache \<Rightarrow> ZoneCache" where
  "zoneCacheInvalidate c = c\<lparr>zc_zones := Map.empty, zc_expiry := 0\<rparr>"

definition NewZoneStorage :: ZoneCache where
  "NewZoneStorage = NewZoneCache (seconds 300)"

definition GetZone :: "rowid \<Rightarrow> db \<Rightarrow> (db_error + Zone option) \<times> db" where
  "GetZone i = reader (\<lambda>t. find (\<lambda>z. z_ID z = i) (t_zones t))"

definition zoneByName :: "string \<Rightarrow> tables \<Rightarrow> Zone option" where
  "zoneByName name t = find (\<lambda>z. z_Name z = name \<and> z_Enabled z) (t_zones t)"

definition fillZone :: "instant \<Rightarrow> Zone option \<Rightarrow> ZoneCache \<Rightarrow> ZoneCache" where
  "fillZone now v c = (case v of None \<Rightarrow> c | Some z \<Rightarrow> zoneCacheSet now [z] c)"

definition GetZoneByName ::
  "instant \<Rightarrow> string \<Rightarrow> db \<Rightarrow> ZoneCache \<Rightarrow> (db_error + Zone option) \<times> db \<times> ZoneCache" where
  "GetZoneByName now name d c =
     read_through (map_option Some (zoneCacheGet now name c)) (zoneByName name) (fillZone now) d c"

definition ListZones :: "instant \<Rightarrow> db \<Rightarrow> ZoneCache \<Rightarrow> (db_error + Zone list) \<times> db \<times> ZoneCache" where
  "ListZones now d c =
     (case reader (\<lambda>t. sort_key z_Name (t_zones t)) d of
        (Inl e, d') \<Rightarrow> (Inl e, d', c)
      | (Inr zones, d') \<Rightarrow> (Inr zones, d', zoneCacheSet now zones c))"

subsection \<open>Writes\<close>

definition zoneDefaults :: "Zone \<Rightarrow> Zone" where
  "zoneDefaults z = z
     \<lparr>z_SOASerial := (if z_SOASerial z = 0 then 1 else z_SOASerial z),
      z_SOARefresh := (if z_SOARefresh z = 0 then 3600 else z_SOARefresh z),
      z_SOARetry := (if z_SOARetry z = 0 then 900 else z_SOARetry z),
      z_SOAExpire := (if z_SOAExpire z = 0 then 86400 else z_SOAExpire z),
      z_SOAMinimum := (if z_SOAMinimum z = 0 then 300 else z_SOAMinimum z)\<rparr>"

definition insertZone :: "instant \<Rightarrow> Zone \<Rightarrow> tables \<Rightarrow> db_error + rowid \<times> tables" where
  "insertZone now z t =
     (if \<exists>y \<in> set (t_zones t). z_Name y = z_Name z then Inl ConstraintFailed
      else let i = next_id TZones t;
               row = z\<lparr>z_ID := i, z_CreatedAt := now, z_UpdatedAt := now\<rparr>
           in Inr (i, (take_id TZones t)\<lparr>t_zones := t_zones t @ [row]\<rparr>))"

definition createZoneTx :: "instant \<Rightarrow> Zone \<Rightarrow> rowid tx" where
  "createZoneTx now z =
     insert_tx (insertZone now (zoneDefaults z))"

definition CreateZone ::
  "instant \<Rightarrow> Zone \<Rightarrow> db \<Rightarrow> ZoneCache \<Rightarrow> (db_error + rowid) \<times> db \<times> ZoneCache" where
  "CreateZone now z = store_write (createZoneTx now z) (\<lambda>_. zoneCacheInvalidate)"

definition updateZoneRow :: "instant \<Rightarrow> Zone \<Rightarrow> tables \<Rightarrow> db_error + int \<times> tables" where
  "updateZoneRow now z t =
     (if (\<exists>y \<in> set (t_zones t). z_ID y = z_ID z)
         \<and> (\<exists>y \<in> set (t_zones t). z_ID y \<noteq> z_ID z \<and> z_Name y = z_Name z)
      then Inl ConstraintFailed
      else Inr (int (length (filter (\<lambda>y. z_ID y = z_ID z) (t_zones t))),
        t\<lparr>t_zones := map (\<lambda>y. if z_ID y = z_ID z
                             then z\<lparr>z_CreatedAt := z_CreatedAt y, z_UpdatedAt := now\<rparr> else y)
                       (t_zones t)\<rparr>))"

definition updateZoneTx :: "instant \<Rightarrow> Zone \<Rightarrow> unit tx" where
  "updateZoneTx now z =
     rows_tx (updateZoneRow now z)"

definition UpdateZone ::
  "instant \<Rightarrow> Zone \<Rightarrow> db \<Rightarrow> ZoneCache \<Rightarrow> (db_error + unit) \<times> db \<times> ZoneCache" where
  "UpdateZone now z = store_write (updateZoneTx now z) (\<lambda>_. zoneCacheInvalidate)"

text \<open>\<^verbatim>\<open>DELETE FROM zones\<close> cascades to the records of the zone.\<close>

definition deleteZoneRow :: "rowid \<Rightarrow> tables \<Rightarrow> db_error + int \<times> tables" where
  "deleteZoneRow i t =
     Inr (int (length (filter (\<lambda>y. z_ID y = i) (t_zones t))),
          t\<lparr>t_zones := filter (\<lambda>y. z_ID y \<noteq> i) (t_zones t),
            t_records := (if \<exists>y \<in> set (t_zones t). z_ID y = i
                          then filter (\<lambda>r. r_ZoneID r \<noteq> i) (t_records t) else t_records t)\<rparr>)"

definition deleteZoneTx :: "rowid \<Rightarrow> unit tx" where
  "deleteZoneTx i =
     rows_tx (deleteZoneRow i)"

definition DeleteZone :: "rowid \<Rightarrow> db \<Rightarrow> ZoneCache \<Rightarrow> (db_error + unit) \<times> db \<times> ZoneCache" where
  "DeleteZone i = store_write (deleteZoneTx i) (\<lambda>_. zoneCacheInvalidate)"

subsection \<open>The cache in front of the table\<close>

lemma zoneCacheGet_set_one:
  "zoneCacheGet t name (zoneCacheSet now [z] c) = Some y \<Longrightarrow> name = z_Name z \<and> y = z"
  by (auto simp: zoneCacheGet_def zoneCacheSet_def split: if_splits)

lemma zoneByName_name: "zoneByName name t = Some z \<Longrightarrow> z_Name z = name \<and> z_Enabled z \<and> z \<in> set (t_zones t)"
  by (auto simp: zoneByName_def find_Some_iff)

lemma zoneCacheGet_invalidate [simp]: "zoneCacheGet t name (zoneCacheInvalidate c) = None"
  by (simp add: zoneCacheGet_def zoneCacheInvalidate_def)


interpretation zone_cache: flush_read_cache
  "\<lambda>now name c. map_option Some (zoneCacheGet now name c)" zoneByName
  "\<lambda>now name. fillZone now" zoneCacheInvalidate
proof unfold_locales
  fix t k' now k tb c w
  assume h: "map_option Some (zoneCacheGet t k' (fillZone now (zoneByName k tb) c)) = Some w"
  show "map_option Some (zoneCacheGet t k' c) = Some w \<or> (k' = k \<and> w = zoneByName k tb)"
  proof (cases "zoneByName k tb")
    case None
    with h show ?thesis by (simp add: fillZone_def)
  next
    case (Some z)
    with h obtain y where "zoneCacheGet t k' (zoneCacheSet now [z] c) = Some y" "w = Some y"
      by (auto simp: fillZone_def)
    with zoneCacheGet_set_one zoneByName_name [OF Some] Some show ?thesis by fastforce
  qed
qed simp

subsection \<open>Writes count versions and keep the schema\<close>

lemma createZoneTx_Inr:
  "createZoneTx now z t fs = (Inr (i, t'), fs') \<Longrightarrow>
     \<exists>t1. insertZone now (zoneDefaults z) t = Inr (i, t1) \<and> t' = bump_version t1"
  by (auto simp: createZoneTx_def dest: insert_tx_Inr)

lemma updateZoneTx_Inr:
  "updateZoneTx now z t fs = (Inr (u, t'), fs') \<Longrightarrow>
     \<exists>n t1. updateZoneRow now z t = Inr (n, t1) \<and> n \<noteq> 0 \<and> t' = bump_version t1"
  by (auto simp: updateZoneTx_def dest: rows_tx_Inr)

lemma deleteZoneTx_Inr:
  "deleteZoneTx i t fs = (Inr (u, t'), fs') \<Longrightarrow>
     \<exists>n t1. deleteZoneRow i t = Inr (n, t1) \<and> n \<noteq> 0 \<and> t' = bump_version t1"
  by (auto simp: deleteZoneTx_def dest: rows_tx_Inr)

lemma zone_rows_version:
  "insertZone now z t = Inr (i, t') \<Longrightarrow> last_sync_version t' = last_sync_version t"
  "updateZoneRow now z t = Inr (n, t') \<Longrightarrow> last_sync_version t' = last_sync_version t"
  "deleteZoneRow j t = Inr (n, t') \<Longrightarrow> last_sync_version t' = last_sync_version t"
  by (auto simp: insertZone_def updateZoneRow_def deleteZoneRow_def take_id_def Let_def split: if_splits)

interpretation create_zone: versioned_write "createZoneTx now z" "\<lambda>_. zoneCacheInvalidate" for now z
  by unfold_locales (auto dest!: createZoneTx_Inr zone_rows_version simp: bump_version_def)

interpretation update_zone: versioned_write "updateZoneTx now z" "\<lambda>_. zoneCacheInvalidate" for now z
  by unfold_locales (auto dest!: updateZoneTx_Inr zone_rows_version simp: bump_version_def)

interpretation delete_zone: versioned_write "deleteZoneTx i" "\<lambda>_. zoneCacheInvalidate" for i
  by unfold_locales (auto dest!: deleteZoneTx_Inr zone_rows_version simp: bump_version_def)

lemma insertZone_ok:
  assumes "insertZone now z t = Inr (i, t')" and "zones_ok t" and "records_ok t"
  shows "zones_ok t'" and "records_ok t'"
proof -
  from assms(1) have t': "map z_ID (t_zones t') = map z_ID (t_zones t) @ [t_seq t TZones + 1]"
    "map z_Name (t_zones t') = map z_Name (t_zones t) @ [z_Name z]"
    "t_seq t' = (t_seq t)(TZones := t_seq t TZones + 1)" "t_records t' = t_records t"
    and "z_Name z \<notin> set (map z_Name (t_zones t))"
    by (auto simp: insertZone_def Let_def take_id_def next_id_def split: if_splits)
  with assms(2,3) show "zones_ok t'" "records_ok t'"
    unfolding zones_ok_def records_ok_def by auto
qed

lemma updateZoneRow_ok:
  assumes u: "updateZoneRow now z t = Inr (n, t')" and ok: "zones_ok t" "records_ok t"
  shows "zones_ok t'" and "records_ok t'"
proof -
  let ?upd = "\<lambda>y. if z_ID y = z_ID z then z\<lparr>z_CreatedAt := z_CreatedAt y, z_UpdatedAt := now\<rparr> else y"
  have t': "t' = t\<lparr>t_zones := map ?upd (t_zones t)\<rparr>"
    and only: "(\<exists>y\<in>set (t_zones t). z_ID y = z_ID z) \<Longrightarrow>
                 \<forall>y\<in>set (t_zones t). z_ID y \<noteq> z_ID z \<longrightarrow> z_Name y \<noteq> z_Name z"
    using u by (auto simp: updateZoneRow_def split: if_splits)
  have ids: "map z_ID (map ?upd (t_zones t)) = map z_ID (t_zones t)"
    by (rule map_update_key) simp
  have "distinct (map z_Name (map ?upd (t_zones t)))"
    using ok(1) only by (intro distinct_update_key) (auto simp: zones_ok_def keyed_def)
  with ok ids show "zones_ok t'" "records_ok t'"
    by (simp_all add: t' zones_ok_def records_ok_def del: map_map list.map_comp)
qed

lemma deleteZoneRow_ok:
  assumes "deleteZoneRow i t = Inr (n, t')" and "zones_ok t" and "records_ok t"
  shows "zones_ok t'" and "records_ok t'"
proof -
  from assms(1) have t': "t_zones t' = filter (\<lambda>y. z_ID y \<noteq> i) (t_zones t)" "t_seq t' = t_seq t"
    "t_records t' = (if \<exists>y \<in> set (t_zones t). z_ID y = i
                     then filter (\<lambda>r. r_ZoneID r \<noteq> i) (t_records t) else t_records t)"
    by (auto simp: deleteZoneRow_def)
  from assms(2) show "zones_ok t'"
    by (auto simp: zones_ok_def t' intro: distinct_map_filter)
  from assms(3) show "records_ok t'"
    by (auto simp: records_ok_def t' refers_def)
qed

lemmas zone_rows_ok = insertZone_ok updateZoneRow_ok deleteZoneRow_ok

end
