(* ===== verification/RecordStore.thy ===== *)
theory RecordStore
  imports ZoneStore
begin

section \<open>Records and wildcards (storage/record.go)\<close>

text \<open>
  The record table behind a cache with one entry per zone, and the wildcard rules. Rows that
  the \<^verbatim>\<open>ORDER BY\<close> of a query leaves tied come in rowid order.
\<close>

record RecordCache =
  rc_cache :: "rowid \<rightharpoonup> Record list"
  rc_expiry :: "rowid \<rightharpoonup> instant"
  rc_ttl :: int

definition NewRecordCache :: "int \<Rightarrow> RecordCache" where
  "NewRecordCache ttl = \<lparr>rc_cache = Map.empty, rc_expiry = Map.empty, rc_ttl = ttl\<rparr>"

definition recordCacheGet :: "instant \<Rightarrow> rowid \<Rightarrow> RecordCache \<Rightarrow> Record list option" where
  "recordCacheGet now zid c =
     (case rc_expiry c zid of
        None \<Rightarrow> None
      | Some expiry \<Rightarrow> if now > expiry then None else rc_cache c zid)"

definition recordCacheSet :: "instant \<Rightarrow> rowid \<Rightarrow> Record list \<Rightarrow> RecordCache \<Rightarrow> RecordCache" where
  "recordCacheSet now zid records c =
     c\<lparr>rc_cache := (rc_cache c)(zid \<mapsto> records), rc_expiry := (rc_expiry c)(zid \<mapsto> now + rc_ttl c)\<rparr>"

definition recordCacheInvalidate :: "rowid \<Rightarrow> RecordCache \<Rightarrow> RecordCache" where
  "recordCacheInvalidate zid c =
     c\<lparr>rc_cache := (rc_cache c)(zid := None), rc_expiry := (rc_expiry c)(zid := None)\<rparr>"

definition InvalidateAll :: "RecordCache \<Rightarrow> RecordCache" where
  "InvalidateAll c = c\<lparr>rc_cache := Map.empty, rc_expiry := Map.empty\<rparr>"

definition NewRecordStorage :: RecordCache where
  "NewRecordStorage = NewRecordCache (seconds 60)"

subsection \<open>Wildcards\<close>

definition isValidWildcardMatch :: "string \<Rightarrow> string \<Rightarrow> bool" where
  "isValidWildcardMatch wildcardPattern queryName =
     (let suffix = TrimPrefix wildcardPattern ''*.''
      in if \<not> HasSuffix queryName suffix then False
         else let prefix = TrimSuffix (TrimSuffix queryName suffix) ''.''
              in if prefix = [] then False else CHR ''.'' \<notin> set prefix)"

definition wildcardPatternAt :: "string list \<Rightarrow> nat \<Rightarrow> string" where
  "wildcardPatternAt labels i = Join ''.'' (''*'' # drop i labels) @ ''.''"

definition wildcardMatches :: "Record list \<Rightarrow> string \<Rightarrow> string \<Rightarrow> string \<Rightarrow> Record list" where
  "wildcardMatches allRecords wildcardPattern queryName recordType =
     map (\<lambda>r. r\<lparr>r_Name := queryName\<rparr>)
       (filter (\<lambda>r. r_Name r = wildcardPattern \<and> r_Type r = recordType \<and> r_Enabled r
                   \<and> isValidWildcardMatch wildcardPattern queryName) allRecords)"

fun wildcardLoop :: "Record list \<Rightarrow> string \<Rightarrow> string \<Rightarrow> string list \<Rightarrow> nat list \<Rightarrow> Record list" where
  "wildcardLoop allRecords queryName recordType labels [] = []"
| "wildcardLoop allRecords queryName recordType labels (i # is) =
     (let matches = wildcardMatches allRecords (wildcardPatternAt labels i) queryName recordType
      in if matches \<noteq> [] then matches
         else wildcardLoop allRecords queryName recordType labels is)"

definition findWildcardRecords :: "Record list \<Rightarrow> string \<Rightarrow> string \<Rightarrow> Record list" where
  "findWildcardRecords allRecords queryName recordType =
     (if queryName = [] \<or> queryName = ''.'' then []
      else let labels = Split CHR ''.'' (TrimSuffix queryName ''.'')
           in wildcardLoop allRecords queryName recordType labels [1..<length labels])"

definition hasWildcardMatch :: "string \<Rightarrow> string \<Rightarrow> bool" where
  "hasWildcardMatch recordName queryName =
     (if \<not> HasPrefix recordName ''*.'' then False
      else let suffix = TrimPrefix recordName ''*.''
           in if \<not> HasSuffix queryName suffix then False
              else let prefix = TrimSuffix (TrimSuffix queryName suffix) ''.''
                   in if prefix = [] then False else CHR ''.'' \<notin> set prefix)"

definition wildcardQueryCandidates :: "string \<Rightarrow> string list" where
  "wildcardQueryCandidates queryName =
     (if queryName = [] \<or> queryName = ''.'' then []
      else let labels = Split CHR ''.'' (TrimSuffix queryName ''.'')
           in if length labels < 2 then []
              else map (wildcardPatternAt labels) [1..<length labels])"

subsection \<open>Reads\<close>

definition GetRecord :: "rowid \<Rightarrow> db \<Rightarrow> (db_error + Record option) \<times> db" where
  "GetRecord i = reader (\<lambda>t. find (\<lambda>r. r_ID r = i) (t_records t))"

definition recordsByZone :: "rowid \<Rightarrow> tables \<Rightarrow> Record list" where
  "recordsByZone zid t =
     sort_key (\<lambda>r. (r_Name r, r_Type r)) (filter (\<lambda>r. r_ZoneID r = zid) (t_records t))"

definition GetRecordsByZone ::
  "instant \<Rightarrow> rowid \<Rightarrow> db \<Rightarrow> RecordCache \<Rightarrow> (db_error + Record list) \<times> db \<times> RecordCache" where
  "GetRecordsByZone now zid d c =
     read_through (recordCacheGet now zid c) (recordsByZone zid) (recordCacheSet now zid) d c"

definition ListAllRecords :: "db \<Rightarrow> (db_error + Record list) \<times> db" where
  "ListAllRecords = reader (\<lambda>t. sort_key (\<lambda>r. (r_ZoneID r, r_Name r, r_Type r)) (t_records t))"

definition exactRecords :: "Record list \<Rightarrow> string \<Rightarrow> string \<Rightarrow> Record list" where
  "exactRecords allRecords name recordType =
     filter (\<lambda>r. r_Name r = name \<and> r_Type r = recordType \<and> r_Enabled r) allRecords"

definition recordsByNameIn :: "Record list \<Rightarrow> string \<Rightarrow> string \<Rightarrow> Record list" where
  "recordsByNameIn allRecords name recordType =
     (let result = exactRecords allRecords name recordType
      in if result \<noteq> [] then result else findWildcardRecords allRecords name recordType)"

definition GetRecordsByNameAndZone ::
  "instant \<Rightarrow> rowid \<Rightarrow> string \<Rightarrow> string \<Rightarrow> db \<Rightarrow> RecordCache
     \<Rightarrow> (db_error + Record list) \<times> db \<times> RecordCache" where
  "GetRecordsByNameAndZone now zid name recordType d c =
     (case GetRecordsByZone now zid d c of
        (Inl e, s) \<Rightarrow> (Inl e, s)
      | (Inr allRecords, s) \<Rightarrow> (Inr (recordsByNameIn allRecords name recordType), s))"

definition domainExistsIn :: "Record list \<Rightarrow> string \<Rightarrow> bool" where
  "domainExistsIn allRecords name \<longleftrightarrow>
     list_ex (\<lambda>r. r_Name r = name \<and> r_Enabled r) allRecords
     \<or> list_ex (\<lambda>r. r_Enabled r \<and> hasWildcardMatch (r_Name r) name) allRecords"

definition DomainExistsInZone ::
  "instant \<Rightarrow> rowid \<Rightarrow> string \<Rightarrow> db \<Rightarrow> RecordCache \<Rightarrow> (db_error + bool) \<times> db \<times> RecordCache" where
  "DomainExistsInZone now zid name d c =
     (case GetRecordsByZone now zid d c of
        (Inl e, s) \<Rightarrow> (Inl e, s)
      | (Inr allRecords, s) \<Rightarrow> (Inr (domainExistsIn allRecords name), s))"

definition GetRecordsByName :: "string \<Rightarrow> string \<Rightarrow> db \<Rightarrow> (db_error + Record list) \<times> db" where
  "GetRecordsByName name recordType =
     reader (\<lambda>t. sort_key (\<lambda>r. (r_Priority r, r_ID r)) (exactRecords (t_records t) name recordType))"

subsection \<open>Writes\<close>

text \<open>
  \<^verbatim>\<open>UPDATE records SET last_query_at = ? WHERE name = ?\<close>, with \<^verbatim>\<open>AND enabled = 1\<close> for the
  wildcard statement, and the number of rows it changed.
\<close>

definition touchRows :: "bool \<Rightarrow> instant \<Rightarrow> string \<Rightarrow> tables \<Rightarrow> db_error + int \<times> tables" where
  "touchRows enabledOnly queriedAt name t =
     (let hit = (\<lambda>r. r_Name r = name \<and> (enabledOnly \<longrightarrow> r_Enabled r))
      in Inr (int (length (filter hit (t_records t))),
           t\<lparr>t_records := map (\<lambda>r. if hit r then r\<lparr>r_LastQueryAt := Some queriedAt\<rparr> else r) (t_records t)\<rparr>))"

fun touchCandidates :: "instant \<Rightarrow> string list \<Rightarrow> unit tx" where
  "touchCandidates queriedAt [] = tx_return ()"
| "touchCandidates queriedAt (candidate # rest) =
     tx_bind (tx_call ExecFailed (touchRows True queriedAt candidate)) (\<lambda>n.
     tx_bind (tx_ok ResultFailed) (\<lambda>_.
       if n > 0 then tx_return () else touchCandidates queriedAt rest))"

fun batchUpdateLoop :: "(string \<times> instant) list \<Rightarrow> unit tx" where
  "batchUpdateLoop [] = tx_return ()"
| "batchUpdateLoop ((domain, queriedAt) # rest) =
     (if domain = [] then batchUpdateLoop rest
      else tx_bind (tx_call ExecFailed (touchRows False queriedAt domain)) (\<lambda>n.
           tx_bind (tx_ok ResultFailed) (\<lambda>_.
             if n > 0 then batchUpdateLoop rest
             else tx_bind (touchCandidates queriedAt (wildcardQueryCandidates domain))
                    (\<lambda>_. batchUpdateLoop rest))))"

text \<open>The argument is a Go map, here its entries in the order \<^verbatim>\<open>range\<close> visits them.\<close>

definition BatchUpdateLastQueryAt :: "(string \<times> instant) list \<Rightarrow> db \<Rightarrow> (db_error + unit) \<times> db" where
  "BatchUpdateLastQueryAt lastQueries d =
     (if lastQueries = [] then (Inr (), d)
      else transaction
        (tx_bind (tx_ok ExecFailed) (\<lambda>_. tx_bind (tx_ok ExecFailed) (\<lambda>_. batchUpdateLoop lastQueries))) d)"

definition recordDefaults :: "Record \<Rightarrow> Record" where
  "recordDefaults r = r\<lparr>r_TTL := (if r_TTL r = 0 then 300 else r_TTL r)\<rparr>"

definition zoneRowExists :: "rowid \<Rightarrow> tables \<Rightarrow> bool" where
  "zoneRowExists i t \<longleftrightarrow> list_ex (\<lambda>z. z_ID z = i) (t_zones t)"

definition insertRecord :: "instant \<Rightarrow> Record \<Rightarrow> tables \<Rightarrow> db_error + rowid \<times> tables" where
  "insertRecord now r t =
     (if \<not> zoneRowExists (r_ZoneID r) t then Inl ConstraintFailed
      else let i = next_id TRecords t;
               row = r\<lparr>r_ID := i, r_LastQueryAt := None, r_CreatedAt := now, r_UpdatedAt := now\<rparr>
           in Inr (i, (take_id TRecords t)\<lparr>t_records := t_records t @ [row]\<rparr>))"

definition createRecordTx :: "instant \<Rightarrow> Record \<Rightarrow> rowid tx" where
  "createRecordTx now r =
     insert_tx (insertRecord now (recordDefaults r))"

definition CreateRecord ::
  "instant \<Rightarrow> Record \<Rightarrow> db \<Rightarrow> RecordCache \<Rightarrow> (db_error + rowid) \<times> db \<times> RecordCache" where
  "CreateRecord now r = store_write (createRecordTx now r) (\<lambda>_. recordCacheInvalidate (r_ZoneID r))"

definition updateRecordRow :: "instant \<Rightarrow> Record \<Rightarrow> tables \<Rightarrow> db_error + int \<times> tables" where
  "updateRecordRow now r t =
     (if list_ex (\<lambda>y. r_ID y = r_ID r) (t_records t) \<and> \<not> zoneRowExists (r_ZoneID r) t
      then Inl ConstraintFailed
      else Inr (int (length (filter (\<lambda>y. r_ID y = r_ID r) (t_records t))),
        t\<lparr>t_records := map (\<lambda>y. if r_ID y = r_ID r
              then r\<lparr>r_LastQueryAt := r_LastQueryAt y, r_CreatedAt := r_CreatedAt y, r_UpdatedAt := now\<rparr>
              else y) (t_records t)\<rparr>))"

definition updateRecordTx :: "instant \<Rightarrow> Record \<Rightarrow> unit tx" where
  "updateRecordTx now r =
     rows_tx (updateRecordRow now r)"

definition UpdateRecord ::
  "instant \<Rightarrow> Record \<Rightarrow> db \<Rightarrow> RecordCache \<Rightarrow> (db_error + unit) \<times> db \<times> RecordCache" where
  "UpdateRecord now r = store_write (updateRecordTx now r) (\<lambda>_. recordCacheInvalidate (r_ZoneID r))"

definition deleteRecordRow :: "rowid \<Rightarrow> tables \<Rightarrow> db_error + int \<times> tables" where
  "deleteRecordRow i t =
     Inr (int (length (filter (\<lambda>y. r_ID y = i) (t_records t))),
          t\<lparr>t_records := filter (\<lambda>y. r_ID y \<noteq> i) (t_records t)\<rparr>)"

definition deleteRecordTx :: "rowid \<Rightarrow> unit tx" where
  "deleteRecordTx i =
     rows_tx (deleteRecordRow i)"

definition DeleteRecord :: "rowid \<Rightarrow> db \<Rightarrow> RecordCache \<Rightarrow> (db_error + unit) \<times> db \<times> RecordCache" where
  "DeleteRecord i d c =
     (case GetRecord i d of
        (Inl e, d') \<Rightarrow> (Inl e, d', c)
      | (Inr None, d') \<Rightarrow> (Inl NotFound, d', c)
      | (Inr (Some r), d') \<Rightarrow>
          store_write (deleteRecordTx i) (\<lambda>_. recordCacheInvalidate (r_ZoneID r)) d' c)"


subsection \<open>Single-level wildcards\<close>

lemma Join_take_drop:
  "0 < i \<Longrightarrow> i < length ws \<Longrightarrow> Join sep ws = Join sep (take i ws) @ sep @ Join sep (drop i ws)"
proof (induction ws arbitrary: i)
  case (Cons w ws)
  show ?case
  proof (cases "i = 1")
    case True
    with Cons.prems show ?thesis by (simp add: Join_Cons)
  next
    case False
    with Cons.prems have i: "0 < i - 1" "i - 1 < length ws" by auto
    then have "ws \<noteq> []" "take (i - 1) ws \<noteq> []" by auto
    with Cons.IH [OF i] Cons.prems show ?thesis
      by (cases i) (simp_all add: Join_Cons)
  qed
qed simp

lemma Join_has_dot: "2 \<le> length ws \<Longrightarrow> c \<in> set (Join [c] ws)"
  by (cases ws; cases "tl ws") auto

lemma wildcardPatternAt_eq:
  "i < length labels \<Longrightarrow> wildcardPatternAt labels i = ''*.'' @ Join ''.'' (drop i labels) @ ''.''"
  by (simp add: wildcardPatternAt_def Join_Cons)

text \<open>
  Split a name at its first \<open>i\<close> labels: the pattern of index \<open>i\<close> matches when those labels are
  one non-empty label.
\<close>

lemma isValidWildcardMatch_split:
  "isValidWildcardMatch (''*.'' @ rest) (p @ ''.'' @ rest) \<longleftrightarrow> p \<noteq> [] \<and> CHR ''.'' \<notin> set p"
proof -
  have "TrimSuffix (p @ ''.'' @ rest) rest = p @ ''.''" "HasSuffix (p @ ''.'' @ rest) rest"
    using TrimSuffix_append [of "p @ ''.''" rest] HasSuffix_append [of "p @ ''.''" rest] by simp_all
  moreover have "TrimPrefix (''*.'' @ rest) ''*.'' = rest" by (rule TrimPrefix_append)
  ultimately show ?thesis using TrimSuffix_append [of p "''.''"]
    by (simp add: isValidWildcardMatch_def Let_def)
qed

lemma isValidWildcardMatch_at:
  assumes "0 < i" and "i < length labels" and "q = Join ''.'' labels @ ''.''"
  shows "isValidWildcardMatch (wildcardPatternAt labels i) q \<longleftrightarrow>
           Join ''.'' (take i labels) \<noteq> [] \<and> CHR ''.'' \<notin> set (Join ''.'' (take i labels))"
proof -
  have "q = Join ''.'' (take i labels) @ ''.'' @ (Join ''.'' (drop i labels) @ ''.'')"
    using assms Join_take_drop [of i labels "''.''"] by simp
  then show ?thesis
    using isValidWildcardMatch_split [of "Join ''.'' (drop i labels) @ ''.''" "Join ''.'' (take i labels)"]
      wildcardPatternAt_eq [OF assms(2)] by simp
qed

lemma wildcardMatches_invalid:
  "\<not> isValidWildcardMatch pat q \<Longrightarrow> wildcardMatches recs pat q ty = []"
  by (simp add: wildcardMatches_def)

lemma wildcardLoop_none:
  assumes "\<And>i. i \<in> set is \<Longrightarrow> \<not> isValidWildcardMatch (wildcardPatternAt labels i) q"
  shows "wildcardLoop recs q ty labels is = []"
  using assms by (induction "is") (simp_all add: wildcardMatches_invalid)

lemma wildcardLoop_first:
  "wildcardLoop recs q ty labels is = [] \<Longrightarrow>
     wildcardLoop recs q ty labels (i # is) = wildcardMatches recs (wildcardPatternAt labels i) q ty"
  by (simp add: Let_def)

lemma findWildcardRecords_eq:
  assumes "label \<noteq> []" and "CHR ''.'' \<notin> set label"
  shows "findWildcardRecords recs (label @ ''.'' @ parent @ ''.'') ty =
           map (\<lambda>r. r\<lparr>r_Name := label @ ''.'' @ parent @ ''.''\<rparr>)
             (filter (\<lambda>r. r_Name r = ''*.'' @ parent @ ''.'' \<and> r_Type r = ty \<and> r_Enabled r) recs)"
    (is "findWildcardRecords recs ?q ty = ?spec")
proof -
  let ?labels = "label # Split CHR ''.'' parent"
  have trim: "TrimSuffix ?q ''.'' = label @ CHR ''.'' # parent"
    using TrimSuffix_append [of "label @ ''.'' @ parent" "''.''"] by simp
  have labels: "Split CHR ''.'' (TrimSuffix ?q ''.'') = ?labels"
    using Split_append [OF assms(2)] by (simp only: trim)
  have q: "?q = Join ''.'' ?labels @ ''.''" by (simp add: Join_Cons)
  have len: "1 < length ?labels" by simp
  have one: "isValidWildcardMatch (wildcardPatternAt ?labels 1) ?q"
    using isValidWildcardMatch_at [OF _ len q] assms by simp
  have more: "\<not> isValidWildcardMatch (wildcardPatternAt ?labels i) ?q" if "i \<in> set [2..<length ?labels]" for i
    using isValidWildcardMatch_at [of i ?labels, OF _ _ q] that
      Join_has_dot [of "take i ?labels" "CHR ''.''"] by auto
  have pat: "wildcardPatternAt ?labels 1 = ''*.'' @ parent @ ''.''"
    using wildcardPatternAt_eq [OF len] by simp
  have upt: "[1..<length ?labels] = 1 # [2..<length ?labels]" by (simp add: upt_conv_Cons numeral_2_eq_2 del: upt_Suc)
  have "wildcardLoop recs ?q ty ?labels [1..<length ?labels] = wildcardMatches recs (''*.'' @ parent @ ''.'') ?q ty"
    using wildcardLoop_none [OF more] by (simp only: upt wildcardLoop_first pat)
  also have "\<dots> = ?spec" using one [unfolded pat] by (simp add: wildcardMatches_def)
  finally have "wildcardLoop recs ?q ty ?labels [1..<length ?labels] = ?spec" .
  moreover have "?q \<noteq> []" "?q \<noteq> ''.''" using assms(1) by auto
  ultimately show ?thesis unfolding findWildcardRecords_def using labels by (simp add: Let_def)
qed

text \<open>Whatever the name, a wildcard answer comes from a record that \<^const>\<open>hasWildcardMatch\<close> accepts.\<close>

lemma hasWildcardMatch_valid:
  "HasPrefix pat ''*.'' \<Longrightarrow> isValidWildcardMatch pat q = hasWildcardMatch pat q"
  by (simp add: isValidWildcardMatch_def hasWildcardMatch_def)

lemma wildcardPatternAt_prefix: "i < length labels \<Longrightarrow> HasPrefix (wildcardPatternAt labels i) ''*.''"
  by (simp only: wildcardPatternAt_eq HasPrefix_append)

lemma wildcardLoop_sound:
  assumes "r \<in> set (wildcardLoop recs q ty labels is)" and "\<forall>i \<in> set is. i < length labels"
  shows "\<exists>r0 \<in> set recs. r = r0\<lparr>r_Name := q\<rparr> \<and> r_Type r0 = ty \<and> r_Enabled r0 \<and> hasWildcardMatch (r_Name r0) q"
  using assms
proof (induction "is")
  case (Cons i "is")
  then have "HasPrefix (wildcardPatternAt labels i) ''*.''" by (simp add: wildcardPatternAt_prefix)
  with Cons show ?case
    by (auto simp: Let_def wildcardMatches_def hasWildcardMatch_valid split: if_splits)
qed simp

lemma findWildcardRecords_sound:
  assumes "r \<in> set (findWildcardRecords recs q ty)"
  shows "\<exists>r0 \<in> set recs. r = r0\<lparr>r_Name := q\<rparr> \<and> r_Type r0 = ty \<and> r_Enabled r0 \<and> hasWildcardMatch (r_Name r0) q"
  using assms unfolding findWildcardRecords_def
  by (auto simp: Let_def split: if_splits dest!: wildcardLoop_sound)

lemma recordsByNameIn_sound:
  assumes "r \<in> set (recordsByNameIn recs q ty)"
  shows "r_Name r = q \<and> r_Type r = ty \<and> r_Enabled r \<and> domainExistsIn recs q"
proof (cases "exactRecords recs q ty = []")
  case True
  with assms obtain r0 where "r0 \<in> set recs" "r = r0\<lparr>r_Name := q\<rparr>" "r_Type r0 = ty" "r_Enabled r0"
    "hasWildcardMatch (r_Name r0) q"
    using findWildcardRecords_sound by (auto simp: recordsByNameIn_def Let_def) metis
  then show ?thesis by (auto simp: domainExistsIn_def list_ex_iff)
next
  case False
  with assms show ?thesis
    by (auto simp: recordsByNameIn_def exactRecords_def domainExistsIn_def list_ex_iff)
qed


subsection \<open>The cache in front of the table\<close>

interpretation record_cache: keyed_read_cache
  recordCacheGet recordsByZone recordCacheSet recordCacheInvalidate
  by unfold_locales
    (auto simp: recordCacheGet_def recordCacheSet_def recordCacheInvalidate_def
      split: option.splits if_splits)

interpretation record_flush: flush_read_cache recordCacheGet recordsByZone recordCacheSet InvalidateAll
  by unfold_locales (simp add: recordCacheGet_def InvalidateAll_def)

lemma createRecordTx_Inr:
  "createRecordTx now r t fs = (Inr (i, t'), fs') \<Longrightarrow>
     \<exists>t1. insertRecord now (recordDefaults r) t = Inr (i, t1) \<and> t' = bump_version t1"
  by (auto simp: createRecordTx_def dest: insert_tx_Inr)

lemma updateRecordTx_Inr:
  "updateRecordTx now r t fs = (Inr (u, t'), fs') \<Longrightarrow>
     \<exists>n t1. updateRecordRow now r t = Inr (n, t1) \<and> n \<noteq> 0 \<and> t' = bump_version t1"
  by (auto simp: updateRecordTx_def dest: rows_tx_Inr)

lemma deleteRecordTx_Inr:
  "deleteRecordTx i t fs = (Inr (u, t'), fs') \<Longrightarrow>
     \<exists>n t1. deleteRecordRow i t = Inr (n, t1) \<and> n \<noteq> 0 \<and> t' = bump_version t1"
  by (auto simp: deleteRecordTx_def dest: rows_tx_Inr)

lemma record_rows_version:
  "insertRecord now r t = Inr (i, t') \<Longrightarrow> last_sync_version t' = last_sync_version t"
  "updateRecordRow now r t = Inr (n, t') \<Longrightarrow> last_sync_version t' = last_sync_version t"
  "deleteRecordRow j t = Inr (n, t') \<Longrightarrow> last_sync_version t' = last_sync_version t"
  by (auto simp: insertRecord_def updateRecordRow_def deleteRecordRow_def take_id_def Let_def split: if_splits)

interpretation create_record: versioned_write
  "createRecordTx now r" "\<lambda>_. recordCacheInvalidate (r_ZoneID r)" for now r
  by unfold_locales (auto dest!: createRecordTx_Inr record_rows_version simp: bump_version_def)

interpretation update_record: versioned_write
  "updateRecordTx now r" "\<lambda>_. recordCacheInvalidate (r_ZoneID r)" for now r
  by unfold_locales (auto dest!: updateRecordTx_Inr record_rows_version simp: bump_version_def)

interpretation delete_record: versioned_write "deleteRecordTx i" "\<lambda>_. recordCacheInvalidate zid" for i zid
  by unfold_locales (auto dest!: deleteRecordTx_Inr record_rows_version simp: bump_version_def)

lemma recordsByZone_bump [simp]: "recordsByZone zid (bump_version t) = recordsByZone zid t"
  by (simp add: recordsByZone_def bump_version_def)

text \<open>A write leaves the lists of the zones it does not name.\<close>

lemma insertRecord_other:
  "insertRecord now r t = Inr (i, t') \<Longrightarrow> zid \<noteq> r_ZoneID r \<Longrightarrow> recordsByZone zid t' = recordsByZone zid t"
  by (auto simp: insertRecord_def recordsByZone_def Let_def take_id_def split: if_splits)

lemma filter_update_other:
  "\<forall>y \<in> set xs. C y \<longrightarrow> \<not> P y \<and> \<not> P (f y) \<Longrightarrow>
     filter P (map (\<lambda>y. if C y then f y else y) xs) = filter P xs"
  by (induction xs) auto

lemma updateRecordRow_other:
  assumes "updateRecordRow now r t = Inr (n, t')" and "zid \<noteq> r_ZoneID r"
    and "\<forall>y \<in> set (t_records t). r_ID y = r_ID r \<longrightarrow> r_ZoneID y = r_ZoneID r"
  shows "recordsByZone zid t' = recordsByZone zid t"
  using assms filter_update_other [of "t_records t" "\<lambda>y. r_ID y = r_ID r" "\<lambda>y. r_ZoneID y = zid"]
  by (auto simp: updateRecordRow_def recordsByZone_def split: if_splits)

lemma deleteRecordRow_other:
  assumes "deleteRecordRow i t = Inr (n, t')" and "find (\<lambda>r. r_ID r = i) (t_records t) = Some r"
    and "records_ok t" and "zid \<noteq> r_ZoneID r"
  shows "recordsByZone zid t' = recordsByZone zid t"
proof -
  have r: "r \<in> set (t_records t)" "r_ID r = i"
    using assms(2) by (auto simp: find_Some_iff)
  have "r_ZoneID y \<noteq> zid" if "y \<in> set (t_records t)" "r_ID y = i" for y
    using that r assms(3,4) by (auto simp: records_ok_def keyed_def distinct_map dest: inj_onD)
  then have "filter (\<lambda>y. r_ZoneID y = zid \<and> r_ID y \<noteq> i) (t_records t) = filter (\<lambda>y. r_ZoneID y = zid) (t_records t)"
    by (intro filter_cong) auto
  with assms(1) show ?thesis by (auto simp: deleteRecordRow_def recordsByZone_def conj_commute)
qed


lemma zoneRowExists_iff: "zoneRowExists i t \<longleftrightarrow> i \<in> set (map z_ID (t_zones t))"
  by (auto simp: zoneRowExists_def list_ex_iff)

lemma insertRecord_ok:
  assumes "insertRecord now r t = Inr (i, t')" and "records_ok t"
  shows "records_ok t'"
proof -
  from assms(1) have t': "map r_ID (t_records t') = map r_ID (t_records t) @ [t_seq t TRecords + 1]"
    "map r_ZoneID (t_records t') = map r_ZoneID (t_records t) @ [r_ZoneID r]"
    "t_seq t' = (t_seq t)(TRecords := t_seq t TRecords + 1)" "t_zones t' = t_zones t"
    and "r_ZoneID r \<in> set (map z_ID (t_zones t))"
    by (auto simp: insertRecord_def Let_def take_id_def next_id_def zoneRowExists_iff split: if_splits)
  with assms(2) show ?thesis unfolding records_ok_def by (auto simp: refers_def)
qed

lemma updateRecordRow_ok:
  assumes u: "updateRecordRow now r t = Inr (n, t')" and ok: "records_ok t"
  shows "records_ok t'"
proof -
  let ?upd = "\<lambda>y. if r_ID y = r_ID r
     then r\<lparr>r_LastQueryAt := r_LastQueryAt y, r_CreatedAt := r_CreatedAt y, r_UpdatedAt := now\<rparr> else y"
  have t': "t' = t\<lparr>t_records := map ?upd (t_records t)\<rparr>"
    and z: "\<forall>y\<in>set (t_records t). r_ID y = r_ID r \<longrightarrow> r_ZoneID r \<in> set (map z_ID (t_zones t))"
    using u by (auto simp: updateRecordRow_def zoneRowExists_iff list_ex_iff split: if_splits)
  have ids: "map r_ID (map ?upd (t_records t)) = map r_ID (t_records t)"
    by (rule map_update_key) simp
  have "refers (map r_ZoneID (map ?upd (t_records t))) (map z_ID (t_zones t))"
    using ok z by (simp add: records_ok_def refers_def image_subset_iff)
  with ok ids show ?thesis by (simp add: t' records_ok_def del: map_map list.map_comp)
qed

lemma deleteRecordRow_ok:
  "deleteRecordRow i t = Inr (n, t') \<Longrightarrow> records_ok t \<Longrightarrow> records_ok t'"
  by (auto simp: deleteRecordRow_def records_ok_def)

subsection \<open>Histories of the record store\<close>

text \<open>
  One operation on the database and the record cache, by one caller at a time. An update keeps
  the record in its zone, which is what the API does; \<open>moved_record_stale\<close> below shows what an
  update does that moves one. Any call may fail.
\<close>

inductive record_step :: "db \<times> RecordCache \<Rightarrow> db \<times> RecordCache \<Rightarrow> bool" where
  step_lookup: "0 < now \<Longrightarrow> GetRecordsByZone now zid d c = (r, d', c') \<Longrightarrow> record_step (d, c) (d', c')"
| step_create: "0 < now \<Longrightarrow> CreateRecord now x d c = (r, d', c') \<Longrightarrow> record_step (d, c) (d', c')"
| step_update: "0 < now \<Longrightarrow> UpdateRecord now x d c = (r, d', c') \<Longrightarrow>
    \<forall>y \<in> set (t_records (tables d)). r_ID y = r_ID x \<longrightarrow> r_ZoneID y = r_ZoneID x \<Longrightarrow>
    record_step (d, c) (d', c')"
| step_delete: "DeleteRecord i d c = (u, d', c') \<Longrightarrow> record_step (d, c) (d', c')"
| step_clear: "record_step (d, c) (d, InvalidateAll c)"

inductive record_reach :: "db \<times> RecordCache \<Rightarrow> db \<times> RecordCache \<Rightarrow> bool" where
  reach_refl: "record_reach s s"
| reach_step: "record_reach s s' \<Longrightarrow> record_step s' s'' \<Longrightarrow> record_reach s s''"

inductive_cases record_stepE: "record_step (d, c) (d', c')"

definition records_safe :: "db \<Rightarrow> RecordCache \<Rightarrow> bool" where
  "records_safe d c \<longleftrightarrow> records_ok (tables d) \<and> record_cache.coherent (tables d) c"

lemma GetRecordsByZone_safe:
  assumes "GetRecordsByZone now zid d c = (r, d', c')" and "records_safe d c"
  shows "records_safe d' c'"
proof -
  note look = assms(1) [unfolded GetRecordsByZone_def]
  from assms(2) record_cache.coherent_keep [OF _ look] read_through_tables [OF look]
  show ?thesis by (simp add: records_safe_def)
qed

lemma store_write_safe:
  assumes "store_write body (\<lambda>_. recordCacheInvalidate zid) d c = (r, d', c')" and "records_safe d c"
    and "\<And>fs a t fs'. body (tables d) fs = (Inr (a, t), fs') \<Longrightarrow> records_ok t
           \<and> (\<forall>k. k \<noteq> zid \<longrightarrow> recordsByZone k t = recordsByZone k (tables d))"
  shows "records_safe d' c'"
proof (rule store_write_cases [of body "\<lambda>_. recordCacheInvalidate zid" d c])
  fix e fs
  assume "store_write body (\<lambda>_. recordCacheInvalidate zid) d c = (Inl e, d\<lparr>faults := fs\<rparr>, c)"
  with assms show ?thesis by (auto simp: records_safe_def)
next
  fix a t fs fs' fs''
  assume "body (tables d) fs = (Inr (a, t), fs')"
    and "store_write body (\<lambda>_. recordCacheInvalidate zid) d c
           = (Inr a, \<lparr>tables = t, faults = fs''\<rparr>, recordCacheInvalidate zid c)"
  with assms record_cache.coherent_drop_key [of "tables d" c zid t] show ?thesis
    by (auto simp: records_safe_def)
qed

lemma CreateRecord_safe:
  assumes "CreateRecord now x d c = (r, d', c')" and "records_safe d c"
  shows "records_safe d' c'"
proof (rule store_write_safe [OF assms(1) [unfolded CreateRecord_def] assms(2)])
  fix fs a t fs'
  assume "createRecordTx now x (tables d) fs = (Inr (a, t), fs')"
  then obtain t1 where "insertRecord now (recordDefaults x) (tables d) = Inr (a, t1)" "t = bump_version t1"
    by (blast dest: createRecordTx_Inr)
  with assms(2) insertRecord_ok [of now "recordDefaults x"] insertRecord_other [of now "recordDefaults x"]
  show "records_ok t \<and> (\<forall>k. k \<noteq> r_ZoneID x \<longrightarrow> recordsByZone k t = recordsByZone k (tables d))"
    by (simp add: records_safe_def recordDefaults_def)
qed

lemma UpdateRecord_safe:
  assumes "UpdateRecord now x d c = (r, d', c')" and "records_safe d c"
    and "\<forall>y \<in> set (t_records (tables d)). r_ID y = r_ID x \<longrightarrow> r_ZoneID y = r_ZoneID x"
  shows "records_safe d' c'"
proof (rule store_write_safe [OF assms(1) [unfolded UpdateRecord_def] assms(2)])
  fix fs a t fs'
  assume "updateRecordTx now x (tables d) fs = (Inr (a, t), fs')"
  then obtain n t1 where "updateRecordRow now x (tables d) = Inr (n, t1)" "t = bump_version t1"
    by (blast dest: updateRecordTx_Inr)
  with assms(2,3) updateRecordRow_ok [of now x] updateRecordRow_other [of now x]
  show "records_ok t \<and> (\<forall>k. k \<noteq> r_ZoneID x \<longrightarrow> recordsByZone k t = recordsByZone k (tables d))"
    by (simp add: records_safe_def)
qed

lemma DeleteRecord_safe:
  assumes "DeleteRecord i d c = (u, d', c')" and safe: "records_safe d c"
  shows "records_safe d' c'"
proof -
  let ?q = "\<lambda>t. find (\<lambda>r. r_ID r = i) (t_records t)"
  obtain g d1 where g: "GetRecord i d = (g, d1)" by fastforce
  then have t1: "tables d1 = tables d" by (auto simp: GetRecord_def dest: reader_tables)
  with safe have safe1: "records_safe d1 c" by (simp add: records_safe_def)
  show ?thesis
  proof (cases "\<exists>r. g = Inr (Some r)")
    case False
    with assms(1) g safe1 show ?thesis by (auto simp: DeleteRecord_def split: sum.splits option.splits)
  next
    case True
    then obtain r where r: "g = Inr (Some r)" by blast
    with g reader_result [of ?q d g d1] have fr: "?q (tables d) = Some r" by (auto simp: GetRecord_def)
    from assms(1) g r
    have w: "store_write (deleteRecordTx i) (\<lambda>_. recordCacheInvalidate (r_ZoneID r)) d1 c = (u, d', c')"
      by (simp add: DeleteRecord_def)
    show ?thesis
    proof (rule store_write_safe [OF w safe1])
      fix fs a t fs'
      assume "deleteRecordTx i (tables d1) fs = (Inr (a, t), fs')"
      then obtain n t2 where "deleteRecordRow i (tables d) = Inr (n, t2)" "t = bump_version t2"
        using t1 by (auto dest: deleteRecordTx_Inr)
      with safe fr deleteRecordRow_ok [of i "tables d"] deleteRecordRow_other [of i "tables d"] t1
      show "records_ok t \<and> (\<forall>k. k \<noteq> r_ZoneID r \<longrightarrow> recordsByZone k t = recordsByZone k (tables d1))"
        by (simp add: records_safe_def)
    qed
  qed
qed

lemma record_step_safe:
  assumes "record_step s s'" and "records_safe (fst s) (snd s)"
  shows "records_safe (fst s') (snd s')"
  using assms
proof (cases rule: record_step.cases)
  case (step_clear d c)
  with assms(2) record_flush.coherent_drop show ?thesis by (simp add: records_safe_def)
qed (use assms(2) GetRecordsByZone_safe CreateRecord_safe UpdateRecord_safe DeleteRecord_safe in auto)

lemma record_reach_safe:
  "record_reach s s' \<Longrightarrow> records_safe (fst s) (snd s) \<Longrightarrow> records_safe (fst s') (snd s')"
  by (induction rule: record_reach.induct) (auto dest: record_step_safe)

lemma records_safe_new: "records_ok (tables d) \<Longrightarrow> records_safe d NewRecordStorage"
  by (simp add: records_safe_def record_cache.coherent_def NewRecordStorage_def NewRecordCache_def
      recordCacheGet_def)


subsection \<open>Properties\<close>

lemma lookup_works:
  assumes "records_safe d c" and "0 < now" and "faults d = []"
  shows "fst (GetRecordsByZone now zid d c) = Inr (recordsByZone zid (tables d))"
proof -
  obtain r d' c' where look: "GetRecordsByZone now zid d c = (r, d', c')" by (cases "GetRecordsByZone now zid d c") auto
  from record_cache.coherent_lookup_works(1) [OF _ assms(2,3) look [unfolded GetRecordsByZone_def]] assms(1) look
  show ?thesis by (simp add: records_safe_def)
qed

text \<open>
  C5: No stale record answer, as long as no record moves to another zone. In every state that the record
  store reaches from a fresh cache over a well-formed database, by lookups, creations, deletions, cache clears and
  updates that keep the record in its zone, one after the other and any of them failing, a lookup by zone, name
  and type on a working database answers what the table says now: the enabled records of that name and type, or else the
  wildcard records. An update that moves a record to another zone is not such a step: it invalidates the new zone only.
\<close>

theorem record_lookup_fresh:
  assumes "record_reach (d0, NewRecordStorage) (d, c)" and "records_ok (tables d0)"
    and "0 < now" and "faults d = []"
  shows "fst (GetRecordsByNameAndZone now zid name ty d c)
           = Inr (recordsByNameIn (recordsByZone zid (tables d)) name ty)"
proof -
  from record_reach_safe [OF assms(1)] assms(2) records_safe_new have "records_safe d c" by simp
  from lookup_works [OF this assms(3,4), of zid] show ?thesis
    by (cases "GetRecordsByZone now zid d c") (auto simp: GetRecordsByNameAndZone_def)
qed

definition sample_zone :: Zone where
  "sample_zone = \<lparr>z_ID = 1, z_Name = ''example.com.'', z_SOAMname = [], z_SOARname = [], z_SOASerial = 1,
     z_SOARefresh = 3600, z_SOARetry = 900, z_SOAExpire = 86400, z_SOAMinimum = 300, z_Enabled = True,
     z_AllowFallback = False, z_CreatedAt = 1, z_UpdatedAt = 1\<rparr>"

definition sample_record :: "rowid \<Rightarrow> string \<Rightarrow> string \<Rightarrow> string \<Rightarrow> Record" where
  "sample_record i name ty content = \<lparr>r_ID = i, r_ZoneID = 1, r_Name = name, r_Type = ty, r_Content = content,
     r_TTL = 300, r_Priority = 0, r_Enabled = True, r_LastQueryAt = None, r_CreatedAt = 1, r_UpdatedAt = 1\<rparr>"

definition sample_db :: db where
  "sample_db = \<lparr>tables = (Migrate 1)\<lparr>t_zones := [sample_zone],
      t_records := [sample_record 1 ''www.example.com.'' ''A'' ''192.0.2.1'',
                    sample_record 2 ''*.example.com.'' ''A'' ''192.0.2.9''],
      t_seq := (\<lambda>_. 2)\<rparr>, faults = []\<rparr>"

lemmas sample_defs = sample_zone_def sample_record_def sample_db_def Migrate_def

lemma sample_ok: "zones_ok (tables sample_db)" "records_ok (tables sample_db)" "faults sample_db = []"
  by (simp_all add: sample_defs zones_ok_def records_ok_def keyed_def refers_def)

theorem record_lookup_fresh_witness:
  "map r_Content (recordsByNameIn (recordsByZone 1 (tables sample_db)) ''x.example.com.'' ''A'') = [''192.0.2.9'']
   \<and> fst (GetRecordsByNameAndZone 5 1 ''x.example.com.'' ''A'' sample_db NewRecordStorage)
       = Inr (recordsByNameIn (recordsByZone 1 (tables sample_db)) ''x.example.com.'' ''A'')"
  using record_lookup_fresh [OF reach_refl [of "(sample_db, NewRecordStorage)"] sample_ok(2) _ sample_ok(3), of 5 1]
  by (simp, code_simp)

text \<open>A record that an update moves to zone 2 is still answered in zone 1, whose cached records are not dropped.\<close>

lemma moved_record_stale:
  "(case GetRecordsByZone 5 1 sample_db NewRecordStorage of (_, d, c) \<Rightarrow>
      case UpdateRecord 6 ((sample_record 1 ''www.example.com.'' ''A'' ''192.0.2.1'')\<lparr>r_ZoneID := 2\<rparr>)
             (d\<lparr>tables := (tables d)\<lparr>t_zones := [sample_zone, sample_zone\<lparr>z_ID := 2, z_Name := ''example.net.''\<rparr>]\<rparr>\<rparr>) c of
        (r, d', c') \<Rightarrow> r = Inr () \<and> recordsByNameIn (recordsByZone 1 (tables d')) ''www.example.com.'' ''A'' \<noteq>
          recordsByNameIn (recordsByZone 1 (tables d)) ''www.example.com.'' ''A'' \<and>
          fst (GetRecordsByNameAndZone 7 1 ''www.example.com.'' ''A'' d' c')
            = Inr (recordsByNameIn (recordsByZone 1 (tables d)) ''www.example.com.'' ''A''))"
  by code_simp

text \<open>
  C25: Wildcards match exactly one label. For a name whose first label is non-empty, the wildcard
  search returns the enabled records of the queried type named \<open>*.\<close> and the rest of the
  name, each under the queried name; records with a wildcard further up never answer.
\<close>

theorem wildcard_single_level:
  assumes "label \<noteq> []" and "CHR ''.'' \<notin> set label"
  shows "findWildcardRecords recs (label @ ''.'' @ parent @ ''.'') ty =
           map (\<lambda>r. r\<lparr>r_Name := label @ ''.'' @ parent @ ''.''\<rparr>)
             (filter (\<lambda>r. r_Name r = ''*.'' @ parent @ ''.'' \<and> r_Type r = ty \<and> r_Enabled r) recs)"
  using assms by (rule findWildcardRecords_eq)

theorem wildcard_single_level_witness:
  "findWildcardRecords [sample_record 2 ''*.example.com.'' ''A'' ''192.0.2.9''] ''x.example.com.'' ''A''
     = [sample_record 2 ''x.example.com.'' ''A'' ''192.0.2.9'']"
  using wildcard_single_level [of "''x''" "[sample_record 2 ''*.example.com.'' ''A'' ''192.0.2.9'']" "''example.com''" "''A''"]
  by (simp add: sample_record_def)

text \<open>
  C26: A name with an answer exists. Whatever the zone's records, on a working database with a record
  cache that agrees with it, when the lookup of a name finds records, they carry the queried name and type, are enabled, and the existence test that decides
  between NODATA and NXDOMAIN says yes for that name.
\<close>

theorem answered_name_exists:
  assumes "records_safe d c" and "0 < now" and "faults d = []"
    and "fst (GetRecordsByNameAndZone now zid name ty d c) = Inr rs" and "r \<in> set rs"
  shows "r_Name r = name \<and> r_Type r = ty \<and> r_Enabled r
           \<and> fst (DomainExistsInZone now zid name d c) = Inr True"
proof -
  from lookup_works [OF assms(1-3), of zid] obtain s
    where look: "GetRecordsByZone now zid d c = (Inr (recordsByZone zid (tables d)), s)"
    by (metis prod.collapse)
  with assms(4) have "rs = recordsByNameIn (recordsByZone zid (tables d)) name ty"
    by (simp add: GetRecordsByNameAndZone_def)
  with assms(5) recordsByNameIn_sound look show ?thesis by (auto simp: DomainExistsInZone_def)
qed

theorem answered_name_exists_witness:
  "fst (DomainExistsInZone 5 1 ''www.example.com.'' sample_db NewRecordStorage) = Inr True"
proof -
  have "fst (GetRecordsByNameAndZone 5 1 ''www.example.com.'' ''A'' sample_db NewRecordStorage)
          = Inr [sample_record 1 ''www.example.com.'' ''A'' ''192.0.2.1'']" by code_simp
  from answered_name_exists [OF records_safe_new [OF sample_ok(2)] _ sample_ok(3) this]
  show ?thesis by simp
qed

text \<open>The converse fails: the existence test compares suffixes, not labels.\<close>

lemma wildcard_existence_overmatch:
  "domainExistsIn [sample_record 2 ''*.api.example.com.'' ''A'' ''192.0.2.9''] ''fooapi.example.com.''
   \<and> findWildcardRecords [sample_record 2 ''*.api.example.com.'' ''A'' ''192.0.2.9''] ''fooapi.example.com.'' ''A'' = []"
  by code_simp

end
