(* ===== verification/RecordRR.thy ===== *)
theory RecordRR
  imports RecordStore
begin

section \<open>From stored records to resource records (dns/handler.go, the conversions)\<close>

text \<open>
  The functions of the handler that do not touch its state except for zone lookups: the
  conversion of a stored record to a resource record, the synthetic SOA, the zone that a name
  belongs to, and the names that must not leave the local network.
\<close>

subsection \<open>Conversions\<close>

text \<open>\<open>if !strings.HasSuffix(s, ".") { s += "." }\<close>\<close>

definition withDot :: "string \<Rightarrow> string" where
  "withDot s = (if HasSuffix s ''.'' then s else s @ ''.'')"

definition parseUint32Strict :: "string \<Rightarrow> 32 word option" where
  "parseUint32Strict s = map_option word_of_int (ParseUint 32 s)"

definition parseUint16Strict :: "string \<Rightarrow> 16 word option" where
  "parseUint16Strict s = map_option word_of_int (ParseUint 16 s)"

definition parseUint16 :: "string \<Rightarrow> 16 word" where
  "parseUint16 s = (case parseUint16Strict s of None \<Rightarrow> 0 | Some n \<Rightarrow> n)"

definition soaRR :: "RR_Header \<Rightarrow> string list \<Rightarrow> RR option" where
  "soaRR hdr parts =
     (if length parts < 7 then None
      else case map parseUint32Strict (take 5 (drop 2 parts)) of
             [Some serial, Some refresh, Some retry, Some expire, Some minTTL] \<Rightarrow>
               Some (RR_SOA hdr (withDot (parts ! 0)) (withDot (parts ! 1)) serial refresh retry expire minTTL)
           | _ \<Rightarrow> None)"

definition srvRR :: "RR_Header \<Rightarrow> 16 word \<Rightarrow> string list \<Rightarrow> RR option" where
  "srvRR hdr prio parts =
     (case parts of
        p # w # q # t # _ \<Rightarrow>
          (case (parseUint16Strict p, parseUint16Strict w, parseUint16Strict q) of
             (Some prio', Some weight, Some port) \<Rightarrow> Some (RR_SRV hdr prio' weight port (withDot t))
           | _ \<Rightarrow> None)
      | [w, q, t] \<Rightarrow>
          (case (parseUint16Strict w, parseUint16Strict q) of
             (Some weight, Some port) \<Rightarrow> Some (RR_SRV hdr prio weight port (withDot t))
           | _ \<Rightarrow> None)
      | _ \<Rightarrow> None)"

definition caaRR :: "RR_Header \<Rightarrow> string list \<Rightarrow> RR option" where
  "caaRR hdr parts =
     (if length parts < 3 then None
      else case parseUint16Strict (parts ! 0) of
             None \<Rightarrow> None
           | Some flag \<Rightarrow>
               if flag > 255 then None
               else Some (RR_CAA hdr (ucast flag) (parts ! 1) (Join '' '' (drop 2 parts))))"

definition recordHeader :: "dnslib \<Rightarrow> Record \<Rightarrow> RR_Header" where
  "recordHeader lib record =
     \<lparr>h_Name = r_Name record, h_Rrtype = lib_StringToType lib (r_Type record), h_Class = ClassINET,
      h_Ttl = word_of_int (r_TTL record)\<rparr>"

definition recordToRR :: "dnslib \<Rightarrow> Record \<Rightarrow> RR option" where
  "recordToRR lib record =
     (let hdr = recordHeader lib record; ty = r_Type record; content = r_Content record
      in if ty = ''A'' then
           (case ParseIP content of
              None \<Rightarrow> None
            | Some a \<Rightarrow> if \<not> is_v4 a then None else Some (RR_A hdr a))
         else if ty = ''AAAA'' then
           (case ParseIP content of
              None \<Rightarrow> None
            | Some a \<Rightarrow> if is_v4 a then None else Some (RR_AAAA hdr a))
         else if ty = ''CNAME'' then Some (RR_CNAME hdr (withDot content))
         else if ty = ''MX'' then Some (RR_MX hdr (word_of_int (r_Priority record)) (withDot content))
         else if ty = ''TXT'' then Some (RR_TXT hdr [content])
         else if ty = ''NS'' then Some (RR_NS hdr (withDot content))
         else if ty = ''SOA'' then soaRR hdr (Fields content)
         else if ty = ''SRV'' then srvRR hdr (word_of_int (r_Priority record)) (Fields content)
         else if ty = ''PTR'' then Some (RR_PTR hdr (withDot content))
         else if ty = ''CAA'' then caaRR hdr (Fields content)
         else None)"

definition answersOf :: "dnslib \<Rightarrow> Record list \<Rightarrow> RR list" where
  "answersOf lib records = List.map_filter (recordToRR lib) (filter r_Enabled records)"

definition buildResponse :: "dnslib \<Rightarrow> Question \<Rightarrow> Record list \<Rightarrow> Msg" where
  "buildResponse lib q records =
     (lib_SetQuestion lib (q_Name q) (q_Qtype q))\<lparr>m_Answer := answersOf lib records\<rparr>"

text \<open>The smallest TTL of a list of records or answers, as the loops compute it.\<close>

definition minTTL :: "int list \<Rightarrow> int" where
  "minTTL ttls = (case ttls of [] \<Rightarrow> 300 | t # _ \<Rightarrow> foldl (\<lambda>m x. if x < m then x else m) t ttls)"

definition buildSOA :: "32 word \<Rightarrow> string \<Rightarrow> RR" where
  "buildSOA negTTL zoneName =
     (let z = withDot zoneName
      in RR_SOA \<lparr>h_Name = z, h_Rrtype = TypeSOA, h_Class = ClassINET, h_Ttl = negTTL\<rparr>
           (''ns.'' @ z) (''admin.'' @ z) 1 3600 900 86400 negTTL)"

definition summarizeRR :: "dnslib \<Rightarrow> RR \<Rightarrow> string" where
  "summarizeRR lib rr =
     (case rr of
        RR_A _ a \<Rightarrow> ip_string a
      | RR_AAAA _ a \<Rightarrow> ip_string a
      | RR_CNAME _ t \<Rightarrow> ''CNAME:'' @ t
      | RR_MX _ p t \<Rightarrow> ''MX:'' @ dec (uint p) @ '':'' @ t
      | RR_TXT _ ts \<Rightarrow> ''TXT:'' @ Join '' '' ts
      | RR_NS _ t \<Rightarrow> ''NS:'' @ t
      | RR_SOA _ t _ _ _ _ _ _ \<Rightarrow> ''SOA:'' @ t
      | RR_SRV _ p w q t \<Rightarrow>
          ''SRV:'' @ dec (uint p) @ '':'' @ dec (uint w) @ '':'' @ dec (uint q) @ '':'' @ t
      | RR_PTR _ t \<Rightarrow> ''PTR:'' @ t
      | _ \<Rightarrow> lib_RRString lib rr)"

definition summarizeAnswers :: "dnslib \<Rightarrow> RR list \<Rightarrow> string" where
  "summarizeAnswers lib rrs = Join '', '' (map (summarizeRR lib) rrs)"

subsection \<open>Zones and local names\<close>

definition zoneCandidate :: "string list \<Rightarrow> nat \<Rightarrow> string" where
  "zoneCandidate parts i = Join ''.'' (drop i parts) @ ''.''"

fun zoneLoop ::
  "instant \<Rightarrow> string \<Rightarrow> string list \<Rightarrow> nat list \<Rightarrow> db \<Rightarrow> ZoneCache \<Rightarrow> string \<times> db \<times> ZoneCache" where
  "zoneLoop now fqdn parts [] d c =
     (if length parts \<ge> 2 then zoneCandidate parts (length parts - 2) else fqdn, d, c)"
| "zoneLoop now fqdn parts (i # is) d c =
     (case GetZoneByName now (zoneCandidate parts i) d c of
        (Inr (Some zone), d', c') \<Rightarrow> (zoneCandidate parts i, d', c')
      | (_, d', c') \<Rightarrow> zoneLoop now fqdn parts is d' c')"

definition extractDomain :: "instant \<Rightarrow> string \<Rightarrow> db \<Rightarrow> ZoneCache \<Rightarrow> string \<times> db \<times> ZoneCache" where
  "extractDomain now fqdn d c =
     (let parts = Split CHR ''.'' (TrimSuffix fqdn ''.'')
      in zoneLoop now fqdn parts [0..<length parts] d c)"

definition privateIPv4ReverseZone :: "string \<Rightarrow> string option" where
  "privateIPv4ReverseZone name0 =
     (let name = ToLower (TrimSuffix name0 ''.''); arpa = ''.in-addr.arpa''
      in if \<not> HasSuffix name arpa then None
         else let labels = Split CHR ''.'' (TrimSuffix name arpa); l = last labels
              in if l = ''10'' then Some ''10.in-addr.arpa.''
                 else if length labels < 2 then None
                 else let second = labels ! (length labels - 2)
                      in if l = ''192'' \<and> second = ''168'' then Some ''168.192.in-addr.arpa.''
                         else if l = ''172'' then
                           (case Atoi second of
                              Some n \<Rightarrow> if n \<ge> 16 \<and> n \<le> 31 then Some (second @ ''.172.in-addr.arpa.'') else None
                            | None \<Rightarrow> None)
                         else None)"

definition localUseResponse :: "string \<Rightarrow> string \<Rightarrow> (RR list \<times> string) option" where
  "localUseResponse domain qtype =
     (let name = ToLower (TrimSuffix domain ''.'')
      in if name = [] then None
         else if name = ''localhost'' then
           (if qtype = ''A'' then
              Some ([RR_A \<lparr>h_Name = domain, h_Rrtype = TypeA, h_Class = ClassINET, h_Ttl = 300\<rparr>
                       (v4_mapped 0x7F000001)], ''localhost.'')
            else if qtype = ''AAAA'' then
              Some ([RR_AAAA \<lparr>h_Name = domain, h_Rrtype = TypeAAAA, h_Class = ClassINET, h_Ttl = 300\<rparr> 1],
                    ''localhost.'')
            else Some ([], ''localhost.''))
         else if HasSuffix name ''.local'' then Some ([], ''local.'')
         else if CHR ''.'' \<notin> set name then Some ([], domain)
         else None)"

subsection \<open>What a converted record looks like\<close>

fun rrKind :: "RR \<Rightarrow> string" where
  "rrKind (RR_A _ _) = ''A''"
| "rrKind (RR_AAAA _ _) = ''AAAA''"
| "rrKind (RR_CNAME _ _) = ''CNAME''"
| "rrKind (RR_MX _ _ _) = ''MX''"
| "rrKind (RR_TXT _ _) = ''TXT''"
| "rrKind (RR_NS _ _) = ''NS''"
| "rrKind (RR_SOA _ _ _ _ _ _ _ _) = ''SOA''"
| "rrKind (RR_SRV _ _ _ _ _) = ''SRV''"
| "rrKind (RR_PTR _ _) = ''PTR''"
| "rrKind (RR_CAA _ _ _ _) = ''CAA''"
| "rrKind (RR_Other _ _) = ''''"

text \<open>An address has the right family, and every name in the data is fully qualified.\<close>

fun rrSound :: "RR \<Rightarrow> bool" where
  "rrSound (RR_A _ a) = is_v4 a"
| "rrSound (RR_AAAA _ a) = (\<not> is_v4 a)"
| "rrSound (RR_CNAME _ t) = HasSuffix t ''.''"
| "rrSound (RR_MX _ _ t) = HasSuffix t ''.''"
| "rrSound (RR_TXT _ ts) = (length ts = 1)"
| "rrSound (RR_NS _ t) = HasSuffix t ''.''"
| "rrSound (RR_SOA _ m r _ _ _ _ _) = (HasSuffix m ''.'' \<and> HasSuffix r ''.'')"
| "rrSound (RR_SRV _ _ _ _ t) = HasSuffix t ''.''"
| "rrSound (RR_PTR _ t) = HasSuffix t ''.''"
| "rrSound (RR_CAA _ f t v) = True"
| "rrSound (RR_Other _ _) = False"

lemma withDot_fqdn [simp]: "HasSuffix (withDot s) ''.''"
  by (simp add: withDot_def)

lemma soaRR_typed: "soaRR hdr parts = Some rr \<Longrightarrow> Header rr = hdr \<and> rrKind rr = ''SOA'' \<and> rrSound rr"
  by (auto simp: soaRR_def split: if_splits list.splits option.splits)

lemma srvRR_typed: "srvRR hdr p parts = Some rr \<Longrightarrow> Header rr = hdr \<and> rrKind rr = ''SRV'' \<and> rrSound rr"
  by (auto simp: srvRR_def split: list.splits option.splits)

lemma caaRR_typed: "caaRR hdr parts = Some rr \<Longrightarrow> Header rr = hdr \<and> rrKind rr = ''CAA'' \<and> rrSound rr"
  by (auto simp: caaRR_def split: if_splits option.splits)

lemmas partRR_typed = soaRR_typed srvRR_typed caaRR_typed

lemma recordToRR_typed:
  "recordToRR lib r = Some rr \<Longrightarrow> Header rr = recordHeader lib r \<and> rrKind rr = r_Type r \<and> rrSound rr"
  by (auto simp: recordToRR_def Let_def split: if_splits option.splits dest: partRR_typed)

lemma uint_of_int32: "uint (word_of_int n :: 32 word) = n mod 2 ^ 32"
  by (simp add: unsigned_of_int take_bit_eq_mod)

text \<open>
  C32: Whatever a stored record holds, the resource record made of it has the record's own type,
  owner name and (modulo \<open>2^32\<close>) TTL in class IN; an A answer carries an IPv4 address, an AAAA
  answer an address that is not IPv4, and every name in the data is fully qualified. Content
  that cannot be so represented yields no resource record.
\<close>

theorem record_rr_typed:
  assumes "recordToRR lib r = Some rr"
  shows "rrKind rr = r_Type r \<and> rrSound rr \<and> h_Name (Header rr) = r_Name r \<and>
         h_Rrtype (Header rr) = lib_StringToType lib (r_Type r) \<and> h_Class (Header rr) = ClassINET \<and>
         uint (h_Ttl (Header rr)) = r_TTL r mod 2 ^ 32"
  using recordToRR_typed [OF assms] by (simp add: recordHeader_def uint_of_int32)

text \<open>The part of the library's tables that concrete runs need (RFC 1035, RFC 3596).\<close>

definition sample_types :: "(string \<times> 16 word) list" where
  "sample_types = [(''A'', 1), (''NS'', 2), (''CNAME'', 5), (''SOA'', 6), (''PTR'', 12), (''MX'', 15), (''TXT'', 16),
                   (''AAAA'', 28), (''SRV'', 33), (''CAA'', 257)]"

definition empty_msg :: Msg where
  "empty_msg = \<lparr>m_Id = 0, m_Response = False, m_Authoritative = False, m_RecursionDesired = False,
     m_RecursionAvailable = False, m_Rcode = 0, m_Question = [], m_Answer = [], m_Ns = [], m_Opt = None\<rparr>"

definition sample_lib :: dnslib where
  "sample_lib =
     \<lparr>lib_SetReply = (\<lambda>req. empty_msg\<lparr>m_Id := m_Id req, m_Response := True,
                         m_RecursionDesired := m_RecursionDesired req, m_Question := m_Question req\<rparr>),
      lib_SetQuestion = (\<lambda>n t. empty_msg\<lparr>m_RecursionDesired := True,
                         m_Question := [\<lparr>q_Name = n, q_Qtype = t, q_Qclass = 1\<rparr>]\<rparr>),
      lib_SetEdns0 = (\<lambda>sz do m. m\<lparr>m_Opt := Some \<lparr>o_UDPSize = sz, o_Version = 0, o_Do = do, o_Option = []\<rparr>\<rparr>),
      lib_Fqdn = withDot,
      lib_TypeToString = (\<lambda>t. case map_of (map prod.swap sample_types) t of None \<Rightarrow> '''' | Some s \<Rightarrow> s),
      lib_StringToType = (\<lambda>s. case map_of sample_types s of None \<Rightarrow> 0 | Some t \<Rightarrow> t),
      lib_RcodeToString = (\<lambda>n. if n = 0 then ''NOERROR'' else if n = 3 then ''NXDOMAIN'' else ''''),
      lib_Len = (\<lambda>_. 12),
      lib_RRString = (\<lambda>_. '''')\<rparr>"

definition sample_srv :: Record where
  "sample_srv = \<lparr>r_ID = 9, r_ZoneID = 1, r_Name = ''_sip._tcp.example.com.'', r_Type = ''SRV'',
     r_Content = ''10 5060 sip.example.com'', r_TTL = 300, r_Priority = 5, r_Enabled = True,
     r_LastQueryAt = None, r_CreatedAt = 1, r_UpdatedAt = 1\<rparr>"

definition sample_srv_rr :: RR where
  "sample_srv_rr = RR_SRV \<lparr>h_Name = ''_sip._tcp.example.com.'', h_Rrtype = 33, h_Class = 1, h_Ttl = 300\<rparr>
     5 10 5060 ''sip.example.com.''"

theorem record_rr_typed_witness:
  "recordToRR sample_lib sample_srv = Some sample_srv_rr \<and> rrKind sample_srv_rr = ''SRV''"
proof -
  have run: "recordToRR sample_lib sample_srv = Some sample_srv_rr" by code_simp
  from record_rr_typed [OF run] run show ?thesis by (simp add: sample_srv_def)
qed

subsection \<open>Addresses survive printing and parsing\<close>

lemma of_char_digit: "0 \<le> n \<Longrightarrow> n < 10 \<Longrightarrow> (of_char (char_of (n + 48 :: int) :: char) :: int) = n + 48"
  by (simp add: of_char_of)

lemma is_digit_char: "0 \<le> n \<Longrightarrow> n < 10 \<Longrightarrow> is_digit (char_of (n + 48 :: int))"
  by (simp add: is_digit_def Let_def of_char_digit)

lemma dec_octet:
  assumes "0 \<le> n" and "n < 1000"
  shows "dec n = (if n < 10 then [char_of (n + 48)]
                  else if n < 100 then [char_of (n div 10 + 48), char_of (n mod 10 + 48)]
                  else [char_of (n div 100 + 48), char_of (n div 10 mod 10 + 48), char_of (n mod 10 + 48)])"
proof -
  have unfold: "dec n = digits_of (Suc (Suc (Suc 61))) 10 n" by (simp add: dec_def)
  have "n div 10 div 10 = n div 100" by (simp flip: zdiv_zmult2_eq)
  moreover have "n div 100 < 10" "n div 10 < 10 \<longleftrightarrow> n < 100" using assms by linarith+
  ultimately show ?thesis using assms unfolding unfold digits_of.simps by simp
qed

lemma dec_octet_digits: "0 \<le> n \<Longrightarrow> n < 1000 \<Longrightarrow> list_all is_digit (dec n)"
  by (simp add: dec_octet is_digit_char)

lemma digit_steps: "n = 10 * (n div 10) + n mod (10 :: int)" "n div 10 = 10 * (n div 100) + n div 10 mod 10"
proof -
  show "n = 10 * (n div 10) + n mod 10" by simp
  have "n div 10 div 10 = n div 100" by (simp flip: zdiv_zmult2_eq)
  then show "n div 10 = 10 * (n div 100) + n div 10 mod 10" by (metis div_mult_mod_eq mult.commute)
qed

lemma dec_octet_value: "0 \<le> n \<Longrightarrow> n < 1000 \<Longrightarrow> digits_value (dec n) = n"
  using digit_steps [of n] by (simp add: dec_octet digits_value_def of_char_digit)

lemma dot_not_digit: "list_all is_digit s \<Longrightarrow> CHR ''.'' \<notin> set s"
  by (auto simp: list_all_iff is_digit_def)

lemma octet_dec:
  assumes "0 \<le> n" and "n < 256"
  shows "v4_octet (dec n) = Some n" and "CHR ''.'' \<notin> set (dec n)" and "list_all is_digit (dec n)"
proof -
  show d: "list_all is_digit (dec n)" using dec_octet_digits assms by simp
  then show "CHR ''.'' \<notin> set (dec n)" by (rule dot_not_digit)
  have nz: "char_of (m + 48 :: int) \<noteq> CHR ''0''" if "1 \<le> m" "m < 10" for m
  proof
    assume "char_of (m + 48) = CHR ''0''"
    then have "(of_char (char_of (m + 48) :: char) :: int) = of_char (CHR ''0'')" by simp
    with that show False by (simp add: of_char_digit)
  qed
  have "dec n \<noteq> []" "length (dec n) \<le> 3" "length (dec n) = 1 \<or> hd (dec n) \<noteq> CHR ''0''"
    using assms nz [of "n div 10"] nz [of "n div 100"] by (auto simp: dec_octet)
  with d assms show "v4_octet (dec n) = Some n" by (simp add: v4_octet_def dec_octet_value)
qed

lemma octets_value:
  assumes "u < 4294967296" and "(0 :: int) \<le> u"
  shows "u div 256 ^ 3 mod 256 * 16777216 + u div 256 ^ 2 mod 256 * 65536 + u div 256 ^ 1 mod 256 * 256
           + u div 256 ^ 0 mod 256 = u"
proof -
  define a b c where "a = u div 256" and "b = a div 256" and "c = b div 256"
  have bc: "b = u div 256 ^ 2" "c = u div 256 ^ 3"
    unfolding a_def b_def c_def by (simp_all flip: zdiv_zmult2_eq)
  have "u = a * 256 + u mod 256" "a = b * 256 + a mod 256" "b = c * 256 + b mod 256"
    unfolding a_def b_def c_def by simp_all
  moreover have "c < 256" "0 \<le> c" using assms by (simp_all add: bc)
  then have "c mod 256 = c" by simp
  ultimately show ?thesis unfolding bc [symmetric] by (simp add: a_def [symmetric])
qed

lemma parse_v4_string: "parse_v4 (v4_string w) = Some w"
proof -
  define u where "u = uint w"
  let ?o = "\<lambda>i :: nat. u div 256 ^ i mod 256"
  have b: "0 \<le> ?o i" "?o i < 256" for i by simp_all
  have split: "Split CHR ''.'' (v4_string w) = map (\<lambda>i. dec (?o i)) [3, 2, 1, 0]"
    unfolding v4_string_def u_def [symmetric]
    by (rule Split_Join) (use octet_dec(2) in auto)
  have "u < 4294967296" "0 \<le> u" using uint_lt2p [of w] by (simp_all add: u_def)
  then have "?o 3 * 16777216 + ?o 2 * 65536 + ?o 1 * 256 + ?o 0 = u" by (rule octets_value)
  then have w: "word_of_int (?o 3 * 16777216 + ?o 2 * 65536 + ?o 1 * 256 + ?o 0) = w"
    unfolding u_def by (simp only: word_of_int_uint)
  show ?thesis
    unfolding parse_v4_def split using w by (simp only: list.map octet_dec(1) [OF b] list.case option.case)
qed

lemma v4_string_first: "find (\<lambda>c. c \<in> {CHR ''.'', CHR '':'', CHR ''%''}) (v4_string w) = Some CHR ''.''"
proof -
  let ?d = "dec (uint w div 256 ^ 3 mod 256)"
  have digits: "list_all is_digit ?d" using octet_dec(3) [of "uint w div 256 ^ 3 mod 256"] by simp
  obtain rest where s: "v4_string w = ?d @ CHR ''.'' # rest" by (simp add: v4_string_def)
  have "find (\<lambda>c. c \<in> {CHR ''.'', CHR '':'', CHR ''%''}) (d @ CHR ''.'' # rest) = Some CHR ''.''"
    if "list_all is_digit d" for d
    using that by (induction d) (auto simp: is_digit_def)
  with digits s show ?thesis by simp
qed

lemma ParseIP_ip_string: "is_v4 a \<Longrightarrow> ParseIP (ip_string a) = Some a"
  unfolding ParseIP_def by (simp only: ip_string_def To4_def option.case v4_string_first parse_v4_string if_True
      option.map v4_mapped_ucast refl)


text \<open>
  An IPv4 answer survives the detour through a stored record. The addresses that the load
  balancer or an upstream server gives for the target of an alias are printed into the content of
  a record and parsed again when the answer is built; the address that comes out is the one that
  went in.
\<close>

theorem address_roundtrip:
  assumes "is_v4 a" and "r_Type r = ''A''" and "r_Content r = ip_string a"
  shows "recordToRR lib r = Some (RR_A (recordHeader lib r) a)"
  using assms ParseIP_ip_string [OF assms(1)] by (simp add: recordToRR_def Let_def)

definition sample_a_record :: Record where
  "sample_a_record = sample_srv\<lparr>r_Type := ''A'', r_Content := ''192.0.2.33''\<rparr>"

theorem address_roundtrip_witness:
  "recordToRR sample_lib sample_a_record = Some (RR_A (recordHeader sample_lib sample_a_record) (v4_mapped 3221226017))"
proof -
  have "ip_string (v4_mapped 3221226017) = ''192.0.2.33''" by code_simp
  then show ?thesis
    using address_roundtrip [of "v4_mapped 3221226017" sample_a_record sample_lib]
    by (simp add: sample_a_record_def)
qed

subsection \<open>Private reverse zones\<close>

lemma dec_inj: "0 \<le> m \<Longrightarrow> m < 1000 \<Longrightarrow> 0 \<le> n \<Longrightarrow> n < 1000 \<Longrightarrow> dec m = dec n \<longleftrightarrow> m = n"
  using dec_octet_value [of m] dec_octet_value [of n] by metis

lemma dec_consts: "dec 10 = ''10''" "dec 192 = ''192''" "dec 168 = ''168''" "dec 172 = ''172''"
  by code_simp+

lemma Atoi_dec:
  assumes "0 \<le> n" and "n < 1000"
  shows "Atoi (dec n) = Some n"
proof -
  have d: "list_all is_digit (dec n)" by (rule dec_octet_digits [OF assms])
  have ne: "dec n \<noteq> []" using assms by (auto simp: dec_octet)
  have sign: "\<not> HasPrefix (dec n) ''-''" "\<not> HasPrefix (dec n) ''+''"
    using d ne by (cases "dec n"; simp add: HasPrefix_def is_digit_def; auto)+
  have "int64_range n" using assms by (simp add: int64_range_def)
  with d ne sign show ?thesis using dec_octet_value [OF assms] by (simp add: Atoi_def Let_def)
qed

lemma ToLower_digits: "list_all is_digit s \<Longrightarrow> ToLower s = s"
  by (induction s) (auto simp: ToLower_def lower_char_def is_digit_def Let_def)

lemma ToLower_dot: "ToLower ''.'' = ''.''"
  by code_simp

lemma ToLower_Join: "(\<forall>l \<in> set ls. ToLower l = l) \<Longrightarrow> ToLower (Join ''.'' ls) = Join ''.'' ls"
  using ToLower_dot by (induction "''.''" ls rule: Join.induct) (simp_all add: ToLower_def)

definition rfc1918 :: "int \<Rightarrow> int \<Rightarrow> bool" where
  "rfc1918 a b \<longleftrightarrow> a = 10 \<or> (a = 172 \<and> 16 \<le> b \<and> b \<le> 31) \<or> (a = 192 \<and> b = 168)"

lemma privateIPv4ReverseZone_labels:
  assumes "\<forall>l \<in> set ls. CHR ''.'' \<notin> set l \<and> ToLower l = l" and "2 \<le> length ls"
  shows "privateIPv4ReverseZone (Join ''.'' ls @ ''.in-addr.arpa.'') =
     (let l = last ls; second = ls ! (length ls - 2) in
      if l = ''10'' then Some ''10.in-addr.arpa.''
      else if l = ''192'' \<and> second = ''168'' then Some ''168.192.in-addr.arpa.''
      else if l = ''172'' then
        (case Atoi second of
           Some n \<Rightarrow> if n \<ge> 16 \<and> n \<le> 31 then Some (second @ ''.172.in-addr.arpa.'') else None
         | None \<Rightarrow> None)
      else None)"
proof -
  have "ls \<noteq> []" using assms(2) by auto
  then have split: "Split CHR ''.'' (Join ''.'' ls) = ls" using assms(1) by (intro Split_Join) auto
  have trim: "TrimSuffix (Join ''.'' ls @ ''.in-addr.arpa.'') ''.'' = Join ''.'' ls @ ''.in-addr.arpa''"
    using TrimSuffix_append [of "Join ''.'' ls @ ''.in-addr.arpa''" "''.''"] by simp
  have "ToLower ''.in-addr.arpa'' = ''.in-addr.arpa''" by code_simp
  then have low: "ToLower (Join ''.'' ls @ ''.in-addr.arpa'') = Join ''.'' ls @ ''.in-addr.arpa''"
    using assms(1) ToLower_Join [of ls] by (simp only: ToLower_append) simp
  have "\<not> length ls < 2" using assms(2) by simp
  then show ?thesis
    unfolding privateIPv4ReverseZone_def trim Let_def low
    by (simp only: HasSuffix_append TrimSuffix_append split) simp
qed

text \<open>
  The reverse names that are kept from the upstream servers are exactly those of private
  addresses. For a reverse name with the octets \<open>b\<close> and \<open>a\<close> of the address \<open>a.b.x.y\<close> before
  \<^verbatim>\<open>.in-addr.arpa.\<close> (whatever labels precede them), a private zone is found if and only if the
  address lies in 10/8, 172.16/12 or 192.168/16.
\<close>

lemma private_reverse_rfc1918:
  assumes "\<forall>l \<in> set ls. CHR ''.'' \<notin> set l \<and> ToLower l = l"
    and "0 \<le> a" and "a < 256" and "0 \<le> b" and "b < 256"
  shows "(privateIPv4ReverseZone (Join ''.'' (ls @ [dec b, dec a]) @ ''.in-addr.arpa.'') \<noteq> None) = rfc1918 a b"
proof -
  have d: "CHR ''.'' \<notin> set (dec n) \<and> ToLower (dec n) = dec n" if "0 \<le> n" "n < 256" for n
    using octet_dec(2,3) [OF that] ToLower_digits by simp
  then have labels: "\<forall>l \<in> set (ls @ [dec b, dec a]). CHR ''.'' \<notin> set l \<and> ToLower l = l" using assms by auto
  have eqs: "dec a = ''10'' \<longleftrightarrow> a = 10" "dec a = ''192'' \<longleftrightarrow> a = 192" "dec a = ''172'' \<longleftrightarrow> a = 172"
    "dec b = ''168'' \<longleftrightarrow> b = 168"
    using dec_inj [of a 10] dec_inj [of a 192] dec_inj [of a 172] dec_inj [of b 168] assms
    by (simp_all add: dec_consts)
  have second: "(ls @ [dec b, dec a]) ! (length (ls @ [dec b, dec a]) - 2) = dec b" by (simp add: nth_append)
  show ?thesis
    unfolding privateIPv4ReverseZone_labels [OF labels, simplified] Let_def
    using Atoi_dec [of b] assms by (simp add: nth_append eqs rfc1918_def)
qed

lemma private_reverse_rfc1918_witness:
  "privateIPv4ReverseZone ''4.3.20.172.in-addr.arpa.'' \<noteq> None \<and> privateIPv4ReverseZone ''4.3.32.172.in-addr.arpa.'' = None"
proof -
  have "dec 20 = ''20''" "dec 32 = ''32''" "ToLower ''4'' = ''4''" "ToLower ''3'' = ''3''" by code_simp+
  with private_reverse_rfc1918 [of "[''4'', ''3'']" 172 20] private_reverse_rfc1918 [of "[''4'', ''3'']" 172 32]
  show ?thesis by (simp add: dec_consts rfc1918_def)
qed


subsection \<open>The zone of a name\<close>

lemma GetZoneByName_works:
  assumes "zone_cache.coherent (tables d) c" and "0 < now" and "faults d = []"
  obtains c' where "GetZoneByName now name d c = (Inr (zoneByName name (tables d)), d, c')"
    and "zone_cache.coherent (tables d) c'"
proof -
  obtain r d' c' where g: "GetZoneByName now name d c = (r, d', c')" by (metis prod_cases3)
  note g' = g [unfolded GetZoneByName_def]
  from zone_cache.coherent_lookup_works [OF assms g'] zone_cache.coherent_keep [OF assms(1) g'] g that
  show ?thesis by auto
qed

definition closestZone :: "string \<Rightarrow> tables \<Rightarrow> string" where
  "closestZone fqdn t =
     (let parts = Split CHR ''.'' (TrimSuffix fqdn ''.'')
      in case find (\<lambda>i. zoneByName (zoneCandidate parts i) t \<noteq> None) [0..<length parts] of
           Some i \<Rightarrow> zoneCandidate parts i
         | None \<Rightarrow> if length parts \<ge> 2 then zoneCandidate parts (length parts - 2) else fqdn)"

lemma zoneLoop_spec:
  assumes "zone_cache.coherent (tables d) c" and "0 < now" and "faults d = []"
  shows "\<exists>c'. zoneLoop now fqdn parts is d c =
           (case find (\<lambda>i. zoneByName (zoneCandidate parts i) (tables d) \<noteq> None) is of
              Some i \<Rightarrow> zoneCandidate parts i
            | None \<Rightarrow> if length parts \<ge> 2 then zoneCandidate parts (length parts - 2) else fqdn, d, c')
         \<and> zone_cache.coherent (tables d) c'"
  using assms(1)
proof (induction "is" arbitrary: c)
  case (Cons i "is")
  obtain c1 where g: "GetZoneByName now (zoneCandidate parts i) d c =
      (Inr (zoneByName (zoneCandidate parts i) (tables d)), d, c1)"
    and c1: "zone_cache.coherent (tables d) c1"
    by (rule GetZoneByName_works [OF Cons.prems assms(2,3)])
  show ?case
  proof (cases "zoneByName (zoneCandidate parts i) (tables d)")
    case None
    with Cons.IH [OF c1] g show ?thesis by simp
  next
    case (Some z)
    with g c1 show ?thesis by simp
  qed
qed simp

lemma extractDomain_works:
  assumes "zone_cache.coherent (tables d) c" and "0 < now" and "faults d = []"
  obtains c' where "extractDomain now fqdn d c = (closestZone fqdn (tables d), d, c')"
    and "zone_cache.coherent (tables d) c'"
  using zoneLoop_spec [OF assms] that unfolding extractDomain_def closestZone_def Let_def by metis

text \<open>Whatever fails, a lookup changes no table and leaves a coherent cache.\<close>

lemma GetZoneByName_frame:
  "GetZoneByName now name d c = (r, d', c') \<Longrightarrow> tables d' = tables d"
  by (auto simp: GetZoneByName_def dest: read_through_tables)

lemma zoneLoop_frame: "zoneLoop now fqdn parts is d c = (z, d', c') \<Longrightarrow> tables d' = tables d"
proof (induction "is" arbitrary: d c)
  case (Cons i "is")
  obtain r d1 c1 where g: "GetZoneByName now (zoneCandidate parts i) d c = (r, d1, c1)" by (metis prod_cases3)
  with Cons.prems GetZoneByName_frame [OF g] Cons.IH [of d1 c1] show ?case
    by (auto split: sum.splits option.splits)
qed (simp split: if_splits)

lemma extractDomain_frame: "extractDomain now fqdn d c = (z, d', c') \<Longrightarrow> tables d' = tables d"
  by (auto simp: extractDomain_def Let_def dest: zoneLoop_frame)

lemma find_upt_first:
  "find P [0..<n] = Some i \<longleftrightarrow> i < n \<and> P i \<and> (\<forall>j < i. \<not> P j)"
  by (auto simp: find_Some_iff)

text \<open>
  C33: The zone of a name is its closest enclosing zone. With a working database and a zone cache
  that agrees with it, the suffix of the name at label \<open>i\<close> is taken exactly when it is an enabled
  zone and no longer suffix is one; when no suffix is a zone, the result is the last two labels.
  The lookup changes neither the tables nor the coherence of the cache.
\<close>

theorem closest_enclosing_zone:
  assumes "zone_cache.coherent (tables d) c" and "0 < now" and "faults d = []"
    and "labels = Split CHR ''.'' (TrimSuffix fqdn ''.'')" and "extractDomain now fqdn d c = (z, d', c')"
  shows "(\<forall>i < length labels. zoneByName (Join ''.'' (drop i labels) @ ''.'') (tables d) \<noteq> None \<and>
            (\<forall>j < i. zoneByName (Join ''.'' (drop j labels) @ ''.'') (tables d) = None) \<longrightarrow>
            z = Join ''.'' (drop i labels) @ ''.'') \<and>
         ((\<forall>i < length labels. zoneByName (Join ''.'' (drop i labels) @ ''.'') (tables d) = None) \<and>
            2 \<le> length labels \<longrightarrow> z = Join ''.'' (drop (length labels - 2) labels) @ ''.'') \<and>
         d' = d \<and> zone_cache.coherent (tables d') c'"
proof -
  obtain c1 where x: "extractDomain now fqdn d c = (closestZone fqdn (tables d), d, c1)"
    and c1: "zone_cache.coherent (tables d) c1"
    by (rule extractDomain_works [OF assms(1-3)])
  with assms(5) have z: "z = closestZone fqdn (tables d)" "d' = d" "c' = c1" by auto
  let ?P = "\<lambda>i. zoneByName (zoneCandidate labels i) (tables d) \<noteq> None"
  have first: "z = zoneCandidate labels i" if "i < length labels" "?P i" "\<forall>j < i. \<not> ?P j" for i
    using find_upt_first [of ?P "length labels" i] that z assms(4) by (simp add: closestZone_def Let_def)
  have none: "z = zoneCandidate labels (length labels - 2)"
    if "\<forall>i < length labels. \<not> ?P i" "2 \<le> length labels"
  proof -
    have "find ?P [0..<length labels] = None" using that by (auto simp: find_None_iff)
    with that z assms(4) show ?thesis by (simp add: closestZone_def Let_def)
  qed
  from first none z c1 show ?thesis by (auto simp: zoneCandidate_def)
qed

lemma new_zone_coherent: "zone_cache.coherent t NewZoneStorage"
  unfolding zone_cache.coherent_def
  by (simp add: NewZoneStorage_def NewZoneCache_def zoneCacheGet_def)

theorem closest_enclosing_zone_witness:
  "fst (extractDomain 5 ''a.b.example.com.'' sample_db NewZoneStorage) = ''example.com.''"
proof -
  obtain z d' c' where x: "extractDomain 5 ''a.b.example.com.'' sample_db NewZoneStorage = (z, d', c')"
    by (metis prod_cases3)
  have labels: "[''a'', ''b'', ''example'', ''com''] = Split CHR ''.'' (TrimSuffix ''a.b.example.com.'' ''.'')"
    by code_simp
  have "faults sample_db = []" by (simp add: sample_db_def)
  from closest_enclosing_zone [OF new_zone_coherent _ this labels x, THEN conjunct1, THEN spec, of 2]
  have "z = ''example.com.''"
    by (simp add: zoneByName_def sample_db_def sample_zone_def Migrate_def less_Suc_eq numeral_2_eq_2)
  with x show ?thesis by simp
qed


end
