(* ===== verification/Batch.thy ===== *)
theory Batch
  imports RecordStore "HOL-Library.AList"
begin

section \<open>Background batches (dns/buffered_batch.go, query_tracker.go, the log and statistics writers)\<close>

text \<open>
  The handler never writes to the database itself: log entries, statistics and query times are
  collected in memory and written by goroutines. \<open>bufferedBatch\<close> is the bounded buffer of the
  query log and of the ad-block statistics; its \<open>flushBatch\<close> is a parameter over the writer's
  state \<open>'s\<close>. \<open>lastQueryTracker\<close> keeps the latest time per name and puts a batch back
  when its write fails. A run is the list of what the goroutines' \<^verbatim>\<open>select\<close>s and the lock let
  through, in order; a flush takes the batch under the lock and writes it without, so other
  events may come between.
\<close>

subsection \<open>bufferedBatch\<close>

record 'a bufferedBatch =
  flushInterval :: int
  bufferSize :: int
  pending :: "'a list"
  stopped :: bool
  failures :: "(nat \<times> db_error) list"

definition defaultBatchFlushInterval :: int where
  "defaultBatchFlushInterval = seconds 2"

definition defaultBatchBufferSize :: int where
  "defaultBatchBufferSize = 1000"

definition newBufferedBatch :: "int \<Rightarrow> int \<Rightarrow> 'a bufferedBatch" where
  "newBufferedBatch interval bsize =
     \<lparr>flushInterval = (if interval \<le> 0 then defaultBatchFlushInterval else interval),
      bufferSize = (if bsize \<le> 0 then defaultBatchBufferSize else bsize),
      pending = [], stopped = False, failures = []\<rparr>"

definition add :: "'a \<Rightarrow> 'a bufferedBatch \<Rightarrow> bool \<times> 'a bufferedBatch" where
  "add entry b =
     (if int (length (pending b)) \<ge> bufferSize b then (False, b)
      else (True, b\<lparr>pending := pending b @ [entry]\<rparr>))"

definition takePending :: "'a bufferedBatch \<Rightarrow> 'a list \<times> 'a bufferedBatch" where
  "takePending b = (if pending b = [] then ([], b) else (pending b, b\<lparr>pending := []\<rparr>))"

definition flush ::
  "('a list \<Rightarrow> 's \<Rightarrow> (db_error + unit) \<times> 's) \<Rightarrow> 'a bufferedBatch \<Rightarrow> 's \<Rightarrow> 'a bufferedBatch \<times> 's" where
  "flush flushBatch b s =
     (case takePending b of (batch, b') \<Rightarrow>
        if batch = [] then (b', s)
        else (case flushBatch batch s of
                (Inr _, s') \<Rightarrow> (b', s')
              | (Inl e, s') \<Rightarrow> (b'\<lparr>failures := failures b' @ [(length batch, e)]\<rparr>, s')))"

text \<open>
  What reaches the batch: an entry from the handler, a tick of \<open>run\<close>, or \<open>Stop\<close>, which closes
  the channel once, flushes and ends the goroutine. The result also lists which entries \<open>add\<close>
  accepted.
\<close>

datatype 'a batchEvent = Entry 'a | FlushTick | BatchStop

fun batchRun ::
  "('a list \<Rightarrow> 's \<Rightarrow> (db_error + unit) \<times> 's) \<Rightarrow> 'a batchEvent list \<Rightarrow> 'a bufferedBatch \<Rightarrow> 's
     \<Rightarrow> 'a list \<times> 'a bufferedBatch \<times> 's" where
  "batchRun fb [] b s = ([], b, s)"
| "batchRun fb (Entry x # es) b s =
     (case add x b of (ok, b') \<Rightarrow>
        (case batchRun fb es b' s of (acc, r) \<Rightarrow> (if ok then x # acc else acc, r)))"
| "batchRun fb (FlushTick # es) b s =
     (if stopped b then batchRun fb es b s
      else case flush fb b s of (b', s') \<Rightarrow> batchRun fb es b' s')"
| "batchRun fb (BatchStop # es) b s =
     (if stopped b then batchRun fb es b s
      else case flush fb b s of (b', s') \<Rightarrow> batchRun fb es (b'\<lparr>stopped := True\<rparr>) s')"

definition batch_inv :: "'a bufferedBatch \<Rightarrow> bool" where
  "batch_inv b \<longleftrightarrow> 0 < bufferSize b \<and> int (length (pending b)) \<le> bufferSize b"

lemma add_frame [simp]:
  "bufferSize (snd (add x b)) = bufferSize b" "stopped (snd (add x b)) = stopped b"
  by (simp_all add: add_def)

lemma add_pending: "pending (snd (add x b)) = (if fst (add x b) then pending b @ [x] else pending b)"
  by (simp add: add_def)

lemma flush_frame [simp]:
  "bufferSize (fst (flush fb b s)) = bufferSize b" "stopped (fst (flush fb b s)) = stopped b"
  "pending (fst (flush fb b s)) = []"
  by (auto simp: flush_def takePending_def split: prod.splits sum.splits)

lemma flush_writer:
  "snd (flush fb b s) = (if pending b = [] then s else snd (fb (pending b) s))"
  by (auto simp: flush_def takePending_def split: prod.splits sum.splits)

lemma batch_inv_new [invs]: "batch_inv (newBufferedBatch i n)"
  by (simp add: batch_inv_def newBufferedBatch_def defaultBatchBufferSize_def)

lemma batch_inv_add [invs]: "batch_inv b \<Longrightarrow> batch_inv (snd (add x b))"
  by (auto simp: batch_inv_def add_def)

lemma batch_inv_flush [invs]: "batch_inv b \<Longrightarrow> batch_inv (fst (flush fb b s))"
  by (simp add: batch_inv_def)

definition written :: "('a list \<Rightarrow> 's \<Rightarrow> (db_error + unit) \<times> 's) \<Rightarrow> 'a list list \<Rightarrow> 's \<Rightarrow> 's" where
  "written fb bs s = fold (\<lambda>b. snd \<circ> fb b) bs s"

lemma flush_Pair: "flush fb b s = (b', s') \<Longrightarrow> pending b' = [] \<and> stopped b' = stopped b"
  using flush_frame [of fb b s] by simp

lemma batchRun_drains:
  assumes "batchRun fb (es @ [BatchStop]) b s = (acc, b', s')" and "BatchStop \<notin> set es" and "\<not> stopped b"
  shows "pending b' = []"
  using assms
proof (induction es arbitrary: b s acc)
  case Nil
  then show ?case by (auto split: prod.splits dest: flush_Pair)
next
  case (Cons e es)
  then show ?case by (cases e) (auto simp: add_def split: prod.splits if_splits dest: flush_Pair)
qed

text \<open>
  The general form over any starting buffer: the batches handed to the writer, followed by what
  is still pending, are the entries pending at the start followed by the accepted ones.
\<close>

lemma batchRun_conserves:
  assumes "batch_inv b" and "batchRun fb es b s = (acc, b', s')"
  shows "batch_inv b' \<and>
         (\<exists>bs. s' = written fb bs s \<and> concat bs @ pending b' = pending b @ acc \<and>
               (\<forall>x \<in> set bs. x \<noteq> [] \<and> int (length x) \<le> bufferSize b) \<and> bufferSize b' = bufferSize b)"
  using assms
proof (induction es arbitrary: b s acc)
  case Nil
  then show ?case by (auto simp: written_def intro: exI [of _ "[]"])
next
  case (Cons e es)
  have flushed: ?case
    if run: "batchRun fb es b1 (snd (flush fb b s)) = (acc, b', s')"
      and b1: "batch_inv b1" "pending b1 = []" "bufferSize b1 = bufferSize b" for b1
  proof -
    from Cons.IH [OF b1(1) run] b1 obtain bs where bs: "batch_inv b'"
      "s' = written fb bs (snd (flush fb b s))" "concat bs @ pending b' = acc"
      "\<forall>x \<in> set bs. x \<noteq> [] \<and> int (length x) \<le> bufferSize b" "bufferSize b' = bufferSize b" by auto
    let ?bs = "if pending b = [] then bs else pending b # bs"
    have "s' = written fb ?bs s" "concat ?bs @ pending b' = pending b @ acc"
      "\<forall>x \<in> set ?bs. x \<noteq> [] \<and> int (length x) \<le> bufferSize b"
      using bs Cons.prems(1) by (auto simp: written_def flush_writer batch_inv_def)
    with bs show ?thesis by blast
  qed
  show ?case
  proof (cases e)
    case (Entry x)
    then obtain acc1 where run: "batchRun fb es (snd (add x b)) s = (acc1, b', s')"
      and acc: "acc = (if fst (add x b) then x # acc1 else acc1)"
      using Cons.prems(2) by (auto split: prod.splits)
    from Cons.IH [OF batch_inv_add [OF Cons.prems(1)] run] acc show ?thesis
      by (auto simp: add_pending)
  next
    case FlushTick
    with Cons.prems Cons.IH [of b s acc] flushed [of "fst (flush fb b s)"] show ?thesis
      by (auto simp: batch_inv_flush split: if_splits prod.splits)
  next
    case BatchStop
    with Cons.prems Cons.IH [of b s acc] flushed [of "(fst (flush fb b s))\<lparr>stopped := True\<rparr>"] show ?thesis
      by (auto simp: batch_inv_def split: if_splits prod.splits)
  qed
qed

text \<open>
  C36: Nothing accepted is lost or written twice. Over any sequence of entries, ticks and stops,
  the batches handed to the writer, in order and followed by what is still buffered, are exactly
  the accepted entries in their order; no batch is empty and none, nor the buffer, exceeds the
  configured size. Moreover a \<open>Stop\<close> drains: with no entry after it, all accepted entries have
  been handed over.
\<close>

theorem batch_exactly_once:
  assumes "batchRun fb es (newBufferedBatch interval bsize) s = (acc, b', s')"
  shows "(\<exists>bs. s' = written fb bs s \<and> concat bs @ pending b' = acc \<and>
            (\<forall>x \<in> set bs. x \<noteq> [] \<and> int (length x) \<le> bufferSize b')) \<and>
         int (length (pending b')) \<le> bufferSize b' \<and>
         (\<forall>xs. es = xs @ [BatchStop] \<and> BatchStop \<notin> set xs \<longrightarrow> pending b' = [])"
proof (intro conjI)
  note general = batchRun_conserves [OF batch_inv_new assms]
  then show "\<exists>bs. s' = written fb bs s \<and> concat bs @ pending b' = acc \<and>
            (\<forall>x \<in> set bs. x \<noteq> [] \<and> int (length x) \<le> bufferSize b')"
    by (auto simp: newBufferedBatch_def)
  from general show "int (length (pending b')) \<le> bufferSize b'" by (simp add: batch_inv_def)
  show "\<forall>xs. es = xs @ [BatchStop] \<and> BatchStop \<notin> set xs \<longrightarrow> pending b' = []"
    using assms batchRun_drains by (fastforce simp: newBufferedBatch_def)
qed

theorem batch_exactly_once_witness:
  "batchRun (\<lambda>x s. (Inr (), s @ [x])) [Entry (1 :: nat), Entry 2, Entry 3, FlushTick, Entry 4, BatchStop]
     (newBufferedBatch 0 2) [] = ([1, 2, 4],
     \<lparr>flushInterval = seconds 2, bufferSize = 2, pending = [], stopped = True, failures = []\<rparr>, [[1, 2], [4]])
   \<and> (\<exists>bs. [[1, 2 :: nat], [4]] = written (\<lambda>x s. (Inr (), s @ [x])) bs [] \<and> concat bs @ [] = [1, 2, 4])"
proof -
  have run: "batchRun (\<lambda>x s. (Inr (), s @ [x])) [Entry (1 :: nat), Entry 2, Entry 3, FlushTick, Entry 4, BatchStop]
     (newBufferedBatch 0 2) [] = ([1, 2, 4],
     \<lparr>flushInterval = seconds 2, bufferSize = 2, pending = [], stopped = True, failures = []\<rparr>, [[1, 2], [4]])"
    by (simp add: newBufferedBatch_def defaultBatchFlushInterval_def add_def flush_def takePending_def)
  from batch_exactly_once [OF run] show ?thesis using run by auto
qed

subsection \<open>The writers built on it\<close>

text \<open>A nil writer is \<open>None\<close>; \<^verbatim>\<open>Record\<close> ignores whether the buffer accepted the entry.\<close>

type_synonym QueryLogWriter = "QueryLog bufferedBatch"

record BlockedQueryRecord =
  bq_Domain :: string
  bq_ClientIP :: string

type_synonym AdblockStatsWriter = "BlockedQueryRecord bufferedBatch"

definition queryLogRecord :: "QueryLog \<Rightarrow> QueryLogWriter option \<Rightarrow> QueryLogWriter option" where
  "queryLogRecord entry w = map_option (\<lambda>b. snd (add entry b)) w"

definition adblockStatsRecord ::
  "string \<Rightarrow> string \<Rightarrow> AdblockStatsWriter option \<Rightarrow> AdblockStatsWriter option" where
  "adblockStatsRecord domain clientIP w =
     (if domain = [] \<or> clientIP = [] then w
      else map_option (\<lambda>b. snd (add \<lparr>bq_Domain = domain, bq_ClientIP = clientIP\<rparr> b)) w)"

subsection \<open>lastQueryTracker\<close>

record lastQueryTracker =
  tr_flushInterval :: int
  tr_pending :: "(string \<times> instant) list"
  tr_stopped :: bool

definition newLastQueryTracker :: "int \<Rightarrow> lastQueryTracker" where
  "newLastQueryTracker interval =
     \<lparr>tr_flushInterval = (if interval \<le> 0 then seconds 5 else interval), tr_pending = [], tr_stopped = False\<rparr>"

text \<open>\<open>if prev, ok := pending[domain]; !ok || queriedAt.After(prev) { pending[domain] = queriedAt }\<close>\<close>

definition keepLatest :: "string \<times> instant \<Rightarrow> (string \<times> instant) list \<Rightarrow> (string \<times> instant) list" where
  "keepLatest e m =
     (case map_of m (fst e) of
        Some prev \<Rightarrow> if snd e > prev then AList.update (fst e) (snd e) m else m
      | None \<Rightarrow> AList.update (fst e) (snd e) m)"

definition trackerRecord :: "string \<Rightarrow> instant \<Rightarrow> lastQueryTracker \<Rightarrow> lastQueryTracker" where
  "trackerRecord domain queriedAt t =
     (if domain = [] then t else t\<lparr>tr_pending := keepLatest (domain, queriedAt) (tr_pending t)\<rparr>)"

definition trackerTake :: "lastQueryTracker \<Rightarrow> (string \<times> instant) list \<times> lastQueryTracker" where
  "trackerTake t = (if tr_pending t = [] then ([], t) else (tr_pending t, t\<lparr>tr_pending := []\<rparr>))"

definition requeue :: "(string \<times> instant) list \<Rightarrow> lastQueryTracker \<Rightarrow> lastQueryTracker" where
  "requeue batch t = t\<lparr>tr_pending := fold keepLatest batch (tr_pending t)\<rparr>"

definition trackerFlush :: "lastQueryTracker \<Rightarrow> db \<Rightarrow> lastQueryTracker \<times> db" where
  "trackerFlush t d =
     (case trackerTake t of (batch, t') \<Rightarrow>
        if batch = [] then (t', d)
        else (case BatchUpdateLastQueryAt batch d of
                (Inr _, d') \<Rightarrow> (t', d')
              | (Inl _, d') \<Rightarrow> (requeue batch t', d')))"

text \<open>\<open>Stop\<close>: the first call ends the goroutine, which flushes once more.\<close>

definition trackerStop :: "lastQueryTracker \<Rightarrow> db \<Rightarrow> lastQueryTracker \<times> db" where
  "trackerStop t d =
     (if tr_stopped t then (t, d)
      else case trackerFlush t d of (t', d') \<Rightarrow> (t'\<lparr>tr_stopped := True\<rparr>, d'))"

text \<open>
  The goroutines: handlers record at any moment; \<open>run\<close> takes a batch, and its write commits or
  fails later. \<open>asked\<close> and \<open>saved\<close> keep the history of recorded and of committed times.
\<close>

record tracker_state =
  trk :: lastQueryTracker
  inflight :: "(string \<times> instant) list"
  asked :: "(string \<times> instant) set"
  saved :: "(string \<times> instant) set"

inductive tracker_step :: "tracker_state \<Rightarrow> tracker_state \<Rightarrow> bool" where
  query: "tracker_step s (s\<lparr>trk := trackerRecord name q (trk s),
            asked := (if name = [] then asked s else insert (name, q) (asked s))\<rparr>)"
| takes: "inflight s = [] \<Longrightarrow> trackerTake (trk s) = (batch, t') \<Longrightarrow>
            tracker_step s (s\<lparr>trk := t', inflight := batch\<rparr>)"
| saves: "tracker_step s (s\<lparr>inflight := [], saved := saved s \<union> set (inflight s)\<rparr>)"
| fails: "tracker_step s (s\<lparr>trk := requeue (inflight s) (trk s), inflight := []\<rparr>)"

inductive tracker_reach :: "tracker_state \<Rightarrow> bool" where
  start: "tracker_reach \<lparr>trk = newLastQueryTracker i, inflight = [], asked = {}, saved = {}\<rparr>"
| step: "tracker_reach s \<Longrightarrow> tracker_step s s' \<Longrightarrow> tracker_reach s'"

inductive_cases tracker_stepE: "tracker_step s s'"

definition later_in :: "string \<times> instant \<Rightarrow> (string \<times> instant) set \<Rightarrow> bool" where
  "later_in e m \<longleftrightarrow> (\<exists>q \<ge> snd e. (fst e, q) \<in> m)"

lemma later_in_mono: "later_in e m \<Longrightarrow> m \<subseteq> m' \<Longrightarrow> later_in e m'"
  by (auto simp: later_in_def)

lemma later_in_member: "e \<in> m \<Longrightarrow> later_in e m"
  by (cases e) (auto simp: later_in_def)

lemma keepLatest_distinct: "distinct (map fst m) \<Longrightarrow> distinct (map fst (keepLatest e m))"
  by (auto simp: keepLatest_def distinct_update split: option.splits)

lemma keepLatest_map_of:
  "map_of (keepLatest (name, q) m) k =
     (if k = name then Some (case map_of m name of None \<Rightarrow> q | Some p \<Rightarrow> max p q) else map_of m k)"
  by (auto simp: keepLatest_def update_conv' max_def split: option.splits)

lemma keepLatest_mem:
  assumes "distinct (map fst m)"
  shows "(k, v) \<in> set (keepLatest e m) \<longleftrightarrow> map_of (keepLatest e m) k = Some v"
    and "(k, v) \<in> set m \<longleftrightarrow> map_of m k = Some v"
  using assms keepLatest_distinct [OF assms, of e] by (simp_all add: map_of_eq_Some_iff)

lemma later_in_keepLatest:
  assumes "distinct (map fst m)"
  shows "later_in x (set (keepLatest e m)) \<longleftrightarrow> later_in x (set m) \<or> (fst x = fst e \<and> snd x \<le> snd e)"
  unfolding later_in_def
  using keepLatest_mem [OF assms] keepLatest_map_of [of "fst e" "snd e" m]
  by (auto simp: le_max_iff_disj split: option.splits if_splits)

lemma keepLatest_set: "distinct (map fst m) \<Longrightarrow> set (keepLatest e m) \<subseteq> insert e (set m)"
  using keepLatest_mem [of m] keepLatest_map_of [of "fst e" "snd e" m]
  by (cases e) (auto simp: max_def split: option.splits if_splits)

lemma fold_keepLatest_distinct: "distinct (map fst m) \<Longrightarrow> distinct (map fst (fold keepLatest batch m))"
  by (induction batch arbitrary: m) (simp_all add: keepLatest_distinct)

lemma fold_keepLatest_later:
  "distinct (map fst m) \<Longrightarrow> later_in x (set m \<union> set batch) \<Longrightarrow> later_in x (set (fold keepLatest batch m))"
proof (induction batch arbitrary: m)
  case (Cons e batch)
  then have "later_in x (set (keepLatest e m)) \<or> later_in x (set batch)"
    using later_in_keepLatest [OF Cons.prems(1), of x e] by (auto simp: later_in_def)
  then have "later_in x (set (keepLatest e m) \<union> set batch)" by (auto simp: later_in_def)
  with Cons.IH [OF keepLatest_distinct [OF Cons.prems(1)]] show ?case by simp
qed simp

lemma fold_keepLatest_set:
  "distinct (map fst m) \<Longrightarrow> set (fold keepLatest batch m) \<subseteq> set batch \<union> set m"
proof (induction batch arbitrary: m)
  case (Cons e batch)
  from Cons.IH [OF keepLatest_distinct [OF Cons.prems, of e]] keepLatest_set [OF Cons.prems, of e] show ?case by auto
qed simp

text \<open>
  The invariant: one pending time per name; what is pending, in flight or saved was recorded; and
  every recorded time is covered by one at least as late that is pending, in flight or saved.
\<close>

definition tracker_inv :: "tracker_state \<Rightarrow> bool" where
  "tracker_inv s \<longleftrightarrow>
     distinct (map fst (tr_pending (trk s))) \<and>
     set (tr_pending (trk s)) \<union> set (inflight s) \<union> saved s \<subseteq> asked s \<and>
     (\<forall>e \<in> asked s. later_in e (set (tr_pending (trk s)) \<union> set (inflight s) \<union> saved s))"

lemma tracker_inv_query:
  assumes "tracker_inv s" and "name \<noteq> []"
  shows "tracker_inv (s\<lparr>trk := trackerRecord name q (trk s), asked := insert (name, q) (asked s)\<rparr>)"
proof -
  let ?m = "tr_pending (trk s)" and ?m' = "keepLatest (name, q) (tr_pending (trk s))"
  from assms have d: "distinct (map fst ?m)" by (simp add: tracker_inv_def)
  have new: "later_in x (set ?m' \<union> A)" if "later_in x (set ?m \<union> A) \<or> x = (name, q)" for x A
    using that later_in_keepLatest [OF d, of x "(name, q)"] by (auto simp: later_in_def)
  show ?thesis
    using assms keepLatest_distinct [OF d] keepLatest_set [OF d, of "(name, q)"]
      new [of _ "set (inflight s) \<union> saved s"]
    by (auto simp: tracker_inv_def trackerRecord_def Un_assoc)
qed

lemma tracker_inv_step: "tracker_step s s' \<Longrightarrow> tracker_inv s \<Longrightarrow> tracker_inv s'"
proof (induction rule: tracker_step.induct)
  case (query s name q)
  then show ?case using tracker_inv_query [of s name q] by (cases "name = []") (auto simp: trackerRecord_def)
next
  case (takes s batch t')
  then show ?case by (auto simp: tracker_inv_def trackerTake_def split: if_splits)
next
  case (saves s)
  then show ?case by (auto simp: tracker_inv_def Un_ac)
next
  case (fails s)
  let ?m = "tr_pending (trk s)"
  from fails have d: "distinct (map fst ?m)" by (simp add: tracker_inv_def)
  have "later_in e (set (fold keepLatest (inflight s) ?m) \<union> saved s)"
    if "later_in e (set ?m \<union> set (inflight s) \<union> saved s)" for e
    using that fold_keepLatest_later [OF d, of e "inflight s"] by (auto simp: later_in_def)
  with fails fold_keepLatest_distinct [OF d] fold_keepLatest_set [OF d, of "inflight s"] show ?case
    by (auto simp: tracker_inv_def requeue_def)
qed

text \<open>
  C35: The tracker loses no query time, whatever fails and however handlers interleave with the
  flushes: every time recorded for a name is at all times covered by one at least as late that is
  pending, in a write that is under way, or saved, and none of these is made up.
\<close>

theorem tracker_no_loss:
  assumes "tracker_reach s"
  shows "set (tr_pending (trk s)) \<union> set (inflight s) \<union> saved s \<subseteq> asked s \<and>
         (\<forall>(name, q) \<in> asked s. \<exists>q' \<ge> q.
            (name, q') \<in> set (tr_pending (trk s)) \<union> set (inflight s) \<union> saved s)"
proof -
  from assms have "tracker_inv s"
  proof (induction rule: tracker_reach.induct)
    case (start i)
    show ?case by (simp add: tracker_inv_def newLastQueryTracker_def)
  qed (rule tracker_inv_step)
  then show ?thesis by (fastforce simp: tracker_inv_def later_in_def)
qed

theorem tracker_no_loss_witness:
  "\<exists>s. tracker_reach s \<and> inflight s = [(''a.'', 1)] \<and>
     (\<exists>q' \<ge> 1. (''a.'', q') \<in> set (tr_pending (trk s)) \<union> set (inflight s) \<union> saved s)"
proof -
  let ?s0 = "\<lparr>trk = newLastQueryTracker 5, inflight = [], asked = {}, saved = {}\<rparr> :: tracker_state"
  let ?t1 = "trackerRecord ''a.'' 1 (newLastQueryTracker 5)"
  let ?s1 = "?s0\<lparr>trk := ?t1, asked := {(''a.'', 1)}\<rparr>"
  let ?s2 = "?s1\<lparr>trk := newLastQueryTracker 5, inflight := [(''a.'', 1)]\<rparr>"
  have "tracker_step ?s0 ?s1" using query [of ?s0 "''a.''" 1] by simp
  then have r1: "tracker_reach ?s1" using start step by blast
  have "trackerTake ?t1 = ([(''a.'', 1)], newLastQueryTracker 5)"
    by (simp add: trackerTake_def trackerRecord_def newLastQueryTracker_def keepLatest_def)
  then have "tracker_step ?s1 ?s2" using takes [of ?s1] by simp
  with r1 have r2: "tracker_reach ?s2" by (rule step)
  from tracker_no_loss [OF r2] r2 show ?thesis by (intro exI [of _ ?s2]) auto
qed

subsection \<open>Counters and the log cleaner (dns/stats.go, dns/query_log_cleaner.go)\<close>

record QueryStats =
  Total :: "64 word"
  L1Hits :: "64 word"
  L1Misses :: "64 word"
  UpstreamHits :: "64 word"

definition NewQueryStats :: QueryStats where
  "NewQueryStats = \<lparr>Total = 0, L1Hits = 0, L1Misses = 0, UpstreamHits = 0\<rparr>"

definition IncTotal :: "QueryStats \<Rightarrow> QueryStats" where
  "IncTotal s = s\<lparr>Total := Total s + 1\<rparr>"

definition IncL1Hit :: "QueryStats \<Rightarrow> QueryStats" where
  "IncL1Hit s = s\<lparr>L1Hits := L1Hits s + 1\<rparr>"

definition IncL1Miss :: "QueryStats \<Rightarrow> QueryStats" where
  "IncL1Miss s = s\<lparr>L1Misses := L1Misses s + 1\<rparr>"

definition IncUpstreamHit :: "QueryStats \<Rightarrow> QueryStats" where
  "IncUpstreamHit s = s\<lparr>UpstreamHits := UpstreamHits s + 1\<rparr>"

text \<open>The cleaner deletes once at the start and at every tick, until it is stopped.\<close>

definition retentionDays :: "int \<Rightarrow> int" where
  "retentionDays n = (if n \<le> 0 then 7 else n)"

definition cleanup :: "int \<Rightarrow> (instant \<Rightarrow> 's \<Rightarrow> (db_error + int) \<times> 's) \<Rightarrow> instant \<Rightarrow> 's \<Rightarrow> 's" where
  "cleanup days deleteBefore now s = snd (deleteBefore (now - seconds (86400 * days)) s)"

datatype cleanerEvent = CleanerTick instant | CleanerStop

fun cleanerLoop ::
  "int \<Rightarrow> (instant \<Rightarrow> 's \<Rightarrow> (db_error + int) \<times> 's) \<Rightarrow> cleanerEvent list \<Rightarrow> 's \<Rightarrow> 's" where
  "cleanerLoop days deleteBefore [] s = s"
| "cleanerLoop days deleteBefore (CleanerTick now # es) s =
     cleanerLoop days deleteBefore es (cleanup days deleteBefore now s)"
| "cleanerLoop days deleteBefore (CleanerStop # es) s = s"

definition cleanerRun ::
  "int \<Rightarrow> (instant \<Rightarrow> 's \<Rightarrow> (db_error + int) \<times> 's) \<Rightarrow> instant \<Rightarrow> cleanerEvent list \<Rightarrow> 's \<Rightarrow> 's" where
  "cleanerRun days deleteBefore start es s =
     cleanerLoop days deleteBefore es (cleanup days deleteBefore start s)"


end
