(* ===== verification/UpstreamStore.thy ===== *)
theory UpstreamStore
  imports Database
begin

section \<open>Upstream servers and cache settings (storage/upstream.go, storage/cache_settings.go)\<close>

text \<open>
  These writes are single statements that commit by themselves: an error of the call that
  inspects the result comes after the row has changed, and then the cache is not invalidated.
\<close>

record UpstreamCache =
  uc_servers :: "UpstreamServer list"
  uc_expiry :: instant
  uc_ttl :: int

definition NewUpstreamCache :: "int \<Rightarrow> UpstreamCache" where
  "NewUpstreamCache ttl = \<lparr>uc_servers = [], uc_expiry = 0, uc_ttl = ttl\<rparr>"

definition upstreamCacheGet :: "instant \<Rightarrow> UpstreamCache \<Rightarrow> UpstreamServer list option" where
  "upstreamCacheGet now c = (if now > uc_expiry c then None else Some (uc_servers c))"

definition upstreamCacheSet :: "instant \<Rightarrow> UpstreamServer list \<Rightarrow> UpstreamCache \<Rightarrow> UpstreamCache" where
  "upstreamCacheSet now servers c = c\<lparr>uc_servers := servers, uc_expiry := now + uc_ttl c\<rparr>"

definition upstreamCacheInvalidate :: "UpstreamCache \<Rightarrow> UpstreamCache" where
  "upstreamCacheInvalidate c = c\<lparr>uc_servers := [], uc_expiry := 0\<rparr>"

definition NewUpstreamStorage :: UpstreamCache where
  "NewUpstreamStorage = NewUpstreamCache (seconds 600)"

definition GetUpstreamServer :: "rowid \<Rightarrow> db \<Rightarrow> (db_error + UpstreamServer option) \<times> db" where
  "GetUpstreamServer i = reader (\<lambda>t. find (\<lambda>u. u_ID u = i) (t_upstreams t))"

definition allUpstreams :: "tables \<Rightarrow> UpstreamServer list" where
  "allUpstreams t = sort_key u_Priority (t_upstreams t)"

definition ListUpstreamServers ::
  "instant \<Rightarrow> db \<Rightarrow> UpstreamCache \<Rightarrow> (db_error + UpstreamServer list) \<times> db \<times> UpstreamCache" where
  "ListUpstreamServers now d c =
     read_through (upstreamCacheGet now c) allUpstreams (upstreamCacheSet now) d c"

definition ListEnabledUpstreamServers ::
  "instant \<Rightarrow> db \<Rightarrow> UpstreamCache \<Rightarrow> (db_error + UpstreamServer list) \<times> db" where
  "ListEnabledUpstreamServers now d c =
     (case upstreamCacheGet now c of
        Some servers \<Rightarrow> (Inr (filter u_Enabled servers), d)
      | None \<Rightarrow> reader (\<lambda>t. sort_key u_Priority (filter u_Enabled (t_upstreams t))) d)"

text \<open>A statement, then the inspection of its result, then the invalidation.\<close>

definition exec_then ::
  "'a tx \<Rightarrow> ('a \<Rightarrow> unit tx) \<Rightarrow> ('c \<Rightarrow> 'c) \<Rightarrow> db \<Rightarrow> 'c \<Rightarrow> (db_error + 'a) \<times> db \<times> 'c" where
  "exec_then stmt inspect invalidate d c =
     (case autocommit stmt d of
        (Inl e, d') \<Rightarrow> (Inl e, d', c)
      | (Inr a, d') \<Rightarrow>
          (case autocommit (inspect a) d' of
             (Inl e, d'') \<Rightarrow> (Inl e, d'', c)
           | (Inr _, d'') \<Rightarrow> (Inr a, d'', invalidate c)))"

definition insertUpstream :: "instant \<Rightarrow> UpstreamServer \<Rightarrow> tables \<Rightarrow> db_error + rowid \<times> tables" where
  "insertUpstream now u t =
     (let i = next_id TUpstreams t
      in Inr (i, (take_id TUpstreams t)
           \<lparr>t_upstreams := t_upstreams t @ [u\<lparr>u_ID := i, u_CreatedAt := now, u_UpdatedAt := now\<rparr>]\<rparr>))"

definition CreateUpstreamServer ::
  "instant \<Rightarrow> UpstreamServer \<Rightarrow> db \<Rightarrow> UpstreamCache \<Rightarrow> (db_error + rowid) \<times> db \<times> UpstreamCache" where
  "CreateUpstreamServer now u =
     exec_then (tx_call ExecFailed (insertUpstream now u)) (\<lambda>_. tx_ok ResultFailed) upstreamCacheInvalidate"

definition updateUpstreamRow :: "instant \<Rightarrow> UpstreamServer \<Rightarrow> tables \<Rightarrow> db_error + int \<times> tables" where
  "updateUpstreamRow now u t =
     Inr (int (length (filter (\<lambda>y. u_ID y = u_ID u) (t_upstreams t))),
          t\<lparr>t_upstreams := map (\<lambda>y. if u_ID y = u_ID u
                then u\<lparr>u_CreatedAt := u_CreatedAt y, u_UpdatedAt := now\<rparr> else y) (t_upstreams t)\<rparr>)"

definition UpdateUpstreamServer ::
  "instant \<Rightarrow> UpstreamServer \<Rightarrow> db \<Rightarrow> UpstreamCache \<Rightarrow> (db_error + int) \<times> db \<times> UpstreamCache" where
  "UpdateUpstreamServer now u =
     exec_then (tx_call ExecFailed (updateUpstreamRow now u)) tx_affected upstreamCacheInvalidate"

definition deleteUpstreamRow :: "rowid \<Rightarrow> tables \<Rightarrow> db_error + int \<times> tables" where
  "deleteUpstreamRow i t =
     Inr (int (length (filter (\<lambda>y. u_ID y = i) (t_upstreams t))),
          t\<lparr>t_upstreams := filter (\<lambda>y. u_ID y \<noteq> i) (t_upstreams t)\<rparr>)"

definition DeleteUpstreamServer ::
  "rowid \<Rightarrow> db \<Rightarrow> UpstreamCache \<Rightarrow> (db_error + int) \<times> db \<times> UpstreamCache" where
  "DeleteUpstreamServer i =
     exec_then (tx_call ExecFailed (deleteUpstreamRow i)) tx_affected upstreamCacheInvalidate"

subsection \<open>Cache settings\<close>

definition GetCacheSettings :: "instant \<Rightarrow> db \<Rightarrow> (db_error + CacheSettings) \<times> db" where
  "GetCacheSettings now =
     reader (\<lambda>t. case t_cacheSettings t of None \<Rightarrow> defaultSettings now | Some s \<Rightarrow> s)"

definition validateSettings :: "CacheSettings \<Rightarrow> db_error + unit" where
  "validateSettings s =
     (if cs_MaxSize s < 100 then Inl (Invalid ''max_size'')
      else if cs_MinTTL s < 1 then Inl (Invalid ''min_ttl'')
      else if cs_MaxTTL s < cs_MinTTL s then Inl (Invalid ''max_ttl'')
      else if cs_DefaultTTL s < cs_MinTTL s \<or> cs_DefaultTTL s > cs_MaxTTL s then Inl (Invalid ''default_ttl'')
      else if cs_PrefetchTrigger s < 0 \<or> cs_PrefetchTrigger s > 1 then Inl (Invalid ''prefetch_trigger'')
      else Inr ())"

definition updateSettingsRow :: "instant \<Rightarrow> CacheSettings \<Rightarrow> tables \<Rightarrow> db_error + int \<times> tables" where
  "updateSettingsRow now s t =
     (case t_cacheSettings t of
        None \<Rightarrow> Inr (0, t)
      | Some _ \<Rightarrow> Inr (1, t\<lparr>t_cacheSettings := Some (s\<lparr>cs_UpdatedAt := now\<rparr>)\<rparr>))"

definition insertSettingsRow :: "instant \<Rightarrow> CacheSettings \<Rightarrow> tables \<Rightarrow> db_error + unit \<times> tables" where
  "insertSettingsRow now s t =
     (case t_cacheSettings t of
        None \<Rightarrow> Inr ((), t\<lparr>t_cacheSettings := Some (s\<lparr>cs_UpdatedAt := now\<rparr>)\<rparr>)
      | Some _ \<Rightarrow> Inl ConstraintFailed)"

definition UpdateCacheSettings :: "instant \<Rightarrow> CacheSettings \<Rightarrow> db \<Rightarrow> (db_error + unit) \<times> db" where
  "UpdateCacheSettings now s d =
     (case validateSettings s of
        Inl e \<Rightarrow> (Inl e, d)
      | Inr _ \<Rightarrow>
          (case autocommit (tx_call ExecFailed (updateSettingsRow now s)) d of
             (Inl e, d') \<Rightarrow> (Inl e, d')
           | (Inr n, d') \<Rightarrow>
               (case autocommit (tx_ok ResultFailed) d' of
                  (Inl e, d'') \<Rightarrow> (Inl e, d'')
                | (Inr _, d'') \<Rightarrow>
                    if n = 0 then autocommit (tx_call ExecFailed (insertSettingsRow now s)) d''
                    else (Inr (), d''))))"

subsection \<open>Lemmas\<close>

interpretation upstream_cache: flush_read_cache
  "\<lambda>now (_ :: unit) c. upstreamCacheGet now c" "\<lambda>_. allUpstreams"
  "\<lambda>now _. upstreamCacheSet now" upstreamCacheInvalidate
  by unfold_locales
    (auto simp: upstreamCacheGet_def upstreamCacheSet_def upstreamCacheInvalidate_def split: if_splits)

text \<open>Filtering the cached list and asking the database for enabled rows give the same order.\<close>

lemma enabled_upstreams_agree:
  "filter u_Enabled (allUpstreams t) = sort_key u_Priority (filter u_Enabled (t_upstreams t))"
  by (simp add: allUpstreams_def filter_sort)

lemma ListEnabledUpstreamServers_eq:
  assumes "upstream_cache.coherent (tables d) c" and "0 < now" and "faults d = []"
  shows "ListEnabledUpstreamServers now d c
           = (Inr (sort_key u_Priority (filter u_Enabled (t_upstreams (tables d)))), d)"
  using assms unfolding ListEnabledUpstreamServers_def upstream_cache.coherent_def
  by (cases "upstreamCacheGet now c") (auto simp: enabled_upstreams_agree [symmetric])

lemma autocommit_cases:
  obtains (failed) e fs where "autocommit stmt d = (Inl e, d\<lparr>faults := fs\<rparr>)"
  | (committed) a t fs where "stmt (tables d) (faults d) = (Inr (a, t), fs)"
      "autocommit stmt d = (Inr a, \<lparr>tables = t, faults = fs\<rparr>)"
  by (cases "stmt (tables d) (faults d)"; cases "fst (stmt (tables d) (faults d))")
    (auto simp: autocommit_def)


lemma validateSettings_ok:
  "validateSettings s = Inr () \<longleftrightarrow>
     100 \<le> cs_MaxSize s \<and> 1 \<le> cs_MinTTL s \<and> cs_MinTTL s \<le> cs_DefaultTTL s
     \<and> cs_DefaultTTL s \<le> cs_MaxTTL s \<and> 0 \<le> cs_PrefetchTrigger s \<and> cs_PrefetchTrigger s \<le> 1"
  by (auto simp: validateSettings_def)

lemma settingsRow_effect:
  "updateSettingsRow now s t = Inr (n, t') \<Longrightarrow> t' = t \<and> n = 0 \<and> t_cacheSettings t = None
     \<or> n = 1 \<and> t' = t\<lparr>t_cacheSettings := Some (s\<lparr>cs_UpdatedAt := now\<rparr>)\<rparr>"
  "insertSettingsRow now s t = Inr (u, t') \<Longrightarrow> t' = t\<lparr>t_cacheSettings := Some (s\<lparr>cs_UpdatedAt := now\<rparr>)\<rparr>"
  by (auto simp: updateSettingsRow_def insertSettingsRow_def split: option.splits)

lemma autocommit_Inr:
  "autocommit stmt d = (Inr a, d') \<Longrightarrow> stmt (tables d) (faults d) = (Inr (a, tables d'), faults d')"
  by (rule autocommit_cases [of stmt d]) auto

text \<open>
  Cache settings are validated before they are stored. When \<^verbatim>\<open>UpdateCacheSettings\<close> succeeds,
  the settings satisfy the documented ranges (size at least 100, \<^verbatim>\<open>1 <= min_ttl <= default_ttl <=
  max_ttl\<close>, trigger between 0 and 1) and the next read returns exactly them; settings outside the
  ranges are refused and leave the database as it was.
\<close>

theorem settings_roundtrip:
  "(case UpdateCacheSettings now s d of
      (Inr _, d') \<Rightarrow> validateSettings s = Inr ()
         \<and> t_cacheSettings (tables d') = Some (s\<lparr>cs_UpdatedAt := now\<rparr>)
         \<and> 100 \<le> cs_MaxSize s \<and> 1 \<le> cs_MinTTL s \<and> cs_MinTTL s \<le> cs_DefaultTTL s
         \<and> cs_DefaultTTL s \<le> cs_MaxTTL s \<and> 0 \<le> cs_PrefetchTrigger s \<and> cs_PrefetchTrigger s \<le> 1
    | (Inl (Invalid _), d') \<Rightarrow> d' = d
    | (Inl _, d') \<Rightarrow> validateSettings s = Inr ())"
proof (cases "validateSettings s")
  case (Inl e)
  then have "\<exists>x. e = Invalid x" by (auto simp: validateSettings_def split: if_splits)
  with Inl show ?thesis by (auto simp: UpdateCacheSettings_def)
next
  case (Inr u)
  have calls: "fst (autocommit (tx_call ExecFailed (updateSettingsRow now s)) d1) \<noteq> Inl (Invalid x)"
    "fst (autocommit (tx_ok ResultFailed) d1) \<noteq> Inl (Invalid x)"
    "fst (autocommit (tx_call ExecFailed (insertSettingsRow now s)) d1) \<noteq> Inl (Invalid x)" for d1 x
    by (auto simp: autocommit_def tx_call_def tx_ok_def updateSettingsRow_def insertSettingsRow_def
        split: list.splits bool.splits option.splits prod.splits sum.splits)
  obtain r1 d1 where s1: "autocommit (tx_call ExecFailed (updateSettingsRow now s)) d = (r1, d1)" by fastforce
  obtain r2 d2 where s2: "autocommit (tx_ok ResultFailed) d1 = (r2, d2)" by fastforce
  obtain r3 d3 where s3: "autocommit (tx_call ExecFailed (insertSettingsRow now s)) d2 = (r3, d3)" by fastforce
  have e2: "tables d2 = tables d1" if "r2 = Inr x" for x
    using s2 that by (auto dest!: autocommit_Inr tx_ok_Inr)
  have e1: "(n = 0 \<longrightarrow> tables d1 = tables d) \<and> (n \<noteq> 0 \<longrightarrow> t_cacheSettings (tables d1) = Some (s\<lparr>cs_UpdatedAt := now\<rparr>))"
    if "r1 = Inr n" for n
    using s1 that by (auto dest!: autocommit_Inr tx_call_Inr settingsRow_effect(1))
  have e3: "t_cacheSettings (tables d3) = Some (s\<lparr>cs_UpdatedAt := now\<rparr>)" if "r3 = Inr x" for x
    using s3 that by (auto dest!: autocommit_Inr tx_call_Inr settingsRow_effect(2))
  show ?thesis
    using Inr e1 e2 e3 calls(1) [of d] calls(2) [of d1] calls(3) [of d2] validateSettings_ok [of s]
    by (auto simp: UpdateCacheSettings_def s1 s2 s3 split: sum.splits db_error.splits if_splits)
qed

end
