(* ===== verification/Resolver.thy ===== *)
theory Resolver
  imports UpstreamStore "HOL-Library.Multiset"
begin

section \<open>Forwarding to upstream servers (dns/resolver.go)\<close>

text \<open>
  A query goes to every enabled upstream server at once and the first successful answer is
  returned. The network is a parameter \<open>upstream\<close>: \<open>un_Exchange k transport address msg\<close> is what
  the DNS client's \<^verbatim>\<open>Exchange\<close> returns in the \<open>k\<close>-th \<open>Forward\<close> of the process, \<open>None\<close> for an
  error, and \<open>un_arrival k\<close> the order in which the results of that \<open>Forward\<close> reach the channel,
  of which a Go channel promises that it is a permutation. \<open>sent\<close> is the trace of all queries
  that left the process, as (transport, address, message).
\<close>

datatype forward_error =
    ListFailed db_error
  | NoServers
  | UnsupportedProtocol string
  | ExchangeFailed string
  | AllFailed forward_error

type_synonym forward_result = "forward_error + Msg"

record upstream =
  un_Exchange :: "nat \<Rightarrow> string \<Rightarrow> string \<Rightarrow> Msg \<Rightarrow> Msg option"
  un_arrival :: "nat \<Rightarrow> forward_result list \<Rightarrow> forward_result list"

record resolver =
  rs_cache :: UpstreamCache
  rs_forwards :: nat
  sent :: "(string \<times> string \<times> Msg) list"

definition NewResolver :: resolver where
  "NewResolver = \<lparr>rs_cache = NewUpstreamStorage, rs_forwards = 0, sent = []\<rparr>"

definition transport :: "UpstreamServer \<Rightarrow> string option" where
  "transport server =
     (if u_Protocol server \<in> {''udp'', ''tcp'', ''tcp-tls''} then Some (u_Protocol server) else None)"

definition forwardToServer :: "upstream \<Rightarrow> nat \<Rightarrow> Msg \<Rightarrow> UpstreamServer \<Rightarrow> forward_result" where
  "forwardToServer net k req server =
     (case transport server of
        None \<Rightarrow> Inl (UnsupportedProtocol (u_Protocol server))
      | Some tr \<Rightarrow>
          (case un_Exchange net k tr (u_Address server) req of
             None \<Rightarrow> Inl (ExchangeFailed (u_Name server))
           | Some resp \<Rightarrow> Inr resp))"

definition outgoing :: "Msg \<Rightarrow> UpstreamServer \<Rightarrow> (string \<times> string \<times> Msg) list" where
  "outgoing req server =
     (case transport server of None \<Rightarrow> [] | Some tr \<Rightarrow> [(tr, u_Address server, req)])"

text \<open>The loop that receives the results: \<open>lastErr\<close> is the error of the last failure.\<close>

fun firstSuccess :: "forward_error \<Rightarrow> forward_result list \<Rightarrow> forward_result" where
  "firstSuccess lastErr [] = Inl (AllFailed lastErr)"
| "firstSuccess lastErr (Inr resp # rs) = Inr resp"
| "firstSuccess lastErr (Inl e # rs) = firstSuccess e rs"

definition Forward ::
  "upstream \<Rightarrow> instant \<Rightarrow> Msg \<Rightarrow> db \<Rightarrow> resolver \<Rightarrow> forward_result \<times> db \<times> resolver" where
  "Forward net now req d r =
     (case ListEnabledUpstreamServers now d (rs_cache r) of
        (Inl e, d') \<Rightarrow> (Inl (ListFailed e), d', r)
      | (Inr servers, d') \<Rightarrow>
          if servers = [] then (Inl NoServers, d', r)
          else
            (let k = rs_forwards r;
                 r' = r\<lparr>rs_forwards := Suc k, sent := sent r @ concat (map (outgoing req) servers)\<rparr>
             in case servers of
                  [server] \<Rightarrow> (forwardToServer net k req server, d', r')
                | _ \<Rightarrow> (firstSuccess NoServers
                          (un_arrival net k (map (forwardToServer net k req) servers)), d', r')))"

subsection \<open>The first success wins\<close>

lemma firstSuccess_Inr:
  "firstSuccess e rs = Inr m \<longleftrightarrow> (\<exists>xs ys. rs = xs @ Inr m # ys \<and> (\<forall>x \<in> set xs. isl x))"
proof (induction e rs rule: firstSuccess.induct)
  case (2 e resp rs)
  have "resp = m \<Longrightarrow> \<exists>xs ys. Inr resp # rs = xs @ Inr m # ys \<and> (\<forall>x \<in> set xs. isl x)"
    by (intro exI [of _ "[]"] exI [of _ rs]) simp
  then show ?case by (auto simp: Cons_eq_append_conv)
next
  case (3 e e' rs)
  have "(\<exists>xs ys. rs = xs @ Inr m # ys \<and> (\<forall>x \<in> set xs. isl x)) \<Longrightarrow>
        (\<exists>xs ys. Inl e' # rs = xs @ Inr m # ys \<and> (\<forall>x \<in> set xs. isl x))"
    by (metis append_Cons set_ConsD sum.disc(1))
  with 3 show ?case by (auto simp: Cons_eq_append_conv)
qed simp

lemma firstSuccess_Inl: "(\<exists>e'. firstSuccess e rs = Inl e') \<longleftrightarrow> (\<forall>x \<in> set rs. isl x)"
  by (induction e rs rule: firstSuccess.induct) auto

lemma isl_iff: "isl x \<longleftrightarrow> (\<forall>m. x \<noteq> Inr m)"
  by (cases x) auto

lemma firstSuccess_member: "firstSuccess e rs = Inr m \<Longrightarrow> Inr m \<in> set rs"
  by (auto simp: firstSuccess_Inr)

lemma forwardToServer_Inr:
  "forwardToServer net k req s = Inr m \<longleftrightarrow>
     (\<exists>tr. transport s = Some tr \<and> un_Exchange net k tr (u_Address s) req = Some m)"
  by (auto simp: forwardToServer_def split: option.splits)

definition fair :: "upstream \<Rightarrow> bool" where
  "fair net \<longleftrightarrow> (\<forall>k rs. mset (un_arrival net k rs) = mset rs)"

lemma Forward_result:
  assumes "fair net" and "ListEnabledUpstreamServers now d (rs_cache r) = (Inr servers, d')"
    and "Forward net now req d r = (res, d1, r')"
  shows "res = Inr m \<Longrightarrow> \<exists>s \<in> set servers. forwardToServer net (rs_forwards r) req s = Inr m"
    and "(\<exists>m. res = Inr m) \<longleftrightarrow> (\<exists>s \<in> set servers. \<exists>m. forwardToServer net (rs_forwards r) req s = Inr m)"
proof -
  let ?k = "rs_forwards r"
  let ?res = "map (forwardToServer net ?k req) servers"
  have arr: "set (un_arrival net ?k ?res) = set ?res"
    using assms(1) unfolding fair_def by (metis set_mset_mset)
  consider (none) "servers = []" | (one) s where "servers = [s]" | (two) s t ss where "servers = s # t # ss"
    by (cases servers; cases "tl servers") auto
  then have "(res = Inr m \<longrightarrow> (\<exists>s \<in> set servers. forwardToServer net ?k req s = Inr m)) \<and>
     ((\<exists>m. res = Inr m) \<longleftrightarrow> (\<exists>s \<in> set servers. \<exists>m. forwardToServer net ?k req s = Inr m))"
  proof cases
    case two
    with assms have res: "res = firstSuccess NoServers (un_arrival net ?k ?res)"
      by (auto simp: Forward_def Let_def)
    have "(\<exists>m. res = Inr m) \<longleftrightarrow> \<not> (\<forall>x \<in> set ?res. isl x)"
      unfolding arr [symmetric] firstSuccess_Inl [of NoServers, symmetric] res [symmetric] by (cases res) auto
    moreover have "res = Inr m \<longrightarrow> Inr m \<in> set ?res"
      using firstSuccess_member [of NoServers "un_arrival net ?k ?res" m] res arr by auto
    ultimately show ?thesis using isl_iff by (auto simp: isl_iff)
  qed (use assms in \<open>auto simp: Forward_def Let_def\<close>)
  then show "res = Inr m \<Longrightarrow> \<exists>s \<in> set servers. forwardToServer net ?k req s = Inr m"
    and "(\<exists>m. res = Inr m) \<longleftrightarrow> (\<exists>s \<in> set servers. \<exists>m. forwardToServer net ?k req s = Inr m)"
    by blast+
qed

subsection \<open>Which servers are asked\<close>

lemma Forward_sent:
  assumes "Forward net now req d r = (res, d', r')"
  shows "\<exists>extra. sent r' = sent r @ extra \<and> (\<forall>x \<in> set extra. snd (snd x) = req)"
  using assms
  by (auto simp: Forward_def Let_def outgoing_def split: sum.splits prod.splits if_splits list.splits option.splits)

lemma Forward_tables: "Forward net now req d r = (res, d', r') \<Longrightarrow> tables d' = tables d \<and> rs_cache r' = rs_cache r"
  by (auto simp: Forward_def Let_def ListEnabledUpstreamServers_def
      split: sum.splits prod.splits if_splits list.splits option.splits dest: reader_tables)

text \<open>
  C34: Forwarding returns an answer exactly when some enabled server gives one, whatever order the
  answers arrive in, and then it is one of the answers those servers gave to this very query.
\<close>

theorem forward_first_success:
  assumes "\<forall>k rs. mset (un_arrival net k rs) = mset rs"
    and "ListEnabledUpstreamServers now d (rs_cache r) = (Inr servers, d1)"
  shows "(\<exists>m. fst (Forward net now req d r) = Inr m) =
           (\<exists>s \<in> set servers. u_Protocol s \<in> {''udp'', ''tcp'', ''tcp-tls''} \<and>
              un_Exchange net (rs_forwards r) (u_Protocol s) (u_Address s) req \<noteq> None) \<and>
         (\<forall>m. fst (Forward net now req d r) = Inr m \<longrightarrow>
           (\<exists>s \<in> set servers. un_Exchange net (rs_forwards r) (u_Protocol s) (u_Address s) req = Some m))"
proof -
  obtain res d' r' where f: "Forward net now req d r = (res, d', r')" by (metis prod_cases3)
  have fair: "fair net" using assms(1) by (simp add: fair_def)
  note R = Forward_result [OF fair assms(2) f]
  have tr: "transport s = Some p \<longleftrightarrow> p = u_Protocol s \<and> u_Protocol s \<in> {''udp'', ''tcp'', ''tcp-tls''}" for s p
    by (auto simp: transport_def)
  have "(\<exists>m. res = Inr m) =
           (\<exists>s \<in> set servers. u_Protocol s \<in> {''udp'', ''tcp'', ''tcp-tls''} \<and>
              un_Exchange net (rs_forwards r) (u_Protocol s) (u_Address s) req \<noteq> None)"
    unfolding R(2) forwardToServer_Inr tr by blast
  moreover have "\<exists>s \<in> set servers. un_Exchange net (rs_forwards r) (u_Protocol s) (u_Address s) req = Some m"
    if "res = Inr m" for m
    using R(1) [OF that] unfolding forwardToServer_Inr tr by blast
  ultimately show ?thesis using f by simp
qed

definition sample_server :: "rowid \<Rightarrow> string \<Rightarrow> string \<Rightarrow> UpstreamServer" where
  "sample_server i a p =
     \<lparr>u_ID = i, u_Name = a, u_Address = a, u_Protocol = p, u_Priority = i, u_Enabled = True,
      u_CreatedAt = 1, u_UpdatedAt = 1\<rparr>"

definition sample_query :: Msg where
  "sample_query =
     \<lparr>m_Id = 7, m_Response = False, m_Authoritative = False, m_RecursionDesired = True,
      m_RecursionAvailable = False, m_Rcode = 0,
      m_Question = [\<lparr>q_Name = ''Example.org.'', q_Qtype = 1, q_Qclass = 1\<rparr>],
      m_Answer = [], m_Ns = [], m_Opt = None\<rparr>"

text \<open>A network in which the first server is down and the second answers.\<close>

definition sample_net :: upstream where
  "sample_net = \<lparr>un_Exchange = (\<lambda>k tr a m. if a = ''9.9.9.9:53'' then Some (m\<lparr>m_Response := True\<rparr>) else None),
                 un_arrival = (\<lambda>_. rev)\<rparr>"

definition sample_upstream_db :: db where
  "sample_upstream_db =
     \<lparr>tables = (Migrate 1)\<lparr>t_upstreams := [sample_server 1 ''8.8.8.8:53'' ''udp'', sample_server 2 ''9.9.9.9:53'' ''tcp'']\<rparr>,
      faults = []\<rparr>"

lemma sample_servers:
  "ListEnabledUpstreamServers 5 sample_upstream_db (rs_cache NewResolver) =
     (Inr [sample_server 1 ''8.8.8.8:53'' ''udp'', sample_server 2 ''9.9.9.9:53'' ''tcp''], sample_upstream_db)"
  by (simp add: ListEnabledUpstreamServers_def upstreamCacheGet_def NewResolver_def NewUpstreamStorage_def
      NewUpstreamCache_def sample_upstream_db_def sample_server_def Migrate_def)

theorem forward_first_success_witness:
  "\<exists>m. fst (Forward sample_net 5 sample_query sample_upstream_db NewResolver) = Inr m"
proof -
  have "\<forall>k rs. mset (un_arrival sample_net k rs) = mset rs" by (simp add: sample_net_def)
  from forward_first_success [OF this sample_servers] show ?thesis
    by (simp add: sample_net_def sample_server_def NewResolver_def)
qed


end
