(* ===== verification/GslbStore.thy ===== *)
theory GslbStore
  imports Database
begin

section \<open>GSLB storage (gslb/policy.go, pool.go, healthcheck.go)\<close>

text \<open>
  Policies, pools, members and health checks with their caches. \<^verbatim>\<open>expected_codes\<close>, a JSON column,
  is the list it encodes. Deleting a policy cascades to its pools, their members and its checks.
\<close>

subsection \<open>Policies\<close>

record PolicyCache =
  pc_policies :: "string \<rightharpoonup> GSLBPolicy"
  pc_expiry :: instant
  pc_ttl :: int

definition NewPolicyCache :: "int \<Rightarrow> PolicyCache" where
  "NewPolicyCache ttl = \<lparr>pc_policies = Map.empty, pc_expiry = 0, pc_ttl = ttl\<rparr>"

definition cachePolicyKey :: "string \<Rightarrow> string \<Rightarrow> string" where
  "cachePolicyKey domain recordType = ToLower domain @ '':'' @ ToUpper recordType"

definition policyCacheGet :: "instant \<Rightarrow> string \<Rightarrow> PolicyCache \<Rightarrow> GSLBPolicy option" where
  "policyCacheGet now key c = (if now > pc_expiry c then None else pc_policies c key)"

definition policyCacheSet :: "instant \<Rightarrow> GSLBPolicy list \<Rightarrow> PolicyCache \<Rightarrow> PolicyCache" where
  "policyCacheSet now policies c =
     c\<lparr>pc_policies := foldl (\<lambda>m p. m(cachePolicyKey (p_Domain p) (p_RecordType p) \<mapsto> p)) Map.empty policies,
       pc_expiry := now + pc_ttl c\<rparr>"

definition policyCacheInvalidate :: "PolicyCache \<Rightarrow> PolicyCache" where
  "policyCacheInvalidate c = c\<lparr>pc_policies := Map.empty, pc_expiry := 0\<rparr>"

definition NewPolicyStorage :: PolicyCache where
  "NewPolicyStorage = NewPolicyCache (seconds 300)"

definition GetPolicy :: "rowid \<Rightarrow> db \<Rightarrow> (db_error + GSLBPolicy option) \<times> db" where
  "GetPolicy i = reader (\<lambda>t. find (\<lambda>p. p_ID p = i) (t_policies t))"

definition policyByDomain :: "string \<Rightarrow> string \<Rightarrow> tables \<Rightarrow> GSLBPolicy option" where
  "policyByDomain domain recordType t =
     find (\<lambda>p. p_Domain p = domain \<and> p_RecordType p = recordType \<and> p_Enabled p) (t_policies t)"

text \<open>A miss is not stored: only \<^verbatim>\<open>ListPolicies\<close> fills the cache.\<close>

definition GetPolicyByDomain ::
  "instant \<Rightarrow> string \<Rightarrow> string \<Rightarrow> db \<Rightarrow> PolicyCache \<Rightarrow> (db_error + GSLBPolicy option) \<times> db" where
  "GetPolicyByDomain now domain recordType d c =
     (case policyCacheGet now (cachePolicyKey domain recordType) c of
        Some p \<Rightarrow> (Inr (Some p), d)
      | None \<Rightarrow> reader (policyByDomain domain recordType) d)"

definition ListPolicies ::
  "instant \<Rightarrow> db \<Rightarrow> PolicyCache \<Rightarrow> (db_error + GSLBPolicy list) \<times> db \<times> PolicyCache" where
  "ListPolicies now d c =
     (case reader (\<lambda>t. sort_key p_ID (t_policies t)) d of
        (Inl e, d') \<Rightarrow> (Inl e, d', c)
      | (Inr policies, d') \<Rightarrow> (Inr policies, d', policyCacheSet now policies c))"

definition policyDefaults :: "GSLBPolicy \<Rightarrow> GSLBPolicy" where
  "policyDefaults p = p\<lparr>p_RecordType := (if p_RecordType p = [] then ''A'' else p_RecordType p)\<rparr>"

definition insertPolicy :: "instant \<Rightarrow> GSLBPolicy \<Rightarrow> tables \<Rightarrow> db_error + rowid \<times> tables" where
  "insertPolicy now p t =
     (let i = next_id TPolicies t;
          row = p\<lparr>p_ID := i, p_RecordType := ToUpper (p_RecordType p), p_CreatedAt := now\<rparr>
      in Inr (i, (take_id TPolicies t)\<lparr>t_policies := t_policies t @ [row]\<rparr>))"

definition CreatePolicy ::
  "instant \<Rightarrow> GSLBPolicy \<Rightarrow> db \<Rightarrow> PolicyCache \<Rightarrow> (db_error + rowid) \<times> db \<times> PolicyCache" where
  "CreatePolicy now p = store_write (insert_tx (insertPolicy now (policyDefaults p))) (\<lambda>_. policyCacheInvalidate)"

definition updatePolicyRow :: "GSLBPolicy \<Rightarrow> tables \<Rightarrow> db_error + int \<times> tables" where
  "updatePolicyRow p t =
     Inr (int (length (filter (\<lambda>y. p_ID y = p_ID p) (t_policies t))),
          t\<lparr>t_policies := map (\<lambda>y. if p_ID y = p_ID p
                then p\<lparr>p_RecordType := ToUpper (p_RecordType p), p_CreatedAt := p_CreatedAt y\<rparr> else y)
              (t_policies t)\<rparr>)"

definition UpdatePolicy ::
  "GSLBPolicy \<Rightarrow> db \<Rightarrow> PolicyCache \<Rightarrow> (db_error + unit) \<times> db \<times> PolicyCache" where
  "UpdatePolicy p = store_write (rows_tx (updatePolicyRow p)) (\<lambda>_. policyCacheInvalidate)"

definition poolsOf :: "rowid \<Rightarrow> tables \<Rightarrow> GSLBPool list" where
  "poolsOf i t = filter (\<lambda>y. pl_PolicyID y = i) (t_pools t)"

definition deletePolicyRow :: "rowid \<Rightarrow> tables \<Rightarrow> db_error + int \<times> tables" where
  "deletePolicyRow i t =
     (if \<not> list_ex (\<lambda>y. p_ID y = i) (t_policies t) then Inr (0, t)
      else Inr (int (length (filter (\<lambda>y. p_ID y = i) (t_policies t))),
           t\<lparr>t_policies := filter (\<lambda>y. p_ID y \<noteq> i) (t_policies t),
             t_pools := filter (\<lambda>y. pl_PolicyID y \<noteq> i) (t_pools t),
             t_members := filter (\<lambda>m. mb_PoolID m \<notin> set (map pl_ID (poolsOf i t))) (t_members t),
             t_checks := filter (\<lambda>h. hc_PolicyID h \<noteq> i) (t_checks t)\<rparr>))"

definition DeletePolicy :: "rowid \<Rightarrow> db \<Rightarrow> PolicyCache \<Rightarrow> (db_error + unit) \<times> db \<times> PolicyCache" where
  "DeletePolicy i = store_write (rows_tx (deletePolicyRow i)) (\<lambda>_. policyCacheInvalidate)"

subsection \<open>Pools and members\<close>

record PoolCache =
  pools :: "rowid \<rightharpoonup> GSLBPool list"
  members :: "rowid \<rightharpoonup> GSLBMember list"
  poolExpiry :: "rowid \<rightharpoonup> instant"
  memberExpiry :: "rowid \<rightharpoonup> instant"
  pool_ttl :: int

definition NewPoolCache :: "int \<Rightarrow> PoolCache" where
  "NewPoolCache ttl = \<lparr>pools = Map.empty, members = Map.empty, poolExpiry = Map.empty,
     memberExpiry = Map.empty, pool_ttl = ttl\<rparr>"

definition getPools :: "instant \<Rightarrow> rowid \<Rightarrow> PoolCache \<Rightarrow> GSLBPool list option" where
  "getPools now policyID c =
     (case poolExpiry c policyID of
        None \<Rightarrow> None
      | Some e \<Rightarrow> if now > e then None else pools c policyID)"

definition setPools :: "instant \<Rightarrow> rowid \<Rightarrow> GSLBPool list \<Rightarrow> PoolCache \<Rightarrow> PoolCache" where
  "setPools now policyID ps c =
     c\<lparr>pools := (pools c)(policyID \<mapsto> ps), poolExpiry := (poolExpiry c)(policyID \<mapsto> now + pool_ttl c)\<rparr>"

definition getMembers :: "instant \<Rightarrow> rowid \<Rightarrow> PoolCache \<Rightarrow> GSLBMember list option" where
  "getMembers now poolID c =
     (case memberExpiry c poolID of
        None \<Rightarrow> None
      | Some e \<Rightarrow> if now > e then None else members c poolID)"

definition setMembers :: "instant \<Rightarrow> rowid \<Rightarrow> GSLBMember list \<Rightarrow> PoolCache \<Rightarrow> PoolCache" where
  "setMembers now poolID ms c =
     c\<lparr>members := (members c)(poolID \<mapsto> ms), memberExpiry := (memberExpiry c)(poolID \<mapsto> now + pool_ttl c)\<rparr>"

definition poolInvalidate :: "rowid \<Rightarrow> PoolCache \<Rightarrow> PoolCache" where
  "poolInvalidate policyID c =
     c\<lparr>pools := (pools c)(policyID := None), poolExpiry := (poolExpiry c)(policyID := None)\<rparr>"

definition invalidateMembers :: "rowid \<Rightarrow> PoolCache \<Rightarrow> PoolCache" where
  "invalidateMembers poolID c =
     c\<lparr>members := (members c)(poolID := None), memberExpiry := (memberExpiry c)(poolID := None)\<rparr>"

definition NewPoolStorage :: PoolCache where
  "NewPoolStorage = NewPoolCache (seconds 300)"

definition GetPool :: "rowid \<Rightarrow> db \<Rightarrow> (db_error + GSLBPool option) \<times> db" where
  "GetPool i = reader (\<lambda>t. find (\<lambda>p. pl_ID p = i) (t_pools t))"

definition poolsByPolicy :: "rowid \<Rightarrow> tables \<Rightarrow> GSLBPool list" where
  "poolsByPolicy policyID t = sort_key pl_Priority (poolsOf policyID t)"

definition GetPoolsByPolicy ::
  "instant \<Rightarrow> rowid \<Rightarrow> db \<Rightarrow> PoolCache \<Rightarrow> (db_error + GSLBPool list) \<times> db \<times> PoolCache" where
  "GetPoolsByPolicy now policyID d c =
     read_through (getPools now policyID c) (poolsByPolicy policyID) (setPools now policyID) d c"

definition insertPool :: "GSLBPool \<Rightarrow> tables \<Rightarrow> db_error + rowid \<times> tables" where
  "insertPool p t =
     (if \<not> list_ex (\<lambda>y. p_ID y = pl_PolicyID p) (t_policies t) then Inl ConstraintFailed
      else let i = next_id TPools t
           in Inr (i, (take_id TPools t)\<lparr>t_pools := t_pools t @ [p\<lparr>pl_ID := i\<rparr>]\<rparr>))"

definition CreatePool :: "GSLBPool \<Rightarrow> db \<Rightarrow> PoolCache \<Rightarrow> (db_error + rowid) \<times> db \<times> PoolCache" where
  "CreatePool p = store_write (insert_tx (insertPool p)) (\<lambda>_. poolInvalidate (pl_PolicyID p))"

definition updatePoolRow :: "GSLBPool \<Rightarrow> tables \<Rightarrow> db_error + int \<times> tables" where
  "updatePoolRow p t =
     Inr (int (length (filter (\<lambda>y. pl_ID y = pl_ID p) (t_pools t))),
          t\<lparr>t_pools := map (\<lambda>y. if pl_ID y = pl_ID p then p\<lparr>pl_PolicyID := pl_PolicyID y\<rparr> else y) (t_pools t)\<rparr>)"

definition UpdatePool :: "GSLBPool \<Rightarrow> db \<Rightarrow> PoolCache \<Rightarrow> (db_error + unit) \<times> db \<times> PoolCache" where
  "UpdatePool p d c =
     (case GetPool (pl_ID p) d of
        (Inl e, d') \<Rightarrow> (Inl e, d', c)
      | (Inr None, d') \<Rightarrow> (Inl NotFound, d', c)
      | (Inr (Some existing), d') \<Rightarrow>
          store_write (rows_tx (updatePoolRow p)) (\<lambda>_. poolInvalidate (pl_PolicyID existing)) d' c)"

definition deletePoolRow :: "rowid \<Rightarrow> tables \<Rightarrow> db_error + int \<times> tables" where
  "deletePoolRow i t =
     (if \<not> list_ex (\<lambda>y. pl_ID y = i) (t_pools t) then Inr (0, t)
      else Inr (int (length (filter (\<lambda>y. pl_ID y = i) (t_pools t))),
           t\<lparr>t_pools := filter (\<lambda>y. pl_ID y \<noteq> i) (t_pools t),
             t_members := filter (\<lambda>m. mb_PoolID m \<noteq> i) (t_members t)\<rparr>))"

definition DeletePool :: "rowid \<Rightarrow> db \<Rightarrow> PoolCache \<Rightarrow> (db_error + unit) \<times> db \<times> PoolCache" where
  "DeletePool i d c =
     (case GetPool i d of
        (Inl e, d') \<Rightarrow> (Inl e, d', c)
      | (Inr None, d') \<Rightarrow> (Inl NotFound, d', c)
      | (Inr (Some pool), d') \<Rightarrow>
          store_write (rows_tx (deletePoolRow i)) (\<lambda>_. poolInvalidate (pl_PolicyID pool)) d' c)"

definition GetMember :: "rowid \<Rightarrow> db \<Rightarrow> (db_error + GSLBMember option) \<times> db" where
  "GetMember i = reader (\<lambda>t. find (\<lambda>m. mb_ID m = i) (t_members t))"

definition membersByPool :: "rowid \<Rightarrow> tables \<Rightarrow> GSLBMember list" where
  "membersByPool poolID t = sort_key mb_ID (filter (\<lambda>m. mb_PoolID m = poolID) (t_members t))"

definition GetMembersByPool ::
  "instant \<Rightarrow> rowid \<Rightarrow> db \<Rightarrow> PoolCache \<Rightarrow> (db_error + GSLBMember list) \<times> db \<times> PoolCache" where
  "GetMembersByPool now poolID d c =
     read_through (getMembers now poolID c) (membersByPool poolID) (setMembers now poolID) d c"

definition insertMember :: "GSLBMember \<Rightarrow> tables \<Rightarrow> db_error + rowid \<times> tables" where
  "insertMember m t =
     (if \<not> list_ex (\<lambda>y. pl_ID y = mb_PoolID m) (t_pools t) then Inl ConstraintFailed
      else let i = next_id TMembers t
           in Inr (i, (take_id TMembers t)\<lparr>t_members := t_members t @ [m\<lparr>mb_ID := i\<rparr>]\<rparr>))"

definition CreateMember :: "GSLBMember \<Rightarrow> db \<Rightarrow> PoolCache \<Rightarrow> (db_error + rowid) \<times> db \<times> PoolCache" where
  "CreateMember m = store_write (insert_tx (insertMember m)) (\<lambda>_. invalidateMembers (mb_PoolID m))"

definition updateMemberRow :: "GSLBMember \<Rightarrow> tables \<Rightarrow> db_error + int \<times> tables" where
  "updateMemberRow m t =
     Inr (int (length (filter (\<lambda>y. mb_ID y = mb_ID m) (t_members t))),
          t\<lparr>t_members := map (\<lambda>y. if mb_ID y = mb_ID m then m\<lparr>mb_PoolID := mb_PoolID y\<rparr> else y) (t_members t)\<rparr>)"

definition UpdateMember :: "GSLBMember \<Rightarrow> db \<Rightarrow> PoolCache \<Rightarrow> (db_error + unit) \<times> db \<times> PoolCache" where
  "UpdateMember m = store_write (rows_tx (updateMemberRow m)) (\<lambda>_. invalidateMembers (mb_PoolID m))"

definition deleteMemberRow :: "rowid \<Rightarrow> tables \<Rightarrow> db_error + int \<times> tables" where
  "deleteMemberRow i t =
     Inr (int (length (filter (\<lambda>y. mb_ID y = i) (t_members t))),
          t\<lparr>t_members := filter (\<lambda>y. mb_ID y \<noteq> i) (t_members t)\<rparr>)"

definition DeleteMember :: "rowid \<Rightarrow> db \<Rightarrow> PoolCache \<Rightarrow> (db_error + unit) \<times> db \<times> PoolCache" where
  "DeleteMember i d c =
     (case GetMember i d of
        (Inl e, d') \<Rightarrow> (Inl e, d', c)
      | (Inr None, d') \<Rightarrow> (Inl NotFound, d', c)
      | (Inr (Some m), d') \<Rightarrow>
          store_write (rows_tx (deleteMemberRow i)) (\<lambda>_. invalidateMembers (mb_PoolID m)) d' c)"

subsection \<open>Health checks\<close>

definition applyDefaults :: "HealthCheck \<Rightarrow> HealthCheck" where
  "applyDefaults h =
     (let ty = (if hc_CheckType h = [] then ''tcp'' else hc_CheckType h)
      in h\<lparr>hc_CheckType := ty,
           hc_IntervalSec := (if hc_IntervalSec h = 0 then 10 else hc_IntervalSec h),
           hc_TimeoutSec := (if hc_TimeoutSec h = 0 then 5 else hc_TimeoutSec h),
           hc_HealthyThreshold := (if hc_HealthyThreshold h = 0 then 3 else hc_HealthyThreshold h),
           hc_UnhealthyThreshold := (if hc_UnhealthyThreshold h = 0 then 2 else hc_UnhealthyThreshold h),
           hc_ExpectedCodes := (if (ty = ''http'' \<or> ty = ''https'') \<and> hc_ExpectedCodes h = []
                                then [200] else hc_ExpectedCodes h)\<rparr>)"

definition GetHealthCheck :: "rowid \<Rightarrow> db \<Rightarrow> (db_error + HealthCheck option) \<times> db" where
  "GetHealthCheck i = reader (\<lambda>t. find (\<lambda>h. hc_ID h = i) (t_checks t))"

definition GetHealthCheckByPolicy :: "rowid \<Rightarrow> db \<Rightarrow> (db_error + HealthCheck option) \<times> db" where
  "GetHealthCheckByPolicy policyID = reader (\<lambda>t. find (\<lambda>h. hc_PolicyID h = policyID) (t_checks t))"

definition ListHealthChecks :: "db \<Rightarrow> (db_error + HealthCheck list) \<times> db" where
  "ListHealthChecks = reader (\<lambda>t. sort_key hc_ID (t_checks t))"

definition insertCheck :: "HealthCheck \<Rightarrow> tables \<Rightarrow> db_error + rowid \<times> tables" where
  "insertCheck h t =
     (if \<not> list_ex (\<lambda>y. p_ID y = hc_PolicyID h) (t_policies t) then Inl ConstraintFailed
      else let i = next_id TChecks t
           in Inr (i, (take_id TChecks t)\<lparr>t_checks := t_checks t @ [h\<lparr>hc_ID := i\<rparr>]\<rparr>))"

definition CreateHealthCheck :: "HealthCheck \<Rightarrow> db \<Rightarrow> (db_error + rowid) \<times> db" where
  "CreateHealthCheck h = transaction (insert_tx (insertCheck (applyDefaults h)))"

definition updateCheckRow :: "HealthCheck \<Rightarrow> tables \<Rightarrow> db_error + int \<times> tables" where
  "updateCheckRow h t =
     Inr (int (length (filter (\<lambda>y. hc_ID y = hc_ID h) (t_checks t))),
          t\<lparr>t_checks := map (\<lambda>y. if hc_ID y = hc_ID h then h\<lparr>hc_PolicyID := hc_PolicyID y\<rparr> else y) (t_checks t)\<rparr>)"

definition UpdateHealthCheck :: "HealthCheck \<Rightarrow> db \<Rightarrow> (db_error + unit) \<times> db" where
  "UpdateHealthCheck h = transaction (rows_tx (updateCheckRow (applyDefaults h)))"

definition deleteCheckRow :: "rowid \<Rightarrow> tables \<Rightarrow> db_error + int \<times> tables" where
  "deleteCheckRow i t =
     Inr (int (length (filter (\<lambda>y. hc_ID y = i) (t_checks t))),
          t\<lparr>t_checks := filter (\<lambda>y. hc_ID y \<noteq> i) (t_checks t)\<rparr>)"

definition DeleteHealthCheck :: "rowid \<Rightarrow> db \<Rightarrow> (db_error + unit) \<times> db" where
  "DeleteHealthCheck i = transaction (rows_tx (deleteCheckRow i))"


subsection \<open>The caches in front of the tables\<close>

interpretation policy_cache: flush_read_cache
  "\<lambda>now (k :: string \<times> string) c. map_option Some (policyCacheGet now (cachePolicyKey (fst k) (snd k)) c)"
  "\<lambda>k. policyByDomain (fst k) (snd k)" "\<lambda>_ _ _ c. c" policyCacheInvalidate
  by unfold_locales (auto simp: policyCacheGet_def policyCacheInvalidate_def)

interpretation pool_cache: keyed_read_cache getPools poolsByPolicy setPools poolInvalidate
  by unfold_locales
    (auto simp: getPools_def setPools_def poolInvalidate_def split: option.splits if_splits)

interpretation member_cache: keyed_read_cache getMembers membersByPool setMembers invalidateMembers
  by unfold_locales
    (auto simp: getMembers_def setMembers_def invalidateMembers_def split: option.splits if_splits)

subsection \<open>Writes count versions\<close>

lemmas gslb_rows = insertPolicy_def updatePolicyRow_def deletePolicyRow_def insertPool_def updatePoolRow_def
  deletePoolRow_def insertMember_def updateMemberRow_def deleteMemberRow_def insertCheck_def
  updateCheckRow_def deleteCheckRow_def take_id_def next_id_def Let_def

text \<open>A statement that does not touch the version makes a transaction that raises it by one.\<close>

lemma insert_tx_version:
  "(\<And>i t'. stmt t = Inr (i, t') \<Longrightarrow> last_sync_version t' = last_sync_version t) \<Longrightarrow>
     insert_tx stmt t fs = (Inr (a, t''), fs') \<Longrightarrow> last_sync_version t'' = last_sync_version t + 1"
  by (auto dest!: insert_tx_Inr simp: bump_version_def)

lemma rows_tx_version:
  "(\<And>i t'. stmt t = Inr (i, t') \<Longrightarrow> last_sync_version t' = last_sync_version t) \<Longrightarrow>
     rows_tx stmt t fs = (Inr (a, t''), fs') \<Longrightarrow> last_sync_version t'' = last_sync_version t + 1"
  by (auto dest!: rows_tx_Inr simp: bump_version_def)

interpretation create_policy: versioned_write "insert_tx (insertPolicy now p)" "\<lambda>_. policyCacheInvalidate" for now p
  by (unfold_locales, erule insert_tx_version [rotated]) (auto simp: gslb_rows)

interpretation update_policy: versioned_write "rows_tx (updatePolicyRow p)" "\<lambda>_. policyCacheInvalidate" for p
  by (unfold_locales, erule rows_tx_version [rotated]) (auto simp: gslb_rows)

interpretation delete_policy: versioned_write "rows_tx (deletePolicyRow i)" "\<lambda>_. policyCacheInvalidate" for i
  by (unfold_locales, erule rows_tx_version [rotated]) (auto simp: gslb_rows split: if_splits)

interpretation create_pool: versioned_write "insert_tx (insertPool p)" "\<lambda>_. poolInvalidate i" for p i
  by (unfold_locales, erule insert_tx_version [rotated]) (auto simp: gslb_rows split: if_splits)

interpretation update_pool: versioned_write "rows_tx (updatePoolRow p)" "\<lambda>_. poolInvalidate i" for p i
  by (unfold_locales, erule rows_tx_version [rotated]) (auto simp: gslb_rows)

interpretation delete_pool: versioned_write "rows_tx (deletePoolRow j)" "\<lambda>_. poolInvalidate i" for i j
  by (unfold_locales, erule rows_tx_version [rotated]) (auto simp: gslb_rows split: if_splits)

interpretation create_member: versioned_write "insert_tx (insertMember m)" "\<lambda>_. invalidateMembers i" for m i
  by (unfold_locales, erule insert_tx_version [rotated]) (auto simp: gslb_rows split: if_splits)

interpretation update_member: versioned_write "rows_tx (updateMemberRow m)" "\<lambda>_. invalidateMembers i" for m i
  by (unfold_locales, erule rows_tx_version [rotated]) (auto simp: gslb_rows)

interpretation delete_member: versioned_write "rows_tx (deleteMemberRow j)" "\<lambda>_. invalidateMembers i" for i j
  by (unfold_locales, erule rows_tx_version [rotated]) (auto simp: gslb_rows)

subsection \<open>The foreign keys hold\<close>

lemma list_ex_key: "list_ex (\<lambda>y. f y = k) xs \<longleftrightarrow> k \<in> f ` set xs"
  by (auto simp: list_ex_iff)

lemmas gslb_keys = gslb_ok_def refers_def image_subset_iff list_ex_key

lemma keyed_update:
  assumes "keyed (map key xs) n" and "\<And>y. key (upd y) = i"
  shows "keyed (map (\<lambda>y. key (if key y = i then upd y else y)) xs) n"
proof -
  have "map (\<lambda>y. key (if key y = i then upd y else y)) xs = map key xs"
    using map_update_key [of key upd i xs] assms(2) by (simp add: comp_def)
  with assms(1) show ?thesis by (simp only:)
qed

lemma insertPolicy_ok: "insertPolicy now p t = Inr (i, t') \<Longrightarrow> gslb_ok t \<Longrightarrow> gslb_ok t'"
  by (auto simp: gslb_rows gslb_keys)

lemma insertPool_ok: "insertPool p t = Inr (i, t') \<Longrightarrow> gslb_ok t \<Longrightarrow> gslb_ok t'"
  by (auto simp: gslb_rows gslb_keys split: if_splits)

lemma insertMember_ok: "insertMember m t = Inr (i, t') \<Longrightarrow> gslb_ok t \<Longrightarrow> gslb_ok t'"
  by (auto simp: gslb_rows gslb_keys split: if_splits)

lemma insertCheck_ok: "insertCheck h t = Inr (i, t') \<Longrightarrow> gslb_ok t \<Longrightarrow> gslb_ok t'"
  by (auto simp: gslb_rows gslb_keys split: if_splits)

lemma deleteMemberRow_ok: "deleteMemberRow i t = Inr (n, t') \<Longrightarrow> gslb_ok t \<Longrightarrow> gslb_ok t'"
  by (auto simp: gslb_rows gslb_ok_def)

lemma deleteCheckRow_ok: "deleteCheckRow i t = Inr (n, t') \<Longrightarrow> gslb_ok t \<Longrightarrow> gslb_ok t'"
  by (auto simp: gslb_rows gslb_ok_def)

text \<open>\<^verbatim>\<open>ON DELETE CASCADE\<close>: rows that refer to a deleted row go with it.\<close>

lemma refers_cascade:
  assumes "refers (map f xs) (map key ys)"
    and "\<And>x y. x \<in> set xs \<Longrightarrow> Q x \<Longrightarrow> y \<in> set ys \<Longrightarrow> key y = f x \<Longrightarrow> P y"
  shows "refers (map f (filter Q xs)) (map key (filter P ys))"
  unfolding refers_def
proof
  fix k
  assume "k \<in> set (map f (filter Q xs))"
  then obtain x where x: "x \<in> set xs" "Q x" "k = f x" by auto
  with assms(1) obtain y where "y \<in> set ys" "key y = f x" by (fastforce simp: refers_def)
  with x assms(2) show "k \<in> set (map key (filter P ys))" by (auto intro!: image_eqI [of _ _ y])
qed

lemma deletePoolRow_ok: "deletePoolRow i t = Inr (n, t') \<Longrightarrow> gslb_ok t \<Longrightarrow> gslb_ok t'"
  by (auto simp: gslb_rows gslb_ok_def split: if_splits intro!: refers_cascade)

lemma deletePolicyRow_ok: "deletePolicyRow i t = Inr (n, t') \<Longrightarrow> gslb_ok t \<Longrightarrow> gslb_ok t'"
  by (auto simp: gslb_rows gslb_ok_def poolsOf_def image_iff split: if_splits intro!: refers_cascade) metis

lemma map_other_column:
  assumes "\<And>y. col (upd y) = col y"
  shows "map col (map (\<lambda>y. if C y then upd y else y) xs) = map col xs"
  using assms by (induction xs) auto

lemma updatePolicyRow_ok: "updatePolicyRow p t = Inr (n, t') \<Longrightarrow> gslb_ok t \<Longrightarrow> gslb_ok t'"
  using map_update_key [of p_ID "\<lambda>y. p\<lparr>p_RecordType := ToUpper (p_RecordType p), p_CreatedAt := p_CreatedAt y\<rparr>" "p_ID p" "t_policies t"]
  by (auto simp: updatePolicyRow_def gslb_ok_def simp del: map_map list.map_comp map_eq_conv)

lemma updatePoolRow_ok: "updatePoolRow p t = Inr (n, t') \<Longrightarrow> gslb_ok t \<Longrightarrow> gslb_ok t'"
  using map_update_key [of pl_ID "\<lambda>y. p\<lparr>pl_PolicyID := pl_PolicyID y\<rparr>" "pl_ID p" "t_pools t"]
    map_other_column [of pl_PolicyID "\<lambda>y. p\<lparr>pl_PolicyID := pl_PolicyID y\<rparr>" "\<lambda>y. pl_ID y = pl_ID p" "t_pools t"]
  by (auto simp: updatePoolRow_def gslb_ok_def simp del: map_map list.map_comp map_eq_conv)

lemma updateMemberRow_ok: "updateMemberRow m t = Inr (n, t') \<Longrightarrow> gslb_ok t \<Longrightarrow> gslb_ok t'"
  using map_update_key [of mb_ID "\<lambda>y. m\<lparr>mb_PoolID := mb_PoolID y\<rparr>" "mb_ID m" "t_members t"]
    map_other_column [of mb_PoolID "\<lambda>y. m\<lparr>mb_PoolID := mb_PoolID y\<rparr>" "\<lambda>y. mb_ID y = mb_ID m" "t_members t"]
  by (auto simp: updateMemberRow_def gslb_ok_def simp del: map_map list.map_comp map_eq_conv)

lemma updateCheckRow_ok: "updateCheckRow h t = Inr (n, t') \<Longrightarrow> gslb_ok t \<Longrightarrow> gslb_ok t'"
  using map_update_key [of hc_ID "\<lambda>y. h\<lparr>hc_PolicyID := hc_PolicyID y\<rparr>" "hc_ID h" "t_checks t"]
    map_other_column [of hc_PolicyID "\<lambda>y. h\<lparr>hc_PolicyID := hc_PolicyID y\<rparr>" "\<lambda>y. hc_ID y = hc_ID h" "t_checks t"]
  by (auto simp: updateCheckRow_def gslb_ok_def simp del: map_map list.map_comp map_eq_conv)


subsection \<open>Histories of the GSLB store\<close>

text \<open>One write, or a read through a cache, by one caller at a time; any call may fail.\<close>

inductive gslb_step :: "db \<times> PolicyCache \<times> PoolCache \<Rightarrow> db \<times> PolicyCache \<times> PoolCache \<Rightarrow> bool" where
  "CreatePolicy now p d c = (r, d', c') \<Longrightarrow> gslb_step (d, c, m) (d', c', m)"
| "UpdatePolicy p d c = (u, d', c') \<Longrightarrow> gslb_step (d, c, m) (d', c', m)"
| "DeletePolicy i d c = (u, d', c') \<Longrightarrow> gslb_step (d, c, m) (d', c', m)"
| "ListPolicies now d c = (l, d', c') \<Longrightarrow> gslb_step (d, c, m) (d', c', m)"
| "CreatePool pl d m = (r, d', m') \<Longrightarrow> gslb_step (d, c, m) (d', c, m')"
| "UpdatePool pl d m = (u, d', m') \<Longrightarrow> gslb_step (d, c, m) (d', c, m')"
| "DeletePool i d m = (u, d', m') \<Longrightarrow> gslb_step (d, c, m) (d', c, m')"
| "GetPoolsByPolicy now i d m = (ps, d', m') \<Longrightarrow> gslb_step (d, c, m) (d', c, m')"
| "CreateMember mb d m = (r, d', m') \<Longrightarrow> gslb_step (d, c, m) (d', c, m')"
| "UpdateMember mb d m = (u, d', m') \<Longrightarrow> gslb_step (d, c, m) (d', c, m')"
| "DeleteMember i d m = (u, d', m') \<Longrightarrow> gslb_step (d, c, m) (d', c, m')"
| "GetMembersByPool now i d m = (ms, d', m') \<Longrightarrow> gslb_step (d, c, m) (d', c, m')"
| "CreateHealthCheck h d = (r, d') \<Longrightarrow> gslb_step (d, c, m) (d', c, m)"
| "UpdateHealthCheck h d = (u, d') \<Longrightarrow> gslb_step (d, c, m) (d', c, m)"
| "DeleteHealthCheck i d = (u, d') \<Longrightarrow> gslb_step (d, c, m) (d', c, m)"

inductive gslb_reach :: "db \<times> PolicyCache \<times> PoolCache \<Rightarrow> db \<times> PolicyCache \<times> PoolCache \<Rightarrow> bool" where
  gslb_refl: "gslb_reach s s"
| gslb_more: "gslb_reach s s' \<Longrightarrow> gslb_step s' s'' \<Longrightarrow> gslb_reach s s''"

text \<open>What one step does to the tables: nothing, or a change that keeps the schema, leaves zones and records, and counts.\<close>

definition zonePart :: "tables \<Rightarrow> Zone list \<times> Record list \<times> rowid \<times> rowid" where
  "zonePart t = (t_zones t, t_records t, t_seq t TZones, t_seq t TRecords)"

definition counted :: "tables \<Rightarrow> tables \<Rightarrow> bool" where
  "counted t t' \<longleftrightarrow> t' = t \<or> (last_sync_version t' = last_sync_version t + 1 \<and> zonePart t' = zonePart t \<and> (gslb_ok t \<longrightarrow> gslb_ok t'))"

lemma counted_refl [simp]: "counted t t"
  by (simp add: counted_def)

lemma transaction_counted:
  assumes "\<And>fs a t fs'. body (tables d) fs = (Inr (a, t), fs') \<Longrightarrow> counted (tables d) t"
    and "transaction body d = (r, d')"
  shows "counted (tables d) (tables d')"
  by (rule transaction_cases [of body d]) (use assms in auto)

lemma store_write_counted:
  assumes "\<And>fs a t fs'. body (tables d) fs = (Inr (a, t), fs') \<Longrightarrow> counted (tables d) t"
    and "store_write body ival d c = (r, d', c')"
  shows "counted (tables d) (tables d')"
  by (rule store_write_cases [of body ival d c]) (use assms in auto)

lemma insert_tx_counted:
  assumes "\<And>i t'. stmt t = Inr (i, t') \<Longrightarrow> last_sync_version t' = last_sync_version t \<and> zonePart t' = zonePart t \<and> (gslb_ok t \<longrightarrow> gslb_ok t')"
    and "insert_tx stmt t fs = (Inr (a, t''), fs')"
  shows "counted t t''"
  using insert_tx_Inr [OF assms(2)] assms(1) by (auto simp: counted_def bump_version_def gslb_ok_def zonePart_def)

lemma rows_tx_counted:
  assumes "\<And>i t'. stmt t = Inr (i, t') \<Longrightarrow> last_sync_version t' = last_sync_version t \<and> zonePart t' = zonePart t \<and> (gslb_ok t \<longrightarrow> gslb_ok t')"
    and "rows_tx stmt t fs = (Inr (a, t''), fs')"
  shows "counted t t''"
  using rows_tx_Inr [OF assms(2)] assms(1) by (auto simp: counted_def bump_version_def gslb_ok_def zonePart_def)

lemma gslb_rows_version:
  "insertPolicy now p t = Inr (i, t') \<Longrightarrow> last_sync_version t' = last_sync_version t \<and> zonePart t' = zonePart t"
  "updatePolicyRow p t = Inr (n, t') \<Longrightarrow> last_sync_version t' = last_sync_version t \<and> zonePart t' = zonePart t"
  "deletePolicyRow j t = Inr (n, t') \<Longrightarrow> last_sync_version t' = last_sync_version t \<and> zonePart t' = zonePart t"
  "insertPool pl t = Inr (i, t') \<Longrightarrow> last_sync_version t' = last_sync_version t \<and> zonePart t' = zonePart t"
  "updatePoolRow pl t = Inr (n, t') \<Longrightarrow> last_sync_version t' = last_sync_version t \<and> zonePart t' = zonePart t"
  "deletePoolRow j t = Inr (n, t') \<Longrightarrow> last_sync_version t' = last_sync_version t \<and> zonePart t' = zonePart t"
  "insertMember m t = Inr (i, t') \<Longrightarrow> last_sync_version t' = last_sync_version t \<and> zonePart t' = zonePart t"
  "updateMemberRow m t = Inr (n, t') \<Longrightarrow> last_sync_version t' = last_sync_version t \<and> zonePart t' = zonePart t"
  "deleteMemberRow j t = Inr (n, t') \<Longrightarrow> last_sync_version t' = last_sync_version t \<and> zonePart t' = zonePart t"
  "insertCheck h t = Inr (i, t') \<Longrightarrow> last_sync_version t' = last_sync_version t \<and> zonePart t' = zonePart t"
  "updateCheckRow h t = Inr (n, t') \<Longrightarrow> last_sync_version t' = last_sync_version t \<and> zonePart t' = zonePart t"
  "deleteCheckRow j t = Inr (n, t') \<Longrightarrow> last_sync_version t' = last_sync_version t \<and> zonePart t' = zonePart t"
  by (auto simp: gslb_rows zonePart_def split: if_splits)

lemmas gslb_rows_ok =
  insertPolicy_ok updatePolicyRow_ok deletePolicyRow_ok insertPool_ok updatePoolRow_ok deletePoolRow_ok
  insertMember_ok updateMemberRow_ok deleteMemberRow_ok insertCheck_ok updateCheckRow_ok deleteCheckRow_ok

text \<open>An operation that looks a row up first and then writes.\<close>

lemma lookup_write_counted:
  assumes "(case reader q d of (Inl e, d1) \<Rightarrow> (Inl e, d1, c) | (Inr None, d1) \<Rightarrow> (Inl NotFound, d1, c)
      | (Inr (Some x), d1) \<Rightarrow> store_write (rows_tx stmt) (ival x) d1 c) = (r, d', c')"
    and "\<And>i t'. stmt (tables d) = Inr (i, t') \<Longrightarrow>
           last_sync_version t' = last_sync_version (tables d) \<and> zonePart t' = zonePart (tables d) \<and> (gslb_ok (tables d) \<longrightarrow> gslb_ok t')"
  shows "counted (tables d) (tables d')"
proof -
  obtain g d1 where g: "reader q d = (g, d1)" by fastforce
  then have t1: "tables d1 = tables d" by (rule reader_tables)
  have w: "counted (tables d) (tables d')" if "store_write (rows_tx stmt) iv d1 c = (r, d', c')" for iv
    using store_write_counted [OF _ that] rows_tx_counted [of stmt "tables d"] assms(2) t1 by metis
  from assms(1) g t1 w show ?thesis by (auto split: sum.splits option.splits)
qed

lemma gslb_step_counted:
  assumes "gslb_step s s'"
  shows "counted (tables (fst s)) (tables (fst s'))"
  using assms
proof (cases rule: gslb_step.cases)
  case (6 pl d m u d' m' c)
  then show ?thesis
    using lookup_write_counted [OF 6(3) [unfolded UpdatePool_def GetPool_def]] gslb_rows_ok gslb_rows_version by auto
next
  case (7 i d m u d' m' c)
  then show ?thesis
    using lookup_write_counted [OF 7(3) [unfolded DeletePool_def GetPool_def]] gslb_rows_ok gslb_rows_version by auto
next
  case (11 i d m u d' m' c)
  then show ?thesis
    using lookup_write_counted [OF 11(3) [unfolded DeleteMember_def GetMember_def]] gslb_rows_ok gslb_rows_version by auto
qed (auto simp: CreatePolicy_def UpdatePolicy_def DeletePolicy_def CreatePool_def CreateMember_def UpdateMember_def
    CreateHealthCheck_def UpdateHealthCheck_def DeleteHealthCheck_def ListPolicies_def GetPoolsByPolicy_def
    GetMembersByPool_def
    dest!: read_through_tables reader_tables split: prod.splits sum.splits
    elim!: store_write_counted [rotated] transaction_counted [rotated] insert_tx_counted [rotated] rows_tx_counted [rotated]
    dest: gslb_rows_ok gslb_rows_version)


lemma gslb_reach_counted:
  "gslb_reach s s' \<Longrightarrow> gslb_ok (tables (fst s)) \<Longrightarrow>
     gslb_ok (tables (fst s')) \<and> (tables (fst s') = tables (fst s)
       \<or> last_sync_version (tables (fst s)) < last_sync_version (tables (fst s')))"
proof (induction rule: gslb_reach.induct)
  case (gslb_more s s' s'')
  with gslb_step_counted [OF gslb_more(2)] show ?case by (auto simp: counted_def)
qed simp

text \<open>
  C29: GSLB writes keep the schema and are never silent. After any history of policy, pool, member and
  health-check operations, failures included, keys are unique, every pool and check refers to an
  existing policy and every member to an existing pool; and either the database is as it was,
  or its synchronisation version has grown, so that a secondary that compares versions notices.
\<close>

theorem gslb_history:
  assumes "gslb_reach (d, c, m) (d', c', m')" and "gslb_ok (tables d)"
  shows "gslb_ok (tables d') \<and> (tables d' = tables d
           \<or> last_sync_version (tables d) < last_sync_version (tables d'))"
  using gslb_reach_counted [OF assms(1)] assms(2) by simp

definition sample_policy :: GSLBPolicy where
  "sample_policy = \<lparr>p_ID = 0, p_Name = ''web'', p_Domain = ''www.example.com.'', p_RecordType = ''a'', p_TTL = 30,
     p_Enabled = True, p_CreatedAt = 0\<rparr>"

theorem gslb_history_witness:
  "case DeletePolicy 1 (fst (snd (CreatePolicy 7 sample_policy \<lparr>tables = Migrate 1, faults = []\<rparr> NewPolicyStorage)))
          NewPolicyStorage of
     (r, d', _) \<Rightarrow> r = Inr () \<and> gslb_ok (tables d') \<and> last_sync_version (tables d') = 2"
proof -
  let ?d0 = "\<lparr>tables = Migrate 1, faults = []\<rparr>"
  obtain r1 d1 c1 where 1: "CreatePolicy 7 sample_policy ?d0 NewPolicyStorage = (r1, d1, c1)"
    by (metis prod_cases3)
  obtain r2 d2 c2 where 2: "DeletePolicy 1 d1 NewPolicyStorage = (r2, d2, c2)" by (metis prod_cases3)
  have c1: "c1 = NewPolicyStorage" using 1 by (auto simp: CreatePolicy_def store_write_def sample_policy_def
        NewPolicyStorage_def NewPolicyCache_def policyCacheInvalidate_def split: prod.splits sum.splits)
  have "gslb_reach (?d0, NewPolicyStorage, NewPoolStorage) (d2, c2, NewPoolStorage)"
    using gslb_more [OF gslb_more [OF gslb_refl gslb_step.intros(1) [OF 1]]] gslb_step.intros(3) [OF 2] c1 by blast
  from gslb_history [OF this] schema_Migrate(3) have "gslb_ok (tables d2)" by simp
  moreover have "r2 = Inr ()" "last_sync_version (tables d2) = 2"
    using 1 2 by (auto simp: CreatePolicy_def DeletePolicy_def store_write_def transaction_def tx_bind_def tx_ok_def
        tx_call_def tx_return_def insert_tx_def rows_tx_def tx_affected_def IncrementVersion_def bump_version_def
        gslb_rows Migrate_def)
  ultimately show ?thesis using 1 2 by simp
qed

end
