(* ===== verification/GslbEngine.thy ===== *)
theory GslbEngine
  imports GslbStore
begin

section \<open>The GSLB engine (gslb/engine.go, gslb/health_status.go)\<close>

text \<open>
  Choosing the answers of a load-balanced name. The GeoIP database is the parameter \<open>geo\<close>
  (\<open>None\<close>: no database; otherwise country and continent of an address, or an error), the random
  generator the parameter \<open>pick\<close>, of which \<^verbatim>\<open>rand.Int63n\<close> documents \<open>0 \<le> pick n < n\<close>. \<^verbatim>\<open>Int63n\<close>
  panics unless its argument is positive; the sum of weights is an \<^verbatim>\<open>int64\<close> and may wrap.
\<close>

record HealthStatus =
  Healthy :: bool
  ConsecutiveFails :: int
  ConsecutiveOKs :: int
  LastCheck :: instant
  LastError :: string

type_synonym health_map = "rowid \<rightharpoonup> HealthStatus"
type_synonym geoip = "(string \<Rightarrow> (string \<times> string) option) option"

datatype resolve_error = StorageError db_error | MemberIPError string | Int63nPanic

definition HasDomain :: "instant \<Rightarrow> string \<Rightarrow> db \<Rightarrow> PolicyCache \<Rightarrow> bool \<times> db" where
  "HasDomain now domain d c =
     (case GetPolicyByDomain now domain ''A'' d c of
        (Inr (Some _), d') \<Rightarrow> (True, d')
      | (_, d') \<Rightarrow>
          (case GetPolicyByDomain now domain ''AAAA'' d' c of
             (Inr (Some _), d'') \<Rightarrow> (True, d'')
           | (_, d'') \<Rightarrow> (False, d'')))"

definition matchPool :: "geoip \<Rightarrow> GSLBPool \<Rightarrow> ip option \<Rightarrow> bool" where
  "matchPool geo pool clientIP =
     (let ty = ToLower (pl_MatchType pool)
      in if ty = ''cidr'' then
           (case clientIP of
              None \<Rightarrow> False
            | Some a \<Rightarrow> (case ParseCIDR (pl_MatchValue pool) of None \<Rightarrow> False | Some c \<Rightarrow> Contains c a))
         else if ty = ''geo_country'' then
           (case (clientIP, geo) of
              (Some a, Some g) \<Rightarrow>
                (case g (ip_string a) of None \<Rightarrow> False | Some (country, _) \<Rightarrow> EqualFold country (pl_MatchValue pool))
            | _ \<Rightarrow> False)
         else if ty = ''geo_continent'' then
           (case (clientIP, geo) of
              (Some a, Some g) \<Rightarrow>
                (case g (ip_string a) of None \<Rightarrow> False | Some (_, continent) \<Rightarrow> EqualFold continent (pl_MatchValue pool))
            | _ \<Rightarrow> False)
         else ty = ''default'')"

definition totalWeight :: "GSLBMember list \<Rightarrow> int" where
  "totalWeight ms = foldl (\<lambda>total m. if mb_Weight m > 0 then wrap64 (total + mb_Weight m) else total) 0 ms"

fun pickLoop :: "int \<Rightarrow> int \<Rightarrow> GSLBMember list \<Rightarrow> GSLBMember option" where
  "pickLoop pick acc [] = None"
| "pickLoop pick acc (m # ms) =
     (if mb_Weight m \<le> 0 then pickLoop pick acc ms
      else let acc' = wrap64 (acc + mb_Weight m)
           in if pick < acc' then Some m else pickLoop pick acc' ms)"

definition weightedSelect :: "(int \<Rightarrow> int) \<Rightarrow> GSLBMember list \<Rightarrow> resolve_error + GSLBMember option" where
  "weightedSelect pick ms =
     (case ms of
        [] \<Rightarrow> Inr None
      | m0 # _ \<Rightarrow>
          let total = totalWeight ms
          in if total = 0 then Inr (Some m0)
             else if total < 0 then Inl Int63nPanic
             else (case pickLoop (pick total) 0 ms of
                     Some m \<Rightarrow> Inr (Some m)
                   | None \<Rightarrow> Inr (Some m0)))"

definition memberUp :: "health_map \<Rightarrow> GSLBMember \<Rightarrow> bool" where
  "memberUp hs m \<longleftrightarrow> mb_Enabled m \<and> (case hs (mb_ID m) of None \<Rightarrow> True | Some st \<Rightarrow> Healthy st)"

definition selectMembers ::
  "(int \<Rightarrow> int) \<Rightarrow> health_map \<Rightarrow> GSLBMember list \<Rightarrow> resolve_error + GSLBMember list \<times> bool" where
  "selectMembers pick hs ms =
     (if ms = [] then Inr ([], False)
      else let healthy = filter (memberUp hs) ms;
               allEnabled = filter mb_Enabled ms;
               rest = (if allEnabled \<noteq> [] then (allEnabled, True) else ([], False))
           in if healthy \<noteq> [] then
                (case weightedSelect pick healthy of
                   Inl e \<Rightarrow> Inl e
                 | Inr (Some m) \<Rightarrow> Inr ([m], False)
                 | Inr None \<Rightarrow> Inr rest)
              else Inr rest)"

text \<open>The loop over the pools: the last fallback pool, and the first pool that matches the client.\<close>

fun choosePools ::
  "geoip \<Rightarrow> ip option \<Rightarrow> GSLBPool option \<Rightarrow> GSLBPool option \<Rightarrow> GSLBPool list
     \<Rightarrow> GSLBPool option \<times> GSLBPool option" where
  "choosePools geo client matched fallback [] = (matched, fallback)"
| "choosePools geo client matched fallback (pool # rest) =
     (let fallback' = (if pl_FallbackPool pool then Some pool else fallback);
          matched' = (if matched = None \<and> matchPool geo pool client then Some pool else matched)
      in choosePools geo client matched' fallback' rest)"

text \<open>What the fallback pool changes about a selection that failed or is empty.\<close>

definition applyFallback ::
  "(int \<Rightarrow> int) \<Rightarrow> health_map \<Rightarrow> GSLBMember list \<times> bool \<Rightarrow> GSLBMember list
     \<Rightarrow> resolve_error + GSLBMember list \<times> bool" where
  "applyFallback pick hs sel fallbackMembers =
     (case sel of (selected, allFailed) \<Rightarrow>
        let emptyPool = (selected = [] \<and> \<not> allFailed)
        in if fallbackMembers = [] then Inr sel
           else (case selectMembers pick hs fallbackMembers of
                   Inl e \<Rightarrow> Inl e
                 | Inr (fallbackSelected, fallbackAllFailed) \<Rightarrow>
                     if fallbackSelected \<noteq> [] then
                       (if \<not> fallbackAllFailed then Inr (fallbackSelected, False)
                        else if emptyPool then Inr (fallbackSelected, True)
                        else Inr sel)
                     else Inr sel))"

fun memberIPs :: "GSLBMember list \<Rightarrow> resolve_error + ip list" where
  "memberIPs [] = Inr []"
| "memberIPs (m # ms) =
     (case ParseIP (mb_Address m) of
        None \<Rightarrow> Inl (MemberIPError (mb_Address m))
      | Some a \<Rightarrow> and_then (memberIPs ms) (\<lambda>ips. Inr (a # ips)))"

definition resolveAnswer ::
  "GSLBPolicy \<Rightarrow> GSLBMember list \<times> bool \<Rightarrow> resolve_error + ip list \<times> 32 word" where
  "resolveAnswer policy sel =
     (case sel of (selected, allFailed) \<Rightarrow>
        if selected = [] then Inr ([], 0)
        else and_then (memberIPs selected) (\<lambda>ips.
               Inr (if allFailed then ips else take 1 ips, word_of_int (p_TTL policy))))"

definition resolvePools ::
  "instant \<Rightarrow> (int \<Rightarrow> int) \<Rightarrow> health_map \<Rightarrow> GSLBPolicy \<Rightarrow> GSLBPool \<Rightarrow> GSLBPool option
     \<Rightarrow> db \<Rightarrow> PoolCache \<Rightarrow> (resolve_error + ip list \<times> 32 word) \<times> db \<times> PoolCache" where
  "resolvePools now pick hs policy matched fallback d c =
     (case GetMembersByPool now (pl_ID matched) d c of
        (Inl e, s) \<Rightarrow> (Inl (StorageError e), s)
      | (Inr ms, (d1, c1)) \<Rightarrow>
          (case selectMembers pick hs ms of
             Inl e \<Rightarrow> (Inl e, d1, c1)
           | Inr (selected, allFailed) \<Rightarrow>
               (case fallback of
                  Some fb \<Rightarrow>
                    if (allFailed \<or> (selected = [] \<and> \<not> allFailed)) \<and> pl_ID fb \<noteq> pl_ID matched then
                      (case GetMembersByPool now (pl_ID fb) d1 c1 of
                         (Inl _, s) \<Rightarrow> (resolveAnswer policy (selected, allFailed), s)
                       | (Inr fms, s) \<Rightarrow>
                           (and_then (applyFallback pick hs (selected, allFailed) fms) (resolveAnswer policy), s))
                    else (resolveAnswer policy (selected, allFailed), d1, c1)
                | None \<Rightarrow> (resolveAnswer policy (selected, allFailed), d1, c1))))"

definition Resolve ::
  "instant \<Rightarrow> geoip \<Rightarrow> (int \<Rightarrow> int) \<Rightarrow> health_map \<Rightarrow> string \<Rightarrow> string \<Rightarrow> ip option
     \<Rightarrow> db \<Rightarrow> PolicyCache \<Rightarrow> PoolCache \<Rightarrow> (resolve_error + ip list \<times> 32 word) \<times> db \<times> PoolCache" where
  "Resolve now geo pick hs domain qtype clientIP d pc c =
     (case GetPolicyByDomain now domain qtype d pc of
        (Inl e, d1) \<Rightarrow> (Inl (StorageError e), d1, c)
      | (Inr None, d1) \<Rightarrow> (Inr ([], 0), d1, c)
      | (Inr (Some policy), d1) \<Rightarrow>
          (case GetPoolsByPolicy now (p_ID policy) d1 c of
             (Inl e, s) \<Rightarrow> (Inl (StorageError e), s)
           | (Inr ps, (d2, c2)) \<Rightarrow>
               (case choosePools geo clientIP None None ps of (matched, fallback) \<Rightarrow>
                  (case (if matched = None then fallback else matched) of
                     None \<Rightarrow> (Inr ([], 0), d2, c2)
                   | Some pool \<Rightarrow> resolvePools now pick hs policy pool fallback d2 c2))))"


subsection \<open>Weights\<close>

definition wsum :: "GSLBMember list \<Rightarrow> int" where
  "wsum ms = (\<Sum>m\<leftarrow>ms. max 0 (mb_Weight m))"

lemma wsum_simps [simp]:
  "wsum [] = 0" "wsum (m # ms) = max 0 (mb_Weight m) + wsum ms" "wsum (xs @ ys) = wsum xs + wsum ys"
  by (simp_all add: wsum_def)

lemma wsum_nonneg: "0 \<le> wsum ms"
  by (induction ms) auto

lemma totalWeight_fold:
  "0 \<le> acc \<Longrightarrow> acc + wsum ms < 2 ^ 63 \<Longrightarrow>
     foldl (\<lambda>total m. if mb_Weight m > 0 then wrap64 (total + mb_Weight m) else total) acc ms = acc + wsum ms"
proof (induction ms arbitrary: acc)
  case (Cons m ms)
  have "0 \<le> wsum ms" by (rule wsum_nonneg)
  with Cons.prems have "mb_Weight m > 0 \<Longrightarrow> int64_range (acc + mb_Weight m)"
    by (auto simp: int64_range_def)
  with Cons.IH [of "acc + max 0 (mb_Weight m)"] Cons.prems show ?case
    by (cases "mb_Weight m > 0") (simp_all add: max.absorb1 max.absorb2 add.assoc)
qed simp

lemma totalWeight_eq: "wsum ms < 2 ^ 63 \<Longrightarrow> totalWeight ms = wsum ms"
  using totalWeight_fold [of 0 ms] by (simp add: totalWeight_def)

text \<open>The loop returns the member whose interval of the running sum contains the pick.\<close>

lemma pickLoop_interval:
  assumes "0 \<le> acc" and "acc + wsum (xs @ m # ys) < 2 ^ 63" and "acc + wsum xs \<le> p"
    and "p < acc + wsum xs + mb_Weight m"
  shows "pickLoop p acc (xs @ m # ys) = Some m"
  using assms
proof (induction xs arbitrary: acc)
  case Nil
  have "0 \<le> wsum ys" by (rule wsum_nonneg)
  with Nil have "int64_range (acc + mb_Weight m)" by (auto simp: int64_range_def)
  with Nil show ?case by (auto simp: Let_def)
next
  case (Cons x xs)
  have nn: "0 \<le> wsum ys" "0 \<le> wsum xs" by (rule wsum_nonneg)+
  show ?case
  proof (cases "mb_Weight x \<le> 0")
    case True
    with Cons show ?thesis by simp
  next
    case False
    with Cons.prems nn have r: "int64_range (acc + mb_Weight x)" by (auto simp: int64_range_def)
    from False Cons.prems nn have "\<not> p < acc + mb_Weight x" by auto
    with False r Cons.IH [of "acc + mb_Weight x"] Cons.prems show ?thesis by (simp add: Let_def)
  qed
qed

lemma pick_in_interval:
  assumes "0 \<le> p" and "p < wsum ms"
  shows "\<exists>xs m ys. ms = xs @ m # ys \<and> wsum xs \<le> p \<and> p < wsum xs + mb_Weight m"
  using assms
proof (induction ms arbitrary: p)
  case (Cons m ms)
  show ?case
  proof (cases "p < max 0 (mb_Weight m)")
    case True
    with Cons.prems show ?thesis by (intro exI [of _ "[]"] exI [of _ m] exI [of _ ms]) auto
  next
    case False
    then have "0 \<le> p - max 0 (mb_Weight m)" "p - max 0 (mb_Weight m) < wsum ms"
      using Cons.prems by simp_all
    from Cons.IH [OF this] obtain xs y ys where
      "ms = xs @ y # ys" "wsum xs \<le> p - max 0 (mb_Weight m)" "p - max 0 (mb_Weight m) < wsum xs + mb_Weight y"
      by blast
    then show ?thesis by (intro exI [of _ "m # xs"] exI [of _ y] exI [of _ ys]) auto
  qed
qed simp

lemma weightedSelect_interval:
  assumes "ms = xs @ m # ys" and "wsum ms < 2 ^ 63" and "wsum xs \<le> pick (wsum ms)"
    and "pick (wsum ms) < wsum xs + mb_Weight m"
  shows "weightedSelect pick ms = Inr (Some m)"
proof -
  have "0 < wsum ms" using assms wsum_nonneg [of ys] wsum_nonneg [of xs] by auto
  with assms pickLoop_interval [of 0 xs m ys "pick (wsum ms)"] totalWeight_eq [of ms]
  show ?thesis by (auto simp: weightedSelect_def Let_def split: list.splits)
qed

text \<open>Whatever the weights, a selection is a member of the list; it panics only if the sum wraps.\<close>

lemma pickLoop_member: "pickLoop p acc ms = Some m \<Longrightarrow> m \<in> set ms \<and> 0 < mb_Weight m"
  by (induction p acc ms rule: pickLoop.induct) (auto simp: Let_def split: if_splits)

lemma weightedSelect_member: "weightedSelect pick ms = Inr (Some m) \<Longrightarrow> m \<in> set ms"
  by (auto simp: weightedSelect_def Let_def split: list.splits if_splits option.splits dest: pickLoop_member)

lemma weightedSelect_total: "ms \<noteq> [] \<Longrightarrow> wsum ms < 2 ^ 63 \<Longrightarrow> \<exists>m. weightedSelect pick ms = Inr (Some m)"
  using totalWeight_eq [of ms] wsum_nonneg [of ms]
  by (auto simp: weightedSelect_def Let_def split: list.splits option.splits)

lemma weightedSelect_not_None: "ms \<noteq> [] \<Longrightarrow> weightedSelect pick ms \<noteq> Inr None"
  by (auto simp: weightedSelect_def Let_def split: list.splits option.splits)

text \<open>
  C27: Weighted selection is exactly proportional. When the weights do not overflow, exactly
  \<open>weight\<close> of the \<open>total\<close> equally likely values of the random pick select a given member, and
  none select a member whose weight is zero or negative.
\<close>

theorem weighted_share:
  assumes "distinct ms" and "m \<in> set ms" and "0 < wsum ms" and "wsum ms < 2 ^ 63"
  shows "card {p \<in> {0..<wsum ms}. weightedSelect (\<lambda>_. p) ms = Inr (Some m)} = nat (mb_Weight m)"
proof -
  obtain xs ys where ms: "ms = xs @ m # ys" using assms(2) by (meson split_list)
  have "{p \<in> {0..<wsum ms}. weightedSelect (\<lambda>_. p) ms = Inr (Some m)} = {wsum xs..<wsum xs + mb_Weight m}"
  proof (intro set_eqI iffI; clarsimp)
    fix p
    assume p: "0 \<le> p" "p < wsum ms" and sel: "weightedSelect (\<lambda>_. p) ms = Inr (Some m)"
    from pick_in_interval [OF p] obtain us v vs where
      v: "ms = us @ v # vs" "wsum us \<le> p" "p < wsum us + mb_Weight v" by blast
    from weightedSelect_interval [OF v(1) assms(4), of "\<lambda>_. p"] v sel have "v = m" by simp
    with v(1) have us: "ms = us @ m # vs" by simp
    with assms(1) have "m \<notin> set us" "m \<notin> set vs" by simp_all
    from append_Cons_eq_iff [OF this] us ms have "us = xs" by metis
    with v \<open>v = m\<close> show "wsum xs \<le> p \<and> p < wsum xs + mb_Weight m" by simp
  next
    fix p
    assume p: "wsum xs \<le> p" "p < wsum xs + mb_Weight m"
    from weightedSelect_interval [OF ms assms(4), of "\<lambda>_. p"] p
    have "weightedSelect (\<lambda>_. p) ms = Inr (Some m)" by simp
    moreover have "0 \<le> p" "p < wsum ms"
      using p ms wsum_nonneg [of xs] wsum_nonneg [of ys] by auto
    ultimately show "0 \<le> p \<and> p < wsum ms \<and> weightedSelect (\<lambda>_. p) ms = Inr (Some m)" by simp
  qed
  then show ?thesis by simp
qed


definition sample_member :: "rowid \<Rightarrow> string \<Rightarrow> int \<Rightarrow> GSLBMember" where
  "sample_member i a w = \<lparr>mb_ID = i, mb_PoolID = 1, mb_Address = a, mb_Weight = w, mb_Enabled = True\<rparr>"

theorem weighted_share_witness:
  "card {p \<in> {0..<40}. weightedSelect (\<lambda>_. p) [sample_member 1 ''10.0.0.1'' 10, sample_member 2 ''10.0.0.2'' 30]
           = Inr (Some (sample_member 2 ''10.0.0.2'' 30))} = 30"
  using weighted_share [of "[sample_member 1 ''10.0.0.1'' 10, sample_member 2 ''10.0.0.2'' 30]" "sample_member 2 ''10.0.0.2'' 30"]
  by (simp add: sample_member_def)

subsection \<open>Selection\<close>

lemma selectMembers_healthy:
  assumes "filter (memberUp hs) ms \<noteq> []"
  shows "selectMembers pick hs ms =
           and_then (weightedSelect pick (filter (memberUp hs) ms)) (\<lambda>r. Inr ([the r], False))"
proof -
  have "ms \<noteq> []" using assms by auto
  with assms weightedSelect_not_None [OF assms, of pick] show ?thesis
    by (cases "weightedSelect pick (filter (memberUp hs) ms)")
      (auto simp: selectMembers_def Let_def split: option.splits)
qed

lemma selectMembers_all_down:
  assumes "filter (memberUp hs) ms = []"
  shows "selectMembers pick hs ms = Inr (filter mb_Enabled ms, filter mb_Enabled ms \<noteq> [])"
  using assms by (cases "ms = []") (auto simp: selectMembers_def Let_def)

lemma selectMembers_up:
  assumes "selectMembers pick hs ms = Inr (sel, False)" and "sel \<noteq> []"
  shows "\<exists>m \<in> set ms. memberUp hs m \<and> sel = [m]"
proof (cases "filter (memberUp hs) ms = []")
  case True
  from selectMembers_all_down [OF this, of pick] assms show ?thesis by auto
next
  case False
  from assms(1) obtain r where r: "weightedSelect pick (filter (memberUp hs) ms) = Inr r" "sel = [the r]"
    by (auto simp: selectMembers_healthy [OF False] and_then_Inr)
  with weightedSelect_not_None [OF False, of pick] obtain m where "r = Some m" by auto
  with r weightedSelect_member [of pick "filter (memberUp hs) ms" m] show ?thesis by simp
qed

lemma selectMembers_allFailed:
  assumes "selectMembers pick hs ms = Inr (sel, True)"
  shows "sel = filter mb_Enabled ms \<and> sel \<noteq> [] \<and> filter (memberUp hs) ms = []"
  using assms
  by (cases "filter (memberUp hs) ms = []")
    (auto simp: selectMembers_healthy selectMembers_all_down and_then_Inr)

lemma selectMembers_enabled:
  assumes "selectMembers pick hs ms = Inr (sel, b)" and "m \<in> set sel"
  shows "m \<in> set ms \<and> mb_Enabled m"
proof (cases b)
  case True
  with selectMembers_allFailed [of pick hs ms sel] assms show ?thesis by auto
next
  case False
  from assms(2) have "sel \<noteq> []" by auto
  with False selectMembers_up [of pick hs ms sel] assms show ?thesis by (auto simp: memberUp_def)
qed

lemma selectMembers_some_up:
  assumes "m \<in> set ms" and "memberUp hs m" and "wsum (filter (memberUp hs) ms) < 2 ^ 63"
  shows "\<exists>m' \<in> set ms. memberUp hs m' \<and> selectMembers pick hs ms = Inr ([m'], False)"
proof -
  have ne: "filter (memberUp hs) ms \<noteq> []" using assms(1,2) by (auto simp: filter_empty_conv)
  from weightedSelect_total [OF ne assms(3)] obtain m' where
    w: "weightedSelect pick (filter (memberUp hs) ms) = Inr (Some m')" by blast
  from weightedSelect_member [OF w] w show ?thesis
    by (intro bexI [of _ m']) (simp_all add: selectMembers_healthy [OF ne])
qed

lemma choosePools_first:
  "choosePools geo client matched fallback ps =
     ((case matched of Some p \<Rightarrow> Some p | None \<Rightarrow> find (\<lambda>p. matchPool geo p client) ps),
      (case filter pl_FallbackPool ps of [] \<Rightarrow> fallback | fs \<Rightarrow> Some (last fs)))"
  by (induction geo client matched fallback ps rule: choosePools.induct)
    (auto simp: Let_def split: option.splits list.splits)

subsection \<open>Resolution over the tables\<close>

text \<open>What \<^verbatim>\<open>Resolve\<close> computes, on the tables, without caches and faults.\<close>

definition resolveSpec ::
  "geoip \<Rightarrow> (int \<Rightarrow> int) \<Rightarrow> health_map \<Rightarrow> string \<Rightarrow> string \<Rightarrow> ip option \<Rightarrow> tables
     \<Rightarrow> resolve_error + ip list \<times> 32 word" where
  "resolveSpec geo pick hs domain qtype client t =
     (case policyByDomain domain qtype t of
        None \<Rightarrow> Inr ([], 0)
      | Some policy \<Rightarrow>
          (case choosePools geo client None None (poolsByPolicy (p_ID policy) t) of (matched, fallback) \<Rightarrow>
             (case (if matched = None then fallback else matched) of
                None \<Rightarrow> Inr ([], 0)
              | Some pool \<Rightarrow>
                  and_then (selectMembers pick hs (membersByPool (pl_ID pool) t)) (\<lambda>sel.
                  and_then (case fallback of
                              Some fb \<Rightarrow> if (snd sel \<or> fst sel = []) \<and> pl_ID fb \<noteq> pl_ID pool
                                         then applyFallback pick hs sel (membersByPool (pl_ID fb) t) else Inr sel
                            | None \<Rightarrow> Inr sel) (resolveAnswer policy)))))"

definition gslb_coherent :: "db \<Rightarrow> PolicyCache \<Rightarrow> PoolCache \<Rightarrow> bool" where
  "gslb_coherent d pc c \<longleftrightarrow> faults d = [] \<and> policy_cache.coherent (tables d) pc
     \<and> pool_cache.coherent (tables d) c \<and> member_cache.coherent (tables d) c"

lemma policy_lookup:
  assumes "gslb_coherent d pc c" and "0 < now"
  shows "GetPolicyByDomain now domain qtype d pc = (Inr (policyByDomain domain qtype (tables d)), d)"
proof (cases "policyCacheGet now (cachePolicyKey domain qtype) pc")
  case None
  with assms show ?thesis by (simp add: GetPolicyByDomain_def gslb_coherent_def)
next
  case (Some p)
  from assms have "\<forall>v. map_option Some (policyCacheGet now (cachePolicyKey domain qtype) pc) = Some v \<longrightarrow>
      v = policyByDomain domain qtype (tables d)"
    unfolding gslb_coherent_def policy_cache.coherent_def by (metis fst_conv snd_conv)
  then have "policyByDomain domain qtype (tables d) = Some p" using Some by simp
  with Some show ?thesis by (simp add: GetPolicyByDomain_def)
qed

lemma pools_lookup:
  assumes "gslb_coherent d pc c" and "0 < now"
  obtains c' where "GetPoolsByPolicy now i d c = (Inr (poolsByPolicy i (tables d)), d, c')"
    and "gslb_coherent d pc c'"
proof -
  obtain r d' c' where look: "GetPoolsByPolicy now i d c = (r, d', c')" by (metis prod_cases3)
  note rt = look [unfolded GetPoolsByPolicy_def]
  from assms have coh: "pool_cache.coherent (tables d) c" "faults d = []" by (simp_all add: gslb_coherent_def)
  from pool_cache.coherent_lookup_works [OF coh(1) assms(2) coh(2) rt]
  have "r = Inr (poolsByPolicy i (tables d))" "d' = d" .
  moreover have "member_cache.coherent (tables d) c'"
    using rt assms(1) coh(2) unfolding gslb_coherent_def member_cache.coherent_def
    by (auto simp: read_through_def getMembers_def setPools_def split: option.splits)
  ultimately show ?thesis
    using that look assms(1) pool_cache.coherent_keep [OF coh(1) rt] by (simp add: gslb_coherent_def)
qed

lemma members_lookup:
  assumes "gslb_coherent d pc c" and "0 < now"
  obtains c' where "GetMembersByPool now i d c = (Inr (membersByPool i (tables d)), d, c')"
    and "gslb_coherent d pc c'"
proof -
  obtain r d' c' where look: "GetMembersByPool now i d c = (r, d', c')" by (metis prod_cases3)
  note rt = look [unfolded GetMembersByPool_def]
  from assms have coh: "member_cache.coherent (tables d) c" "faults d = []" by (simp_all add: gslb_coherent_def)
  from member_cache.coherent_lookup_works [OF coh(1) assms(2) coh(2) rt]
  have "r = Inr (membersByPool i (tables d))" "d' = d" .
  moreover have "pool_cache.coherent (tables d) c'"
    using rt assms(1) coh(2) unfolding gslb_coherent_def pool_cache.coherent_def
    by (auto simp: read_through_def getPools_def setMembers_def split: option.splits)
  ultimately show ?thesis
    using that look assms(1) member_cache.coherent_keep [OF coh(1) rt] by (simp add: gslb_coherent_def)
qed

lemma resolvePools_spec:
  assumes "gslb_coherent d pc c" and "0 < now"
  obtains c' where "resolvePools now pick hs policy pool fallback d c =
      (and_then (selectMembers pick hs (membersByPool (pl_ID pool) (tables d))) (\<lambda>sel.
       and_then (case fallback of
                   Some fb \<Rightarrow> if (snd sel \<or> fst sel = []) \<and> pl_ID fb \<noteq> pl_ID pool
                              then applyFallback pick hs sel (membersByPool (pl_ID fb) (tables d)) else Inr sel
                 | None \<Rightarrow> Inr sel) (resolveAnswer policy)), d, c')" and "gslb_coherent d pc c'"
proof -
  obtain c1 where 1: "GetMembersByPool now (pl_ID pool) d c = (Inr (membersByPool (pl_ID pool) (tables d)), d, c1)"
    "gslb_coherent d pc c1" using members_lookup [OF assms] by blast
  let ?sel = "selectMembers pick hs (membersByPool (pl_ID pool) (tables d))"
  show ?thesis
  proof (cases ?sel)
    case (Inl e)
    show ?thesis by (rule that [of c1]) (simp_all add: resolvePools_def 1 Inl)
  next
    case (Inr r)
    obtain sel af where r: "r = (sel, af)" by fastforce
    show ?thesis
    proof (cases fallback)
      case None
      show ?thesis by (rule that [of c1]) (simp_all add: resolvePools_def 1 Inr r None)
    next
      case (Some fb)
      obtain c2 where 2: "GetMembersByPool now (pl_ID fb) d c1 = (Inr (membersByPool (pl_ID fb) (tables d)), d, c2)"
        "gslb_coherent d pc c2" using members_lookup [OF 1(2) assms(2)] by blast
      show ?thesis
      proof (cases "(af \<or> sel = []) \<and> pl_ID fb \<noteq> pl_ID pool")
        case True
        then have "(af \<or> (sel = [] \<and> \<not> af)) \<and> pl_ID fb \<noteq> pl_ID pool" by blast
        with True show ?thesis by (intro that [of c2]) (simp_all add: resolvePools_def 1 2 Inr r Some)
      next
        case False
        then have "\<not> ((af \<or> (sel = [] \<and> \<not> af)) \<and> pl_ID fb \<noteq> pl_ID pool)" by blast
        with False show ?thesis by (intro that [of c1]) (auto simp: resolvePools_def 1 Inr r Some)
      qed
    qed
  qed
qed

lemma Resolve_spec:
  assumes "gslb_coherent d pc c" and "0 < now"
  obtains c' where "Resolve now geo pick hs domain qtype client d pc c
      = (resolveSpec geo pick hs domain qtype client (tables d), d, c')" and "gslb_coherent d pc c'"
proof (cases "policyByDomain domain qtype (tables d)")
  case None
  show ?thesis
    by (rule that [of c]) (use assms None policy_lookup [OF assms] in \<open>simp_all add: Resolve_def resolveSpec_def\<close>)
next
  case (Some policy)
  obtain c1 where 1: "GetPoolsByPolicy now (p_ID policy) d c = (Inr (poolsByPolicy (p_ID policy) (tables d)), d, c1)"
    "gslb_coherent d pc c1" using pools_lookup [OF assms] by blast
  obtain matched fallback where ch:
    "choosePools geo client None None (poolsByPolicy (p_ID policy) (tables d)) = (matched, fallback)" by fastforce
  show ?thesis
  proof (cases "if matched = None then fallback else matched")
    case None
    show ?thesis
      by (rule that [of c1]) (use 1 ch Some None policy_lookup [OF assms] in \<open>simp_all add: Resolve_def resolveSpec_def\<close>)
  next
    case (Some pool)
    obtain c2 where "resolvePools now pick hs policy pool fallback d c1 =
      (and_then (selectMembers pick hs (membersByPool (pl_ID pool) (tables d))) (\<lambda>sel.
       and_then (case fallback of
                   Some fb \<Rightarrow> if (snd sel \<or> fst sel = []) \<and> pl_ID fb \<noteq> pl_ID pool
                              then applyFallback pick hs sel (membersByPool (pl_ID fb) (tables d)) else Inr sel
                 | None \<Rightarrow> Inr sel) (resolveAnswer policy)), d, c2)" "gslb_coherent d pc c2"
      by (rule resolvePools_spec [OF 1(2) assms(2)])
    then show ?thesis
      by (intro that [of c2])
        (use 1 ch Some \<open>policyByDomain domain qtype (tables d) = Some policy\<close> policy_lookup [OF assms]
         in \<open>simp_all add: Resolve_def resolveSpec_def\<close>)
  qed
qed


subsection \<open>Properties of Resolve\<close>

lemma memberIPs_Inr: "memberIPs ms = Inr ips \<longleftrightarrow> map (\<lambda>m. ParseIP (mb_Address m)) ms = map Some ips"
  by (induction ms arbitrary: ips) (auto simp: and_then_Inr Cons_eq_map_conv split: option.splits)

lemma applyFallback_members:
  assumes "applyFallback pick hs sel fms = Inr (s, b)" and "m \<in> set s"
  shows "m \<in> set (fst sel) \<or> (m \<in> set fms \<and> mb_Enabled m)"
  using assms selectMembers_enabled [of pick hs fms]
  by (auto simp: applyFallback_def Let_def split: prod.splits if_splits sum.splits)

lemma resolveAnswer_members:
  assumes "resolveAnswer policy (sel, b) = Inr (ips, ttl)" and "a \<in> set ips"
  shows "\<exists>m \<in> set sel. ParseIP (mb_Address m) = Some a \<and> ttl = word_of_int (p_TTL policy)"
proof -
  from assms obtain all where all: "memberIPs sel = Inr all" "a \<in> set all" "ttl = word_of_int (p_TTL policy)"
    by (auto simp: resolveAnswer_def and_then_Inr split: if_splits dest: in_set_takeD)
  then have "Some a \<in> set (map Some all)" by simp
  with all show ?thesis unfolding memberIPs_Inr by (metis (no_types, lifting) imageE list.set_map)
qed

lemma choosePools_in:
  assumes "choosePools geo client None None ps = (matched, fallback)"
  shows "matched = Some p \<Longrightarrow> p \<in> set ps" and "fallback = Some p \<Longrightarrow> p \<in> set ps"
proof -
  show "matched = Some p \<Longrightarrow> p \<in> set ps"
    using assms by (auto simp: choosePools_first find_Some_iff)
  show "fallback = Some p \<Longrightarrow> p \<in> set ps"
    using assms last_in_set [of "filter pl_FallbackPool ps"]
    by (auto simp: choosePools_first split: list.splits if_splits)
qed

lemma resolveSpec_answers:
  assumes "resolveSpec geo pick hs domain qtype client t = Inr (ips, ttl)" and "a \<in> set ips"
  shows "\<exists>policy pool m. policyByDomain domain qtype t = Some policy
     \<and> pool \<in> set (poolsByPolicy (p_ID policy) t) \<and> m \<in> set (membersByPool (pl_ID pool) t)
     \<and> mb_Enabled m \<and> ParseIP (mb_Address m) = Some a \<and> ttl = word_of_int (p_TTL policy)"
proof -
  from assms obtain policy where policy: "policyByDomain domain qtype t = Some policy"
    by (auto simp: resolveSpec_def split: option.splits)
  obtain matched fallback where ch:
    "choosePools geo client None None (poolsByPolicy (p_ID policy) t) = (matched, fallback)" by fastforce
  from assms policy ch obtain pool where pool: "(if matched = None then fallback else matched) = Some pool"
    by (auto simp: resolveSpec_def split: option.splits)
  let ?final = "\<lambda>sel. case fallback of
      Some fb \<Rightarrow> if (snd sel \<or> fst sel = []) \<and> pl_ID fb \<noteq> pl_ID pool
                 then applyFallback pick hs sel (membersByPool (pl_ID fb) t) else Inr sel
    | None \<Rightarrow> Inr sel"
  from assms(1) policy ch pool obtain sel s b where
    sel: "selectMembers pick hs (membersByPool (pl_ID pool) t) = Inr sel"
    and fin: "?final sel = Inr (s, b)" and ans: "resolveAnswer policy (s, b) = Inr (ips, ttl)"
    by (auto simp: resolveSpec_def and_then_Inr simp del: not_None_eq)
  from resolveAnswer_members [OF ans assms(2)] obtain m where
    m: "m \<in> set s" "ParseIP (mb_Address m) = Some a" "ttl = word_of_int (p_TTL policy)" by blast
  have in_pool: "pool \<in> set (poolsByPolicy (p_ID policy) t)"
    using pool choosePools_in [OF ch, of pool] by (auto split: if_splits)
  have old: "m \<in> set (fst sel) \<Longrightarrow> m \<in> set (membersByPool (pl_ID pool) t) \<and> mb_Enabled m"
    using selectMembers_enabled [of pick hs "membersByPool (pl_ID pool) t" "fst sel" "snd sel"] sel by simp
  have "m \<in> set (membersByPool (pl_ID pool) t) \<and> mb_Enabled m
     \<or> (\<exists>fb. fallback = Some fb \<and> m \<in> set (membersByPool (pl_ID fb) t) \<and> mb_Enabled m)"
    using fin m(1) old applyFallback_members [of pick hs sel _ s b m]
    by (auto split: option.splits if_splits)
  with m policy in_pool choosePools_in(2) [OF ch] show ?thesis by metis
qed

text \<open>
  GSLB never answers a disabled member. On a working database with caches that agree with it,
  every address \<^verbatim>\<open>Resolve\<close> returns is the parsed address of an enabled member of a pool of the
  enabled policy for the queried domain and type, with that policy's TTL.
\<close>

lemma resolve_only_enabled:
  assumes "gslb_coherent d pc c" and "0 < now"
    and "fst (Resolve now geo pick hs domain qtype client d pc c) = Inr (ips, ttl)" and "a \<in> set ips"
  shows "\<exists>policy pool m. policyByDomain domain qtype (tables d) = Some policy
     \<and> pool \<in> set (poolsByPolicy (p_ID policy) (tables d)) \<and> m \<in> set (membersByPool (pl_ID pool) (tables d))
     \<and> mb_Enabled m \<and> ParseIP (mb_Address m) = Some a \<and> ttl = word_of_int (p_TTL policy)"
proof -
  obtain c' where "Resolve now geo pick hs domain qtype client d pc c
      = (resolveSpec geo pick hs domain qtype client (tables d), d, c')" by (rule Resolve_spec [OF assms(1,2)])
  with assms(3,4) resolveSpec_answers show ?thesis by simp
qed

text \<open>
  C21: A healthy member is preferred. On a working database with load-balancer caches that agree with it, when
  the first pool that matches the client has an enabled member that is not marked unhealthy, and the weights do not overflow and the addresses parse, the
  answer is the address of exactly one such member, whatever the random pick.
\<close>

theorem resolve_healthy:
  assumes coh: "gslb_coherent d pc c" and now: "0 < now"
    and policy: "policyByDomain domain qtype (tables d) = Some policy"
    and pool: "find (\<lambda>p. matchPool geo p client) (poolsByPolicy (p_ID policy) (tables d)) = Some pool"
    and up: "m \<in> set (membersByPool (pl_ID pool) (tables d))" "memberUp hs m"
    and weights: "wsum (filter (memberUp hs) (membersByPool (pl_ID pool) (tables d))) < 2 ^ 63"
    and addrs: "\<forall>m \<in> set (membersByPool (pl_ID pool) (tables d)). ParseIP (mb_Address m) \<noteq> None"
  shows "\<exists>m' a. m' \<in> set (membersByPool (pl_ID pool) (tables d)) \<and> memberUp hs m'
     \<and> ParseIP (mb_Address m') = Some a
     \<and> fst (Resolve now geo pick hs domain qtype client d pc c) = Inr ([a], word_of_int (p_TTL policy))"
proof -
  obtain c' where res: "Resolve now geo pick hs domain qtype client d pc c
      = (resolveSpec geo pick hs domain qtype client (tables d), d, c')" by (rule Resolve_spec [OF coh now])
  from selectMembers_some_up [OF up weights, of pick] obtain m' where
    m': "m' \<in> set (membersByPool (pl_ID pool) (tables d))" "memberUp hs m'"
    and sel: "selectMembers pick hs (membersByPool (pl_ID pool) (tables d)) = Inr ([m'], False)" by blast
  from m'(1) addrs obtain a where a: "ParseIP (mb_Address m') = Some a" by blast
  have "resolveSpec geo pick hs domain qtype client (tables d) = Inr ([a], word_of_int (p_TTL policy))"
    using policy pool sel a by (simp add: resolveSpec_def choosePools_first resolveAnswer_def split: option.splits)
  with res m' a show ?thesis by auto
qed

text \<open>
  C28: GSLB fails open when no member is up. On a working database with load-balancer caches that agree with it, let the first
  pool that matches the client have enabled members, all of them marked unhealthy and all with addresses that parse, and let
  the policy have no fallback pool. Then the answer is the addresses of all enabled members of the pool and the policy's TTL. (With one
  address that does not parse the answer is an error.)
\<close>

theorem resolve_fail_open:
  assumes coh: "gslb_coherent d pc c" and now: "0 < now"
    and policy: "policyByDomain domain qtype (tables d) = Some policy"
    and pool: "find (\<lambda>p. matchPool geo p client) (poolsByPolicy (p_ID policy) (tables d)) = Some pool"
    and nofb: "filter pl_FallbackPool (poolsByPolicy (p_ID policy) (tables d)) = []"
    and down: "filter (memberUp hs) (membersByPool (pl_ID pool) (tables d)) = []"
    and some: "filter mb_Enabled (membersByPool (pl_ID pool) (tables d)) \<noteq> []"
    and addrs: "map (\<lambda>m. ParseIP (mb_Address m)) (filter mb_Enabled (membersByPool (pl_ID pool) (tables d))) = map Some ips"
  shows "fst (Resolve now geo pick hs domain qtype client d pc c) = Inr (ips, word_of_int (p_TTL policy))"
proof -
  obtain c' where res: "Resolve now geo pick hs domain qtype client d pc c
      = (resolveSpec geo pick hs domain qtype client (tables d), d, c')" by (rule Resolve_spec [OF coh now])
  have "memberIPs (filter mb_Enabled (membersByPool (pl_ID pool) (tables d))) = Inr ips"
    using addrs by (simp only: memberIPs_Inr)
  with policy pool nofb selectMembers_all_down [OF down, of pick] some
  have "resolveSpec geo pick hs domain qtype client (tables d) = Inr (ips, word_of_int (p_TTL policy))"
    by (simp add: resolveSpec_def choosePools_first resolveAnswer_def)
  with res show ?thesis by simp
qed


definition sample_gslb :: db where
  "sample_gslb = \<lparr>tables = (Migrate 1)\<lparr>
     t_policies := [sample_policy\<lparr>p_ID := 1, p_RecordType := ''A''\<rparr>],
     t_pools := [\<lparr>pl_ID = 1, pl_PolicyID = 1, pl_Name = ''all'', pl_MatchType = ''default'', pl_MatchValue = [],
                  pl_Priority = 0, pl_FallbackPool = False\<rparr>],
     t_members := [sample_member 1 ''10.0.0.1'' 10, sample_member 2 ''10.0.0.2'' 30],
     t_seq := (\<lambda>_. 2)\<rparr>, faults = []\<rparr>"

definition sample_status :: "bool \<Rightarrow> HealthStatus" where
  "sample_status ok = \<lparr>Healthy = ok, ConsecutiveFails = 0, ConsecutiveOKs = 0, LastCheck = 1, LastError = []\<rparr>"

lemma new_gslb_coherent:
  assumes "faults d = []"
  shows "gslb_coherent d NewPolicyStorage NewPoolStorage"
  unfolding gslb_coherent_def policy_cache.coherent_def pool_cache.coherent_def member_cache.coherent_def
  using assms
  by (auto simp: NewPolicyStorage_def NewPolicyCache_def NewPoolStorage_def NewPoolCache_def
      policyCacheGet_def getPools_def getMembers_def)

lemma sample_gslb_coherent: "gslb_coherent sample_gslb NewPolicyStorage NewPoolStorage"
  by (rule new_gslb_coherent) (simp add: sample_gslb_def)

lemma sample_gslb_tables:
  "policyByDomain ''www.example.com.'' ''A'' (tables sample_gslb) = Some (sample_policy\<lparr>p_ID := 1, p_RecordType := ''A''\<rparr>)"
  "find (\<lambda>p. matchPool None p None) (poolsByPolicy 1 (tables sample_gslb)) = Some (hd (t_pools (tables sample_gslb)))"
  "pl_ID (hd (t_pools (tables sample_gslb))) = 1" "p_TTL (sample_policy\<lparr>p_ID := 1, p_RecordType := ''A''\<rparr>) = 30"
  "p_ID (sample_policy\<lparr>p_ID := 1, p_RecordType := ''A''\<rparr>) = 1"
  "membersByPool 1 (tables sample_gslb) = [sample_member 1 ''10.0.0.1'' 10, sample_member 2 ''10.0.0.2'' 30]"
  "filter pl_FallbackPool (poolsByPolicy 1 (tables sample_gslb)) = []"
  by (code_simp | simp add: sample_gslb_def sample_policy_def)+

theorem resolve_healthy_witness:
  "\<exists>m' a. m' \<in> {sample_member 2 ''10.0.0.2'' 30} \<and> ParseIP (mb_Address m') = Some a
     \<and> fst (Resolve 5 None (\<lambda>_. 0) [1 \<mapsto> sample_status False] ''www.example.com.'' ''A'' None
              sample_gslb NewPolicyStorage NewPoolStorage) = Inr ([a], 30)"
proof -
  let ?hs = "[1 \<mapsto> sample_status False]"
  have up: "memberUp ?hs (sample_member 2 ''10.0.0.2'' 30)" "\<not> memberUp ?hs (sample_member 1 ''10.0.0.1'' 10)"
    by (simp_all add: memberUp_def sample_member_def sample_status_def)
  have addrs: "\<forall>m \<in> set [sample_member 1 ''10.0.0.1'' 10, sample_member 2 ''10.0.0.2'' 30]. ParseIP (mb_Address m) \<noteq> None"
    by code_simp
  have w: "wsum (filter (memberUp ?hs) [sample_member 1 ''10.0.0.1'' 10, sample_member 2 ''10.0.0.2'' 30]) < 2 ^ 63"
    using up by (simp add: sample_member_def)
  from resolve_healthy [OF sample_gslb_coherent _ sample_gslb_tables(1), of 5 None None _ _ ?hs "\<lambda>_. 0"]
    sample_gslb_tables up addrs w
  show ?thesis by fastforce
qed

theorem resolve_fail_open_witness:
  "\<exists>ips. length ips = 2 \<and> fst (Resolve 5 None (\<lambda>_. 0) [1 \<mapsto> sample_status False, 2 \<mapsto> sample_status False]
      ''www.example.com.'' ''A'' None sample_gslb NewPolicyStorage NewPoolStorage) = Inr (ips, 30)"
proof -
  let ?hs = "[1 \<mapsto> sample_status False, 2 \<mapsto> sample_status False]"
  let ?ms = "[sample_member 1 ''10.0.0.1'' 10, sample_member 2 ''10.0.0.2'' 30]"
  have down: "filter (memberUp ?hs) ?ms = []" and en: "filter mb_Enabled ?ms = ?ms"
    by (simp_all add: memberUp_def sample_member_def sample_status_def)
  have addrs: "map (\<lambda>m. ParseIP (mb_Address m)) ?ms = map Some (map (\<lambda>m. the (ParseIP (mb_Address m))) ?ms)"
    by code_simp
  from resolve_fail_open [OF sample_gslb_coherent _ sample_gslb_tables(1), of 5 None None _ ?hs _ "\<lambda>_. 0"]
    sample_gslb_tables down en addrs
  show ?thesis by (intro exI [of _ "map (\<lambda>m. the (ParseIP (mb_Address m))) ?ms"]) simp
qed

lemma resolve_only_enabled_witness:
  "\<exists>m. mb_Enabled m \<and> m \<in> set (membersByPool 1 (tables sample_gslb)) \<and> ParseIP (mb_Address m) = Some (v4_mapped 0x0A000002)"
proof -
  have "fst (Resolve 5 None (\<lambda>_. 0) [1 \<mapsto> sample_status False] ''www.example.com.'' ''A'' None
              sample_gslb NewPolicyStorage NewPoolStorage) = Inr ([v4_mapped 0x0A000002], 30)"
    by code_simp
  from resolve_only_enabled [OF sample_gslb_coherent _ this, of "v4_mapped 0x0A000002"] sample_gslb_tables
  show ?thesis by (auto simp: sample_gslb_def poolsByPolicy_def poolsOf_def)
qed

end
