(* ===== verification/AdblockRule.thy ===== *)
theory AdblockRule
  imports NetAddr
begin

section \<open>Ad-block rules and the filter (adblock/rule.go, filter.go, loader.go)\<close>

text \<open>
  Parsing filter-list lines, compiling the rules into maps and lists, and deciding a name.
  Go's regular-expression engine is the parameter \<open>regexp\<close>: which expressions compile and which
  subjects a compiled expression matches; a compiled rule keeps its expression. The Bloom filter
  that \<^verbatim>\<open>Rebuild\<close> fills is never read and is left out.
\<close>

record regexp =
  re_compiles :: "string \<Rightarrow> bool"
  re_matches :: "string \<Rightarrow> string \<Rightarrow> bool"

datatype ruleKind = ruleKindDomain | ruleKindDomainPattern | ruleKindPattern | ruleKindRegex

record parsedRule =
  pr_Raw :: string
  pr_Pattern :: string
  pr_Kind :: ruleKind
  pr_Domain :: string
  pr_Exception :: bool
  pr_Important :: bool
  pr_BadFilter :: bool
  pr_re :: "string option"

record compiledRule =
  cr_raw :: string
  cr_exception :: bool
  cr_important :: bool
  cr_kind :: ruleKind
  cr_domain :: string
  cr_re :: "string option"

subsection \<open>Lines, options, names\<close>

definition normalizeDomain :: "string \<Rightarrow> string" where
  "normalizeDomain domain = TrimSuffix (ToLower (TrimSpace domain)) ''.''"

definition normalizeDomainPattern :: "string \<Rightarrow> string" where
  "normalizeDomainPattern pattern =
     ToLower (TrimSuffix (TrimSuffix (TrimSuffix (TrimSpace pattern) ''|'') ''^'') ''.'')"

definition domain_char :: "char \<Rightarrow> bool" where
  "domain_char c \<longleftrightarrow> (let n = (of_char c :: int) in (97 \<le> n \<and> n \<le> 122) \<or> (48 \<le> n \<and> n \<le> 57))
     \<or> c = CHR ''-'' \<or> c = CHR ''_'' \<or> c = CHR ''.''"

definition isPlainDomain :: "string \<Rightarrow> bool" where
  "isPlainDomain domain \<longleftrightarrow>
     domain \<noteq> [] \<and> \<not> ContainsAny domain ''*^|/:'' \<and> list_all domain_char domain \<and> CHR ''.'' \<in> set domain"

definition looksLikeDomainPattern :: "string \<Rightarrow> bool" where
  "looksLikeDomainPattern pattern0 =
     (let pattern = normalizeDomainPattern pattern0
      in if pattern = [] \<or> HasPrefix pattern ''.'' \<or> CHR ''.'' \<notin> set pattern \<or> ContainsAny pattern ''/:|'' then False
         else list_all (\<lambda>c. domain_char c \<or> c = CHR ''*'') pattern)"

definition QuoteMeta :: "char \<Rightarrow> string" where
  "QuoteMeta c = (if c \<in> set (CHR 0x5C # ''.+*?()|[]{}^$'') then [CHR 0x5C, c] else [c])"

definition wildcardToRegexp :: "string \<Rightarrow> string" where
  "wildcardToRegexp pattern = concat (map (\<lambda>c. if c = CHR ''*'' then ''.*'' else QuoteMeta c) pattern)"

definition adblockPatternToRegexp :: "string \<Rightarrow> string" where
  "adblockPatternToRegexp pattern0 =
     (let start = HasPrefix pattern0 ''|'' \<and> \<not> HasPrefix pattern0 ''||'';
          pattern1 = (if start then TrimPrefix pattern0 ''|'' else pattern0);
          endAnchored = HasSuffix pattern1 ''|'';
          pattern = (if endAnchored then TrimSuffix pattern1 ''|'' else pattern1);
          body = concat (map (\<lambda>c. if c = CHR ''*'' then ''.*''
                                  else if c = CHR ''^'' then ''(?:[^A-Za-z0-9_.%-]|$)''
                                  else QuoteMeta c) pattern)
      in (if start then ''^'' else []) @ body @ (if endAnchored then ''$'' else []))"

definition parseOption :: "string \<Rightarrow> string" where
  "parseOption part0 =
     (let part = TrimPrefix (TrimSpace (ToLower part0)) ''~''
      in case index_where (\<lambda>c. c = CHR ''='') part of None \<Rightarrow> part | Some eq \<Rightarrow> take eq part)"

definition parseOptions :: "string \<Rightarrow> string list" where
  "parseOptions raw = (if raw = [] then [] else filter (\<lambda>o'. o' \<noteq> []) (map parseOption (Split CHR '','' raw)))"

definition splitAtDollar :: "string \<Rightarrow> string \<times> string list" where
  "splitAtDollar line =
     (case index_where (\<lambda>c. c = CHR ''$'') line of
        None \<Rightarrow> (line, [])
      | Some idx \<Rightarrow> (take idx line, parseOptions (drop (idx + 1) line)))"

definition splitRuleOptions :: "string \<Rightarrow> string \<times> string list" where
  "splitRuleOptions line =
     (if HasPrefix line ''/'' then
        (case last_index_where (\<lambda>c. c = CHR ''/'') line of
           None \<Rightarrow> splitAtDollar line
         | Some lastSlash \<Rightarrow>
             if lastSlash > 0 then
               (if lastSlash = length line - 1 then (line, [])
                else if line ! (lastSlash + 1) = CHR ''$''
                then (take (lastSlash + 1) line, parseOptions (drop (lastSlash + 2) line))
                else (line, []))
             else splitAtDollar line)
      else splitAtDollar line)"

definition hasOption :: "string list \<Rightarrow> string \<Rightarrow> bool" where
  "hasOption options want \<longleftrightarrow> list_ex (\<lambda>o'. o' = want) options"

definition canonicalRule :: "string \<Rightarrow> string list \<Rightarrow> string" where
  "canonicalRule pattern0 options =
     (let pattern = ToLower (TrimSpace pattern0);
          kept = filter (\<lambda>o'. o' = ''important'') options
      in if options = [] \<or> kept = [] then pattern else pattern @ ''$'' @ Join '','' kept)"

subsection \<open>Rules\<close>

definition compileInto :: "regexp \<Rightarrow> string \<Rightarrow> string \<Rightarrow> parsedRule \<Rightarrow> string + parsedRule option" where
  "compileInto rx line expr rule =
     (if re_compiles rx expr then Inr (Some (rule\<lparr>pr_re := Some expr\<rparr>)) else Inl line)"

definition domainExpr :: "string \<Rightarrow> string" where
  "domainExpr domainPattern = ''(?i)(^|.*'' @ [CHR 0x5C] @ ''.)'' @ wildcardToRegexp domainPattern @ ''$''"

definition parsePatternRule :: "regexp \<Rightarrow> string \<Rightarrow> parsedRule \<Rightarrow> string + parsedRule option" where
  "parsePatternRule rx line rule =
     (if looksLikeDomainPattern (pr_Pattern rule) then
        let domainPattern = normalizeDomainPattern (pr_Pattern rule);
            rule' = rule\<lparr>pr_Domain := domainPattern\<rparr>
        in if CHR ''*'' \<in> set domainPattern
           then compileInto rx line (domainExpr domainPattern) (rule'\<lparr>pr_Kind := ruleKindDomainPattern\<rparr>)
           else Inr (Some (rule'\<lparr>pr_Kind := ruleKindDomain\<rparr>))
      else compileInto rx line (''(?i)'' @ adblockPatternToRegexp (pr_Pattern rule)) (rule\<lparr>pr_Kind := ruleKindPattern\<rparr>))"

definition classifyRule :: "regexp \<Rightarrow> string \<Rightarrow> parsedRule \<Rightarrow> string + parsedRule option" where
  "classifyRule rx line rule =
     (let pattern = pr_Pattern rule
      in if HasPrefix pattern ''/'' \<and> HasSuffix pattern ''/'' \<and> length pattern > 1 then
           compileInto rx line (''(?i)'' @ TrimSuffix (TrimPrefix pattern ''/'') ''/'') (rule\<lparr>pr_Kind := ruleKindRegex\<rparr>)
         else if HasPrefix pattern ''||'' then
           let domainPattern = normalizeDomainPattern (TrimPrefix pattern ''||'');
               rule' = rule\<lparr>pr_Domain := domainPattern\<rparr>
           in if domainPattern = [] then Inr None
              else if ContainsAny domainPattern ''*''
              then compileInto rx line (domainExpr domainPattern) (rule'\<lparr>pr_Kind := ruleKindDomainPattern\<rparr>)
              else if isPlainDomain domainPattern then Inr (Some (rule'\<lparr>pr_Kind := ruleKindDomain\<rparr>))
              else parsePatternRule rx line rule'
         else parsePatternRule rx line rule)"

text \<open>\<open>Inl\<close>: the error for an expression that does not compile; \<open>Inr None\<close>: not a rule.\<close>

definition parseRuleLine :: "regexp \<Rightarrow> string \<Rightarrow> string + parsedRule option" where
  "parseRuleLine rx line0 =
     (let line = TrimSpace line0
      in if line = [] \<or> HasPrefix line ''!'' \<or> HasPrefix line ''#'' then Inr None
         else (case splitRuleOptions line of (pattern0, options) \<Rightarrow>
           let pattern = TrimSpace pattern0
           in if pattern = [] then Inr None
              else let exception = HasPrefix pattern ''@@''
                   in classifyRule rx line
                        \<lparr>pr_Raw = canonicalRule pattern options,
                         pr_Pattern = (if exception then TrimPrefix (ToLower pattern) ''@@'' else ToLower pattern),
                         pr_Kind = ruleKindDomain, pr_Domain = [], pr_Exception = exception,
                         pr_Important = hasOption options ''important'',
                         pr_BadFilter = hasOption options ''badfilter'', pr_re = None\<rparr>))"

definition parseHostsLine :: "string \<Rightarrow> string list option" where
  "parseHostsLine line0 =
     (let line = (case index_where (\<lambda>c. c = CHR ''#'' \<or> c = CHR ''!'') line0 of None \<Rightarrow> line0 | Some i \<Rightarrow> take i line0);
          fields = Fields line
      in case fields of
           f0 # f1 # fs \<Rightarrow>
             (case ParseIP f0 of
                None \<Rightarrow> None
              | Some a \<Rightarrow>
                  if \<not> IsLoopback a \<and> \<not> IsUnspecified a then Some []
                  else Some (filter isPlainDomain (map normalizeDomain (f1 # fs))))
         | _ \<Rightarrow> None)"

fun parseDomains :: "regexp \<Rightarrow> string list \<Rightarrow> string + parsedRule list" where
  "parseDomains rx [] = Inr []"
| "parseDomains rx (domain # rest) =
     and_then (parseRuleLine rx domain) (\<lambda>r.
     and_then (parseDomains rx rest) (\<lambda>rs. Inr (case r of None \<Rightarrow> rs | Some rule \<Rightarrow> rule # rs)))"

definition parseRuleLines :: "regexp \<Rightarrow> string \<Rightarrow> string + parsedRule list option" where
  "parseRuleLines rx line =
     (case parseHostsLine line of
        Some domains \<Rightarrow> and_then (parseDomains rx domains) (\<lambda>rs. Inr (if rs \<noteq> [] then Some rs else None))
      | None \<Rightarrow> and_then (parseRuleLine rx line) (\<lambda>r. Inr (map_option (\<lambda>rule. [rule]) r)))"

definition badFilterKey :: "parsedRule \<Rightarrow> string" where
  "badFilterKey rule = canonicalRule (TrimPrefix (pr_Pattern rule) ''@@'') []"

subsection \<open>Matching\<close>

definition matchesDomainRule :: "string \<Rightarrow> string \<Rightarrow> bool" where
  "matchesDomainRule qname ruleDomain =
     (let q = normalizeDomain qname; r = normalizeDomain ruleDomain
      in q = r \<or> HasSuffix q (''.'' @ r))"

definition ruleMatches :: "regexp \<Rightarrow> compiledRule \<Rightarrow> string \<Rightarrow> string list \<Rightarrow> bool" where
  "ruleMatches rx rule qname candidates =
     (case cr_kind rule of
        ruleKindDomain \<Rightarrow> matchesDomainRule qname (cr_domain rule)
      | ruleKindDomainPattern \<Rightarrow> (case cr_re rule of None \<Rightarrow> False | Some re \<Rightarrow> re_matches rx re qname)
      | _ \<Rightarrow> (case cr_re rule of None \<Rightarrow> False | Some re \<Rightarrow> list_ex (re_matches rx re) candidates))"

definition matchRuleList :: "regexp \<Rightarrow> compiledRule list \<Rightarrow> string \<Rightarrow> string list \<Rightarrow> bool" where
  "matchRuleList rx rules qname candidates = list_ex (\<lambda>r. ruleMatches rx r qname candidates) rules"

function matchDomainMap :: "string set \<Rightarrow> string \<Rightarrow> bool" where
  "matchDomainMap domains candidate =
     (if candidate = [] then False
      else if candidate \<in> domains then True
      else (case index_where (\<lambda>c. c = CHR ''.'') candidate of
              None \<Rightarrow> False
            | Some idx \<Rightarrow> if idx = length candidate - 1 then False
                           else matchDomainMap domains (drop (idx + 1) candidate)))"
  by auto
termination
  by (relation "measure (\<lambda>(_, c). length c)") auto

declare matchDomainMap.simps [simp del]

record compiledRules =
  blockDomains :: "string set"
  allowDomains :: "string set"
  importantBlockDomains :: "string set"
  importantAllowDomains :: "string set"
  blockRules :: "compiledRule list"
  allowRules :: "compiledRule list"
  importantBlockRules :: "compiledRule list"
  importantAllowRules :: "compiledRule list"

definition newCompiledRules :: compiledRules where
  "newCompiledRules = \<lparr>blockDomains = {}, allowDomains = {}, importantBlockDomains = {}, importantAllowDomains = {},
     blockRules = [], allowRules = [], importantBlockRules = [], importantAllowRules = []\<rparr>"

definition addRule :: "parsedRule \<Rightarrow> compiledRules \<Rightarrow> compiledRules" where
  "addRule rule r =
     (let compiled = \<lparr>cr_raw = pr_Raw rule, cr_exception = pr_Exception rule, cr_important = pr_Important rule,
            cr_kind = pr_Kind rule, cr_domain = pr_Domain rule, cr_re = pr_re rule\<rparr>;
          d = pr_Domain rule
      in if pr_Kind rule = ruleKindDomain then
           (if pr_Exception rule \<and> pr_Important rule
            then r\<lparr>importantAllowDomains := insert d (importantAllowDomains r)\<rparr>
            else if pr_Exception rule then r\<lparr>allowDomains := insert d (allowDomains r)\<rparr>
            else if pr_Important rule then r\<lparr>importantBlockDomains := insert d (importantBlockDomains r)\<rparr>
            else r\<lparr>blockDomains := insert d (blockDomains r)\<rparr>)
         else
           (if pr_Exception rule \<and> pr_Important rule
            then r\<lparr>importantAllowRules := importantAllowRules r @ [compiled]\<rparr>
            else if pr_Exception rule then r\<lparr>allowRules := allowRules r @ [compiled]\<rparr>
            else if pr_Important rule then r\<lparr>importantBlockRules := importantBlockRules r @ [compiled]\<rparr>
            else r\<lparr>blockRules := blockRules r @ [compiled]\<rparr>))"

definition candidatesOf :: "string \<Rightarrow> string list" where
  "candidatesOf qname =
     [qname, qname @ '':80'', qname @ '':443'', ''http://'' @ qname, ''http://'' @ qname @ ''/'',
      ''https://'' @ qname, ''https://'' @ qname @ ''/'']"

definition rulesBlock :: "regexp \<Rightarrow> compiledRules \<Rightarrow> string \<Rightarrow> bool" where
  "rulesBlock rx r qname =
     (let candidates = candidatesOf qname
      in if matchDomainMap (importantAllowDomains r) qname \<or> matchRuleList rx (importantAllowRules r) qname candidates then False
         else if matchDomainMap (importantBlockDomains r) qname \<or> matchRuleList rx (importantBlockRules r) qname candidates then True
         else if matchDomainMap (allowDomains r) qname \<or> matchRuleList rx (allowRules r) qname candidates then False
         else matchDomainMap (blockDomains r) qname \<or> matchRuleList rx (blockRules r) qname candidates)"

record Filter =
  f_rules :: "compiledRules option"
  f_enabled :: bool

definition SetEnabled :: "bool \<Rightarrow> Filter \<Rightarrow> Filter" where
  "SetEnabled enabled f = f\<lparr>f_enabled := enabled\<rparr>"

definition IsBlocked :: "regexp \<Rightarrow> Filter \<Rightarrow> string \<Rightarrow> bool" where
  "IsBlocked rx f domain =
     (case f_rules f of
        None \<Rightarrow> False
      | Some rules \<Rightarrow> f_enabled f \<and> rulesBlock rx rules (normalizeDomain domain))"

text \<open>The rules of a list of stored rule texts; texts that do not parse are skipped.\<close>

definition activeRules :: "regexp \<Rightarrow> string list \<Rightarrow> parsedRule list" where
  "activeRules rx storedRules =
     concat (map (\<lambda>raw. case parseRuleLine rx raw of
                          Inr (Some rule) \<Rightarrow> if pr_BadFilter rule then [] else [rule]
                        | _ \<Rightarrow> []) storedRules)"

definition rebuildFrom :: "regexp \<Rightarrow> string list \<Rightarrow> Filter \<Rightarrow> Filter" where
  "rebuildFrom rx storedRules f = f\<lparr>f_rules := Some (fold addRule (activeRules rx storedRules) newCompiledRules)\<rparr>"

subsection \<open>Lists\<close>

text \<open>\<^verbatim>\<open>bufio.Scanner\<close>: lines end at a newline, lose a carriage return, and a line of 64 KiB or more ends the scan.\<close>

definition dropCR :: "string \<Rightarrow> string" where
  "dropCR line = TrimSuffix line [CHR 0x0D]"

definition scanLines :: "string \<Rightarrow> string list" where
  "scanLines content =
     (let ls = Split CHR 0x0A content;
          ls' = (if last ls = [] then butlast ls else ls)
      in map dropCR (takeWhile (\<lambda>l. length l < 65536) ls'))"

type_synonym loader_state = "string list \<times> (string \<rightharpoonup> nat)"

definition loadRule :: "parsedRule \<Rightarrow> loader_state \<Rightarrow> loader_state" where
  "loadRule rule s =
     (case s of (rules, active) \<Rightarrow>
        if pr_BadFilter rule then
          let key = badFilterKey rule
          in case active key of
               None \<Rightarrow> (rules, active)
             | Some idx \<Rightarrow> (rules[idx := []], active(key := None))
        else
          let rules' = (case active (pr_Raw rule) of None \<Rightarrow> rules | Some oldIdx \<Rightarrow> rules[oldIdx := []])
          in (rules' @ [pr_Raw rule], active(pr_Raw rule \<mapsto> length rules')))"

definition parsedLines :: "regexp \<Rightarrow> string \<Rightarrow> parsedRule list" where
  "parsedLines rx content =
     concat (map (\<lambda>l. case parseRuleLines rx l of Inr (Some rs) \<Rightarrow> rs | _ \<Rightarrow> []) (scanLines content))"

definition ParseRules :: "regexp \<Rightarrow> string \<Rightarrow> string list" where
  "ParseRules rx content =
     filter (\<lambda>r. r \<noteq> []) (fst (fold loadRule (parsedLines rx content) ([], Map.empty)))"


subsection \<open>The domain maps match names and their subdomains\<close>

lemma HasSuffix_dot:
  "HasSuffix q (''.'' @ d) \<longleftrightarrow> (\<exists>p. q = p @ ''.'' @ d)"
  by (rule HasSuffix_iff)

text \<open>Cutting a name at its first dot reaches every parent name.\<close>

lemma first_dot_parent:
  assumes "CHR ''.'' \<notin> set a"
  shows "(\<exists>p. a @ CHR ''.'' # r = p @ CHR ''.'' # d) \<longleftrightarrow> r = d \<or> (\<exists>p. r = p @ CHR ''.'' # d)"
proof
  assume "\<exists>p. a @ CHR ''.'' # r = p @ CHR ''.'' # d"
  then obtain p where "a @ CHR ''.'' # r = p @ CHR ''.'' # d" by blast
  then obtain us where "a = p @ us \<and> us @ CHR ''.'' # r = CHR ''.'' # d
      \<or> a @ us = p \<and> CHR ''.'' # r = us @ CHR ''.'' # d" unfolding append_eq_append_conv2 by blast
  with assms show "r = d \<or> (\<exists>p. r = p @ CHR ''.'' # d)" by (cases us) auto
next
  assume "r = d \<or> (\<exists>p. r = p @ CHR ''.'' # d)"
  then obtain p where "r = d \<or> r = p @ CHR ''.'' # d" by blast
  then have "a @ CHR ''.'' # r = a @ CHR ''.'' # d \<or> a @ CHR ''.'' # r = (a @ CHR ''.'' # p) @ CHR ''.'' # d"
    by simp
  then show "\<exists>p. a @ CHR ''.'' # r = p @ CHR ''.'' # d" by metis
qed

lemma parent_cases:
  assumes "index_where (\<lambda>c. c = CHR ''.'') q = Some i"
  shows "HasSuffix q (''.'' @ d) \<longleftrightarrow> drop (i + 1) q = d \<or> HasSuffix (drop (i + 1) q) (''.'' @ d)"
proof -
  from index_where_Some [OF assms] have i: "i < length q" "q ! i = CHR ''.''" "\<forall>c \<in> set (take i q). c \<noteq> CHR ''.''"
    by blast+
  define a r where "a = take i q" and "r = drop (i + 1) q"
  have q: "a @ CHR ''.'' # r = q"
    using id_take_nth_drop [of i q] i by (simp add: a_def r_def)
  have nodot: "CHR ''.'' \<notin> set a" using i by (auto simp: a_def)
  from first_dot_parent [OF nodot, of r d] show ?thesis
    unfolding HasSuffix_dot q by (simp add: r_def)
qed

lemma matchDomainMap_iff:
  "matchDomainMap ds q \<longleftrightarrow> (\<exists>d \<in> ds. d \<noteq> [] \<and> (q = d \<or> HasSuffix q (''.'' @ d)))"
proof (induction ds q rule: matchDomainMap.induct)
  case (1 ds q)
  show ?case
  proof (cases "q = [] \<or> q \<in> ds")
    case True
    then show ?thesis by (auto simp: matchDomainMap.simps HasSuffix_def)
  next
    case False
    show ?thesis
    proof (cases "index_where (\<lambda>c. c = CHR ''.'') q")
      case None
      then have "CHR ''.'' \<notin> set q" by auto
      then have "\<not> HasSuffix q (''.'' @ d)" for d unfolding HasSuffix_dot by auto
      moreover have "\<not> matchDomainMap ds q"
        by (subst matchDomainMap.simps) (simp only: None option.case, use False in simp)
      ultimately show ?thesis using False by blast
    next
      case (Some i)
      let ?rest = "drop (i + 1) q"
      have eq: "HasSuffix q (''.'' @ d) \<longleftrightarrow> ?rest = d \<or> HasSuffix ?rest (''.'' @ d)" for d
        by (rule parent_cases [OF Some])
      have step: "matchDomainMap ds q = (if i = length q - 1 then False else matchDomainMap ds ?rest)"
        by (subst matchDomainMap.simps) (use False Some in simp)
      have ih: "matchDomainMap ds ?rest \<longleftrightarrow> (\<exists>d \<in> ds. d \<noteq> [] \<and> (?rest = d \<or> HasSuffix ?rest (''.'' @ d)))"
        if "i \<noteq> length q - 1" using 1 [OF _ _ Some that] False by simp
      have "?rest = []" if "i = length q - 1" using that by simp
      moreover have "\<not> HasSuffix [] (''.'' @ d)" for d by (simp add: HasSuffix_def)
      ultimately show ?thesis using False unfolding step eq
        by (cases "i = length q - 1") (use ih in auto)
    qed
  qed
qed

subsection \<open>The compiled maps and lists decide as the rule list\<close>

definition ruleHits :: "regexp \<Rightarrow> string \<Rightarrow> parsedRule \<Rightarrow> bool" where
  "ruleHits rx q rule =
     (if pr_Kind rule = ruleKindDomain then pr_Domain rule \<noteq> [] \<and> (q = pr_Domain rule \<or> HasSuffix q (''.'' @ pr_Domain rule))
      else (case pr_re rule of
              None \<Rightarrow> False
            | Some re \<Rightarrow> if pr_Kind rule = ruleKindDomainPattern then re_matches rx re q
                         else list_ex (re_matches rx re) (candidatesOf q)))"

definition decide :: "regexp \<Rightarrow> parsedRule list \<Rightarrow> string \<Rightarrow> bool" where
  "decide rx rules q =
     (let hits = filter (ruleHits rx q) rules
      in if \<exists>r \<in> set hits. pr_Exception r \<and> pr_Important r then False
         else if \<exists>r \<in> set hits. pr_Important r then True
         else if \<exists>r \<in> set hits. pr_Exception r then False
         else hits \<noteq> [])"

definition hitIn :: "regexp \<Rightarrow> string set \<Rightarrow> compiledRule list \<Rightarrow> string \<Rightarrow> bool" where
  "hitIn rx ds rs q \<longleftrightarrow> matchDomainMap ds q \<or> matchRuleList rx rs q (candidatesOf q)"

lemma hitIn_insert:
  "hitIn rx (insert d ds) rs q \<longleftrightarrow> (d \<noteq> [] \<and> (q = d \<or> HasSuffix q (''.'' @ d))) \<or> hitIn rx ds rs q"
  by (auto simp: hitIn_def matchDomainMap_iff)

lemma hitIn_snoc: "hitIn rx ds (rs @ [r]) q \<longleftrightarrow> hitIn rx ds rs q \<or> ruleMatches rx r q (candidatesOf q)"
  by (auto simp: hitIn_def matchRuleList_def)

lemma hitIn_empty [simp]: "\<not> hitIn rx {} [] q"
  by (simp add: hitIn_def matchDomainMap_iff matchRuleList_def)

lemma ruleMatches_hits:
  assumes "pr_Kind r \<noteq> ruleKindDomain"
  shows "ruleMatches rx \<lparr>cr_raw = a, cr_exception = b, cr_important = c, cr_kind = pr_Kind r, cr_domain = d, cr_re = pr_re r\<rparr> q
           (candidatesOf q) = ruleHits rx q r"
  using assms by (cases "pr_Kind r") (auto simp: ruleMatches_def ruleHits_def split: option.splits)

text \<open>What each of the four classes of a compiled rule set hits.\<close>

definition classHits :: "regexp \<Rightarrow> string \<Rightarrow> compiledRules \<Rightarrow> bool \<Rightarrow> bool \<Rightarrow> bool" where
  "classHits rx q c exc imp =
     (if exc \<and> imp then hitIn rx (importantAllowDomains c) (importantAllowRules c) q
      else if exc then hitIn rx (allowDomains c) (allowRules c) q
      else if imp then hitIn rx (importantBlockDomains c) (importantBlockRules c) q
      else hitIn rx (blockDomains c) (blockRules c) q)"

lemma classHits_add:
  "classHits rx q (addRule r c) exc imp \<longleftrightarrow>
     classHits rx q c exc imp \<or> (ruleHits rx q r \<and> pr_Exception r = exc \<and> pr_Important r = imp)"
proof (cases "pr_Kind r = ruleKindDomain")
  case True
  then show ?thesis
    by (cases "pr_Exception r"; cases "pr_Important r"; cases exc; cases imp)
      (simp_all add: classHits_def addRule_def Let_def hitIn_insert ruleHits_def disj_commute)
next
  case False
  note m = ruleMatches_hits [OF False, of rx]
  from False show ?thesis
    by (cases "pr_Exception r"; cases "pr_Important r"; cases exc; cases imp)
      (simp_all add: classHits_def addRule_def Let_def hitIn_snoc m)
qed

lemma classHits_fold:
  "classHits rx q (fold addRule rs c) exc imp \<longleftrightarrow>
     classHits rx q c exc imp \<or> (\<exists>r \<in> set rs. ruleHits rx q r \<and> pr_Exception r = exc \<and> pr_Important r = imp)"
  by (induction rs arbitrary: c) (auto simp: classHits_add)

lemma classHits_new [simp]: "\<not> classHits rx q newCompiledRules exc imp"
  by (simp add: classHits_def newCompiledRules_def)

lemma rulesBlock_decide: "rulesBlock rx (fold addRule rs newCompiledRules) q = decide rx rs q"
proof -
  let ?c = "fold addRule rs newCompiledRules"
  have "rulesBlock rx ?c q = (if classHits rx q ?c True True then False
      else if classHits rx q ?c False True then True
      else if classHits rx q ?c True False then False else classHits rx q ?c False False)"
    by (simp add: rulesBlock_def classHits_def hitIn_def Let_def)
  then show ?thesis
    by (auto simp: classHits_fold decide_def Let_def filter_empty_conv)
qed


subsection \<open>Properties of the filter\<close>

text \<open>
  C22: The filter decides by rule priority. After a rebuild from stored rule texts, an enabled filter blocks
  a name exactly when the rule list says so: an important exception that hits wins over everything, then
  an important block, then an exception, then any block rule. Domain rules hit the name and all its
  subdomains; the maps and lists built for speed do not change the decision.
\<close>

theorem filter_decides:
  "IsBlocked rx (rebuildFrom rx stored f) q =
     (f_enabled f \<and> decide rx (activeRules rx stored) (normalizeDomain q))"
  by (simp add: IsBlocked_def rebuildFrom_def rulesBlock_decide)

text \<open>
  The map walk finds exactly the suffix rules. Walking a name up label by label through a map of
  domains succeeds exactly when a reference scan with \<^verbatim>\<open>matchesDomainRule\<close> finds a domain of the map,
  for names and domains in normal form.
\<close>

lemma domain_map_equals_scan:
  assumes "normalizeDomain q = q" and "\<forall>d \<in> ds. normalizeDomain d = d \<and> d \<noteq> []"
  shows "matchDomainMap ds q \<longleftrightarrow> (\<exists>d \<in> ds. matchesDomainRule q d)"
  using assms by (auto simp: matchDomainMap_iff matchesDomainRule_def Let_def)

lemma domain_map_equals_scan_witness:
  "matchDomainMap {''ads.example.com'', ''tracker.net''} ''x.ads.example.com''
   \<and> (\<exists>d \<in> {''ads.example.com'', ''tracker.net''}. matchesDomainRule ''x.ads.example.com'' d)"
proof -
  have n: "normalizeDomain ''x.ads.example.com'' = ''x.ads.example.com''"
    "normalizeDomain ''ads.example.com'' = ''ads.example.com''" "normalizeDomain ''tracker.net'' = ''tracker.net''"
    by code_simp+
  have "matchDomainMap {''ads.example.com'', ''tracker.net''} ''x.ads.example.com''" by code_simp
  with domain_map_equals_scan [of "''x.ads.example.com''" "{''ads.example.com'', ''tracker.net''}"] n show ?thesis
    by simp
qed

subsection \<open>Properties of the loader\<close>

text \<open>The entries kept so far are the active ones, each at the index the map gives.\<close>

definition loader_inv :: "loader_state \<Rightarrow> bool" where
  "loader_inv s \<longleftrightarrow> (\<forall>r i. r \<noteq> [] \<longrightarrow> (snd s r = Some i \<longleftrightarrow> i < length (fst s) \<and> fst s ! i = r))"

lemma loader_inv_new: "loader_inv ([], Map.empty)"
  by (simp add: loader_inv_def)

lemma loader_inv_clear:
  assumes "loader_inv (rules, active)" and "key \<noteq> []" and "active key = Some i"
  shows "loader_inv (rules[i := []], active(key := None))"
proof -
  have inv: "\<And>r j. r \<noteq> [] \<Longrightarrow> active r = Some j \<longleftrightarrow> j < length rules \<and> rules ! j = r"
    using assms(1) by (simp add: loader_inv_def)
  have i: "i < length rules" "rules ! i = key" using inv assms(2,3) by auto
  have "((active(key := None)) r = Some j) = (j < length (rules[i := []]) \<and> rules[i := []] ! j = r)" if "r \<noteq> []" for r j
    using that inv [OF that, of j] inv [OF assms(2), of j] i assms(3) by (cases "j = i") auto
  then show ?thesis by (simp add: loader_inv_def)
qed

lemma loader_inv_add:
  assumes "loader_inv (rules, active)" and "key \<noteq> []" and "active key = None"
  shows "loader_inv (rules @ [key], active(key \<mapsto> length rules))"
proof -
  have inv: "\<And>r j. r \<noteq> [] \<Longrightarrow> active r = Some j \<longleftrightarrow> j < length rules \<and> rules ! j = r"
    using assms(1) by (simp add: loader_inv_def)
  have "((active(key \<mapsto> length rules)) r = Some j) = (j < length (rules @ [key]) \<and> (rules @ [key]) ! j = r)" if "r \<noteq> []" for r j
    using that inv [OF that, of j] inv [OF assms(2), of j] assms(3) by (auto simp: nth_append less_Suc_eq)
  then show ?thesis by (simp add: loader_inv_def)
qed

lemma TrimPrefix_keeps: "\<not> HasPrefix s p \<Longrightarrow> TrimPrefix s p = s"
  by (simp add: TrimPrefix_def)

lemma active_empty: "loader_inv (rules, active) \<Longrightarrow> [] \<notin> dom active \<Longrightarrow> active [] = None"
  by auto

lemma loader_inv_load:
  assumes "loader_inv s" and "snd s [] = None" and "pr_Raw rule \<noteq> []"
  shows "loader_inv (loadRule rule s) \<and> snd (loadRule rule s) [] = None"
proof (cases s)
  case (Pair rules active)
  show ?thesis
  proof (cases "pr_BadFilter rule")
    case True
    show ?thesis
    proof (cases "active (badFilterKey rule)")
      case None
      with True Pair assms show ?thesis by (simp add: loadRule_def Let_def)
    next
      case (Some i)
      with assms Pair have "badFilterKey rule \<noteq> []" by auto
      with loader_inv_clear [of rules active "badFilterKey rule" i] Some True Pair assms show ?thesis
        by (simp add: loadRule_def Let_def)
    qed
  next
    case False
    show ?thesis
    proof (cases "active (pr_Raw rule)")
      case None
      with loader_inv_add [of rules active "pr_Raw rule"] False Pair assms show ?thesis
        by (simp add: loadRule_def Let_def)
    next
      case (Some i)
      from loader_inv_clear [of rules active "pr_Raw rule" i] Some Pair assms
      have "loader_inv (rules[i := []], active(pr_Raw rule := None))" by simp
      from loader_inv_add [OF this assms(3)] Some False Pair assms show ?thesis
        by (simp add: loadRule_def Let_def)
    qed
  qed
qed

lemma loader_inv_fold:
  assumes "\<forall>r \<in> set rs. pr_Raw r \<noteq> []" and "loader_inv s" and "snd s [] = None"
  shows "loader_inv (fold loadRule rs s) \<and> snd (fold loadRule rs s) [] = None"
  using assms
proof (induction rs arbitrary: s)
  case (Cons r rs)
  then have "pr_Raw r \<noteq> []" by simp
  from loader_inv_load [OF Cons.prems(2,3) this] Cons.IH [of "loadRule r s"] Cons.prems(1) show ?case by simp
qed simp

lemma distinct_filter_nth:
  assumes "\<And>i j. i < length xs \<Longrightarrow> j < length xs \<Longrightarrow> xs ! i = xs ! j \<Longrightarrow> P (xs ! i) \<Longrightarrow> i = j"
  shows "distinct (filter P xs)"
  using assms
proof (induction xs)
  case (Cons x xs)
  have "i = j" if "i < length xs" "j < length xs" "xs ! i = xs ! j" "P (xs ! i)" for i j
    using Cons.prems [of "Suc i" "Suc j"] that by simp
  then have "distinct (filter P xs)" by (rule Cons.IH)
  moreover have "x \<notin> set xs" if "P x"
  proof
    assume "x \<in> set xs"
    then obtain k where "k < length xs" "xs ! k = x" by (auto simp: in_set_conv_nth)
    with Cons.prems [of 0 "Suc k"] that show False by simp
  qed
  ultimately show ?case by simp
qed simp

lemma loader_inv_distinct:
  assumes "loader_inv s"
  shows "distinct (filter (\<lambda>r. r \<noteq> []) (fst s))"
proof (rule distinct_filter_nth)
  fix i j
  assume "i < length (fst s)" "j < length (fst s)" "fst s ! i = fst s ! j" "fst s ! i \<noteq> []"
  with assms show "i = j" by (metis loader_inv_def option.inject)
qed

lemma loader_inv_set:
  assumes "loader_inv s" and "snd s [] = None"
  shows "set (filter (\<lambda>r. r \<noteq> []) (fst s)) = dom (snd s)"
proof (intro set_eqI iffI)
  fix r
  assume "r \<in> set (filter (\<lambda>r. r \<noteq> []) (fst s))"
  then obtain i where "i < length (fst s)" "fst s ! i = r" "r \<noteq> []" by (auto simp: in_set_conv_nth)
  with assms(1) have "snd s r = Some i" by (simp add: loader_inv_def)
  then show "r \<in> dom (snd s)" by blast
next
  fix r
  assume "r \<in> dom (snd s)"
  then obtain i where i: "snd s r = Some i" by blast
  with assms(2) have "r \<noteq> []" by auto
  with i assms(1) have "i < length (fst s)" "fst s ! i = r" by (auto simp: loader_inv_def)
  with \<open>r \<noteq> []\<close> show "r \<in> set (filter (\<lambda>r. r \<noteq> []) (fst s))" by auto
qed

text \<open>What a list keeps: a rule adds its text, a \<^verbatim>\<open>badfilter\<close> rule removes the text of its key.\<close>

definition keptRules :: "parsedRule list \<Rightarrow> string set" where
  "keptRules rs = fold (\<lambda>rule A. if pr_BadFilter rule then A - {badFilterKey rule} else insert (pr_Raw rule) A) rs {}"

lemma dom_loadRule:
  "dom (snd (loadRule rule s)) =
     (if pr_BadFilter rule then dom (snd s) - {badFilterKey rule} else insert (pr_Raw rule) (dom (snd s)))"
  by (cases s) (auto simp: loadRule_def Let_def split: option.splits)

lemma dom_fold_loadRule:
  "dom (snd (fold loadRule rs s)) =
     fold (\<lambda>rule A. if pr_BadFilter rule then A - {badFilterKey rule} else insert (pr_Raw rule) A) rs (dom (snd s))"
  by (induction rs arbitrary: s) (simp_all add: dom_loadRule)

lemma classifyRule_raw: "classifyRule rx line rule = Inr (Some r) \<Longrightarrow> pr_Raw r = pr_Raw rule"
  by (auto simp: classifyRule_def parsePatternRule_def compileInto_def Let_def split: if_splits)

lemma dropWhile_idem: "dropWhile P (rev (dropWhile P (rev (dropWhile P s)))) = rev (dropWhile P (rev (dropWhile P s)))"
proof (cases "dropWhile P s")
  case (Cons c cs)
  then have "\<not> P c" by (metis hd_dropWhile list.distinct(1) list.sel(1))
  then have "\<exists>ds. dropWhile P (rev (c # cs)) = ds @ [c]" by (simp add: dropWhile_append)
  with Cons \<open>\<not> P c\<close> show ?thesis by auto
next
  case Nil
  then show ?thesis by (simp only: rev.simps dropWhile.simps)
qed

lemma TrimSpace_idem [simp]: "TrimSpace (TrimSpace s) = TrimSpace s"
  unfolding TrimSpace_def by (simp add: dropWhile_idem)

lemma canonicalRule_nonempty: "TrimSpace pattern \<noteq> [] \<Longrightarrow> canonicalRule pattern options \<noteq> []"
  using length_ToLower [of "TrimSpace pattern"] by (auto simp: canonicalRule_def Let_def simp del: length_ToLower)

lemma parseRuleLine_raw: "parseRuleLine rx line = Inr (Some r) \<Longrightarrow> pr_Raw r \<noteq> []"
  using canonicalRule_nonempty [of "TrimSpace p" for p]
  by (fastforce simp: parseRuleLine_def Let_def split: if_splits prod.splits dest!: classifyRule_raw)

lemma parseDomains_raw: "parseDomains rx ds = Inr rs \<Longrightarrow> \<forall>r \<in> set rs. pr_Raw r \<noteq> []"
  by (induction ds arbitrary: rs)
    (auto simp: and_then_Inr parseRuleLine_raw split: option.splits)

lemma parsedLines_raw: "\<forall>r \<in> set (parsedLines rx content). pr_Raw r \<noteq> []"
proof -
  have "\<forall>r \<in> set rs. pr_Raw r \<noteq> []" if "parseRuleLines rx l = Inr (Some rs)" for l rs
    using that parseDomains_raw [of rx]
    by (auto simp: parseRuleLines_def and_then_Inr parseRuleLine_raw split: option.splits if_splits)
  then have "\<forall>r \<in> set (case parseRuleLines rx l of Inr (Some rs) \<Rightarrow> rs | _ \<Rightarrow> []). pr_Raw r \<noteq> []" for l
    by (cases "parseRuleLines rx l") (force split: option.splits)+
  then show ?thesis by (simp add: parsedLines_def)
qed

text \<open>
  Parsing a list yields each kept rule once. The rules of a downloaded list are pairwise different,
  none is empty, and they are exactly the rules that were added and not cancelled by a later
  \<^verbatim>\<open>badfilter\<close> rule with their key.
\<close>

theorem parse_rules_kept:
  "distinct (ParseRules rx content) \<and> [] \<notin> set (ParseRules rx content)
   \<and> set (ParseRules rx content) = keptRules (parsedLines rx content)"
proof -
  let ?s = "fold loadRule (parsedLines rx content) ([], Map.empty)"
  have "loader_inv ?s \<and> snd ?s [] = None"
    by (rule loader_inv_fold [OF parsedLines_raw]) (simp_all add: loader_inv_new)
  then show ?thesis
    using loader_inv_distinct [of ?s] loader_inv_set [of ?s] dom_fold_loadRule [of "parsedLines rx content" "([], Map.empty)"]
    by (auto simp: ParseRules_def keptRules_def)
qed

end
