(* ===== verification/HandlerState.thy ===== *)
theory HandlerState
  imports DnsCache RecordRR Batch Resolver GslbEngine AdblockRule
begin

section \<open>The handler's state and its lookups (dns/handler.go)\<close>

text \<open>
  \<open>Handler\<close> is the struct of \<^verbatim>\<open>dns/handler.go\<close> with the state behind its pointers: the L1 cache,
  the caches of the zone and record storages and of the GSLB engine, the database, the resolver,
  the filter, the writers and counters. A nil pointer is \<open>None\<close>; the resolver and the storages
  are never nil in the program. \<open>env\<close> is what a query sees of the outside: the DNS library, the
  network, the clock (one reading per query; \<open>e_elapsed\<close> is the latency in microseconds that
  the log gets), GeoIP, randomness per queried name, the health map, the regular-expression
  engine, and the client's address with a flag for TCP.
\<close>

record env =
  e_lib :: dnslib
  e_net :: upstream
  e_now :: instant
  e_elapsed :: int
  e_geo :: geoip
  e_pick :: "string \<Rightarrow> int \<Rightarrow> int"
  e_health :: health_map
  e_rx :: regexp
  e_remote :: "(string \<times> bool) option"

record Handler =
  hn_cache :: "DNSCache option"
  hn_zones :: ZoneCache
  hn_records :: RecordCache
  hn_tracker :: "lastQueryTracker option"
  hn_log :: "QueryLogWriter option"
  hn_resolver :: resolver
  hn_stats :: "QueryStats option"
  hn_gslb :: "(PolicyCache \<times> PoolCache) option"
  hn_filter :: "Filter option"
  hn_adstats :: "AdblockStatsWriter option"
  hn_adblockResponse :: string
  hn_nsid :: string
  hn_version :: string
  hn_negativeTTL :: "32 word"
  hn_db :: db

definition maxCNAMEChainDepth :: nat where
  "maxCNAMEChainDepth = 8"

subsection \<open>Calls into the components\<close>

definition zoneByNameH :: "env \<Rightarrow> string \<Rightarrow> Handler \<Rightarrow> (db_error + Zone option) \<times> Handler" where
  "zoneByNameH e name h =
     (case GetZoneByName (e_now e) name (hn_db h) (hn_zones h) of
        (r, d, c) \<Rightarrow> (r, h\<lparr>hn_db := d, hn_zones := c\<rparr>))"

definition extractDomainH :: "env \<Rightarrow> string \<Rightarrow> Handler \<Rightarrow> string \<times> Handler" where
  "extractDomainH e name h =
     (case extractDomain (e_now e) name (hn_db h) (hn_zones h) of
        (z, d, c) \<Rightarrow> (z, h\<lparr>hn_db := d, hn_zones := c\<rparr>))"

definition recordsH ::
  "env \<Rightarrow> rowid \<Rightarrow> string \<Rightarrow> string \<Rightarrow> Handler \<Rightarrow> (db_error + Record list) \<times> Handler" where
  "recordsH e zid name ty h =
     (case GetRecordsByNameAndZone (e_now e) zid name ty (hn_db h) (hn_records h) of
        (r, d, c) \<Rightarrow> (r, h\<lparr>hn_db := d, hn_records := c\<rparr>))"

definition existsH :: "env \<Rightarrow> rowid \<Rightarrow> string \<Rightarrow> Handler \<Rightarrow> (db_error + bool) \<times> Handler" where
  "existsH e zid name h =
     (case DomainExistsInZone (e_now e) zid name (hn_db h) (hn_records h) of
        (r, d, c) \<Rightarrow> (r, h\<lparr>hn_db := d, hn_records := c\<rparr>))"

definition forwardH :: "env \<Rightarrow> Msg \<Rightarrow> Handler \<Rightarrow> forward_result \<times> Handler" where
  "forwardH e req h =
     (case Forward (e_net e) (e_now e) req (hn_db h) (hn_resolver h) of
        (r, d, rs) \<Rightarrow> (r, h\<lparr>hn_db := d, hn_resolver := rs\<rparr>))"

definition resolveH ::
  "env \<Rightarrow> string \<Rightarrow> string \<Rightarrow> ip option \<Rightarrow> PolicyCache \<times> PoolCache \<Rightarrow> Handler
     \<Rightarrow> (resolve_error + ip list \<times> 32 word) \<times> Handler" where
  "resolveH e name qtype client eng h =
     (case Resolve (e_now e) (e_geo e) (e_pick e name) (e_health e) name qtype client (hn_db h) (fst eng) (snd eng) of
        (r, d, c) \<Rightarrow> (r, h\<lparr>hn_db := d, hn_gslb := Some (fst eng, c)\<rparr>))"

definition hasDomainH :: "env \<Rightarrow> string \<Rightarrow> PolicyCache \<Rightarrow> Handler \<Rightarrow> bool \<times> Handler" where
  "hasDomainH e name pc h =
     (case HasDomain (e_now e) name (hn_db h) pc of (b, d) \<Rightarrow> (b, h\<lparr>hn_db := d\<rparr>))"

text \<open>\<open>setCache\<close>: a nil cache stores nothing. Every \<open>setCache\<close> of a query uses the cache pointer
  read at its start, which is the handler's cache unless a reconfiguration comes between.\<close>

definition setCache :: "env \<Rightarrow> string \<Rightarrow> string \<Rightarrow> RR list \<Rightarrow> int \<Rightarrow> bool \<Rightarrow> Handler \<Rightarrow> Handler" where
  "setCache e domain qtype rrs ttl neg h =
     h\<lparr>hn_cache := map_option (cacheSet (e_now e) domain qtype rrs ttl neg) (hn_cache h)\<rparr>"

subsection \<open>CNAME chains\<close>

text \<open>The addresses of the requested family, as records of the target name.\<close>

definition addressRecord :: "string \<Rightarrow> string \<Rightarrow> string \<Rightarrow> int \<Rightarrow> Record" where
  "addressRecord name ty content ttl =
     \<lparr>r_ID = 0, r_ZoneID = 0, r_Name = name, r_Type = ty, r_Content = content, r_TTL = ttl,
      r_Priority = 0, r_Enabled = True, r_LastQueryAt = None, r_CreatedAt = 0, r_UpdatedAt = 0\<rparr>"

definition gslbRecords :: "string \<Rightarrow> string \<Rightarrow> ip list \<Rightarrow> Record list" where
  "gslbRecords target qtype ips =
     List.map_filter
       (\<lambda>a. if qtype = ''A'' then (if is_v4 a then Some (addressRecord target ''A'' (ip_string a) 60) else None)
            else if qtype = ''AAAA'' then
              (if \<not> is_v4 a then Some (addressRecord target ''AAAA'' (ip_string a) 60) else None)
            else None) ips"

definition upstreamRecords :: "string \<Rightarrow> string \<Rightarrow> RR list \<Rightarrow> Record list" where
  "upstreamRecords target qtype rrs =
     List.map_filter
       (\<lambda>rr. case rr of
               RR_A hdr a \<Rightarrow>
                 if qtype = ''A'' then Some (addressRecord target ''A'' (ip_string a) (uint (h_Ttl hdr))) else None
             | RR_AAAA hdr a \<Rightarrow>
                 if qtype = ''AAAA'' then Some (addressRecord target ''AAAA'' (ip_string a) (uint (h_Ttl hdr))) else None
             | _ \<Rightarrow> None) rrs"

text \<open>
  The last part of \<open>resolveTargetRecords\<close>: what the upstream servers say of a target that no
  local zone holds.
\<close>

definition targetUpstream ::
  "env \<Rightarrow> string \<Rightarrow> string \<Rightarrow> Handler \<Rightarrow> Record list \<times> Handler" where
  "targetUpstream e target qtype h =
     (let msg = (lib_SetQuestion (e_lib e) (lib_Fqdn (e_lib e) target) (lib_StringToType (e_lib e) qtype))
                  \<lparr>m_RecursionDesired := True\<rparr>
      in case forwardH e msg h of
           (Inl _, h') \<Rightarrow> ([], h')
         | (Inr resp, h') \<Rightarrow> (upstreamRecords target qtype (m_Answer resp), h'))"

text \<open>The zones: first the given one, then the target's own.\<close>

definition targetLocal ::
  "env \<Rightarrow> rowid \<Rightarrow> string \<Rightarrow> string \<Rightarrow> Handler \<Rightarrow> (db_error + Record list) \<times> Handler" where
  "targetLocal e zid target qtype h =
     (case recordsH e zid target qtype h of
        (Inl err, h1) \<Rightarrow> (Inl err, h1)
      | (Inr records, h1) \<Rightarrow>
          if records \<noteq> [] then (Inr records, h1)
          else (case extractDomainH e target h1 of (zoneName, h2) \<Rightarrow>
                  (case zoneByNameH e zoneName h2 of
                     (Inr (Some z), h3) \<Rightarrow>
                       if z_ID z \<noteq> zid then recordsH e (z_ID z) target qtype h3 else (Inr [], h3)
                   | (_, h3) \<Rightarrow> (Inr [], h3))))"

text \<open>
  \<open>resolveTargetRecords\<close>: the load balancer first, then the zones and the upstream servers. \<open>None\<close>
  is the panic of \<^verbatim>\<open>rand.Int63n\<close>; otherwise the error, or the records with the flag that they came
  from the load balancer.
\<close>

definition targetRest ::
  "env \<Rightarrow> rowid \<Rightarrow> string \<Rightarrow> string \<Rightarrow> Handler \<Rightarrow> (db_error + Record list \<times> bool) option \<times> Handler" where
  "targetRest e zid target qtype h =
     (case targetLocal e zid target qtype h of
        (Inl err, h1) \<Rightarrow> (Some (Inl err), h1)
      | (Inr records, h1) \<Rightarrow>
          if records \<noteq> [] then (Some (Inr (records, False)), h1)
          else (case targetUpstream e target qtype h1 of (rs, h2) \<Rightarrow> (Some (Inr (rs, False)), h2)))"

definition resolveTargetRecords ::
  "env \<Rightarrow> rowid \<Rightarrow> string \<Rightarrow> string \<Rightarrow> ip option \<Rightarrow> Handler
     \<Rightarrow> (db_error + Record list \<times> bool) option \<times> Handler" where
  "resolveTargetRecords e zid target qtype client h =
     (case hn_gslb h of
        None \<Rightarrow> targetRest e zid target qtype h
      | Some eng \<Rightarrow>
          (case resolveH e target qtype client eng h of
             (Inl Int63nPanic, h1) \<Rightarrow> (None, h1)
           | (Inl _, h1) \<Rightarrow> targetRest e zid target qtype h1
           | (Inr (ips, _), h1) \<Rightarrow>
               if gslbRecords target qtype ips \<noteq> []
               then (Some (Inr (gslbRecords target qtype ips, True)), h1)
               else targetRest e zid target qtype h1))"

text \<open>The CNAME records of a name: in the given zone, else in the name's own zone.\<close>

definition cnameRecords ::
  "env \<Rightarrow> rowid \<Rightarrow> string \<Rightarrow> Handler \<Rightarrow> (db_error + Record list) \<times> Handler" where
  "cnameRecords e zid current h = targetLocal e zid current ''CNAME'' h"

text \<open>
  The loop of \<open>resolveCNAMEChain\<close>: \<open>n\<close> passes are left, \<open>records\<close> the chain so far. The result
  is the records, the flag of the load balancer and the error, which the caller only logs;
  \<open>None\<close> is a panic.
\<close>

type_synonym chain = "Record list \<times> bool \<times> db_error option"

fun chainLoop ::
  "env \<Rightarrow> rowid \<Rightarrow> string \<Rightarrow> ip option \<Rightarrow> nat \<Rightarrow> string list \<Rightarrow> string \<Rightarrow> Record list \<Rightarrow> Handler
     \<Rightarrow> chain option \<times> Handler" where
  "chainLoop e zid qtype client 0 visited current records h = (Some (records, False, None), h)"
| "chainLoop e zid qtype client (Suc n) visited current records h =
     (if current \<in> set visited then (Some (records, False, None), h)
      else case cnameRecords e zid current h of
             (Inl err, h1) \<Rightarrow> (Some (records, False, Some err), h1)
           | (Inr [], h1) \<Rightarrow> (Some (records, False, None), h1)
           | (Inr (cname # _), h1) \<Rightarrow>
               (let records' = records @ [cname]; target = withDot (r_Content cname)
                in case resolveTargetRecords e zid target qtype client h1 of
                     (None, h2) \<Rightarrow> (None, h2)
                   | (Some (Inl err), h2) \<Rightarrow> (Some (records', False, Some err), h2)
                   | (Some (Inr (targets, viaGSLB)), h2) \<Rightarrow>
                       if targets \<noteq> [] then (Some (records' @ targets, viaGSLB, None), h2)
                       else chainLoop e zid qtype client n (current # visited) target records' h2))"

definition resolveCNAMEChain ::
  "env \<Rightarrow> rowid \<Rightarrow> string \<Rightarrow> string \<Rightarrow> ip option \<Rightarrow> Handler \<Rightarrow> chain option \<times> Handler" where
  "resolveCNAMEChain e zid domain qtype client h =
     chainLoop e zid qtype client maxCNAMEChainDepth [] domain [] h"

subsection \<open>What the lookups leave alone\<close>

text \<open>
  A quiet step: it may fill the storages' caches and use up database calls, but changes no table,
  sends nothing and leaves the L1 cache, the filter and the configuration as they are.
\<close>

definition quiet :: "Handler \<Rightarrow> Handler \<Rightarrow> bool" where
  "quiet h h' \<longleftrightarrow>
     tables (hn_db h') = tables (hn_db h) \<and> hn_resolver h' = hn_resolver h \<and> hn_cache h' = hn_cache h \<and>
     (hn_gslb h' = None \<longleftrightarrow> hn_gslb h = None) \<and> map_option fst (hn_gslb h') = map_option fst (hn_gslb h) \<and>
     hn_filter h' = hn_filter h \<and> hn_negativeTTL h' = hn_negativeTTL h \<and>
     hn_adblockResponse h' = hn_adblockResponse h \<and> hn_nsid h' = hn_nsid h \<and> hn_version h' = hn_version h"

lemma quiet_refl [simp]: "quiet h h"
  by (simp add: quiet_def)

lemma quiet_trans [trans]: "quiet h h' \<Longrightarrow> quiet h' h'' \<Longrightarrow> quiet h h''"
  by (simp add: quiet_def)

lemma GetRecordsByZone_tables: "GetRecordsByZone now zid d c = (r, d', c') \<Longrightarrow> tables d' = tables d"
  by (auto simp: GetRecordsByZone_def dest: read_through_tables)

lemma GetRecordsByNameAndZone_tables:
  "GetRecordsByNameAndZone now zid name ty d c = (r, d', c') \<Longrightarrow> tables d' = tables d"
  by (auto simp: GetRecordsByNameAndZone_def split: prod.splits sum.splits dest: GetRecordsByZone_tables)

lemma DomainExistsInZone_tables:
  "DomainExistsInZone now zid name d c = (r, d', c') \<Longrightarrow> tables d' = tables d"
  by (auto simp: DomainExistsInZone_def split: prod.splits sum.splits dest: GetRecordsByZone_tables)

lemma quiet_zoneByNameH: "zoneByNameH e name h = (r, h') \<Longrightarrow> quiet h h'"
  by (auto simp: zoneByNameH_def quiet_def split: prod.splits dest: GetZoneByName_frame)

lemma quiet_extractDomainH: "extractDomainH e name h = (r, h') \<Longrightarrow> quiet h h'"
  by (auto simp: extractDomainH_def quiet_def split: prod.splits dest: extractDomain_frame)

lemma quiet_recordsH: "recordsH e zid name ty h = (r, h') \<Longrightarrow> quiet h h'"
  by (auto simp: recordsH_def quiet_def split: prod.splits dest: GetRecordsByNameAndZone_tables)

lemma quiet_existsH: "existsH e zid name h = (r, h') \<Longrightarrow> quiet h h'"
  by (auto simp: existsH_def quiet_def split: prod.splits dest: DomainExistsInZone_tables)

lemma GetPolicyByDomain_tables: "GetPolicyByDomain now dn ty d c = (r, d') \<Longrightarrow> tables d' = tables d"
  by (auto simp: GetPolicyByDomain_def split: option.splits dest: reader_tables)

lemma HasDomain_tables: "HasDomain now dn d c = (r, d') \<Longrightarrow> tables d' = tables d"
  by (auto simp: HasDomain_def split: prod.splits sum.splits option.splits dest!: GetPolicyByDomain_tables)

lemma quiet_hasDomainH: "hasDomainH e name pc h = (r, h') \<Longrightarrow> quiet h h'"
  by (auto simp: hasDomainH_def quiet_def split: prod.splits dest: HasDomain_tables)

lemma pool_reads_tables:
  "GetPoolsByPolicy now i d c = (r, d', c') \<Longrightarrow> tables d' = tables d"
  "GetMembersByPool now i d c = (r', d', c') \<Longrightarrow> tables d' = tables d"
  by (auto simp: GetPoolsByPolicy_def GetMembersByPool_def dest: read_through_tables)

lemma resolvePools_tables:
  "resolvePools now pick hs policy pool fb d c = (r, d', c') \<Longrightarrow> tables d' = tables d"
  by (auto simp: resolvePools_def split: prod.splits sum.splits option.splits if_splits dest!: pool_reads_tables(2))

lemma Resolve_tables:
  assumes "Resolve now geo pick hs dn ty client d pc c = (r, d', c')"
  shows "tables d' = tables d"
proof -
  obtain p d1 where g: "GetPolicyByDomain now dn ty d pc = (p, d1)" by fastforce
  show ?thesis
  proof (cases "\<exists>policy. p = Inr (Some policy)")
    case True
    then obtain policy where p: "p = Inr (Some policy)" by blast
    obtain ps d2 c2 where q: "GetPoolsByPolicy now (p_ID policy) d1 c = (ps, d2, c2)" by (metis prod_cases3)
    have "tables d2 = tables d" using GetPolicyByDomain_tables [OF g] pool_reads_tables(1) [OF q] by simp
    with assms g p q show ?thesis
      by (auto simp: Resolve_def split: sum.splits prod.splits option.splits dest!: resolvePools_tables)
  next
    case False
    with assms g show ?thesis using GetPolicyByDomain_tables [OF g]
      by (auto simp: Resolve_def split: sum.splits option.splits)
  qed
qed

lemma quiet_resolveH:
  "hn_gslb h = Some eng \<Longrightarrow> resolveH e name qtype client eng h = (r, h') \<Longrightarrow> quiet h h'"
  by (auto simp: resolveH_def quiet_def split: prod.splits dest: Resolve_tables)

lemmas quiet_lookups = quiet_zoneByNameH quiet_extractDomainH quiet_recordsH quiet_existsH
  quiet_hasDomainH quiet_resolveH

lemma quiet_targetLocal: "targetLocal e zid target ty h = (r, h') \<Longrightarrow> quiet h h'"
proof -
  assume t: "targetLocal e zid target ty h = (r, h')"
  obtain r1 h1 where 1: "recordsH e zid target ty h = (r1, h1)" by fastforce
  obtain z h2 where 2: "extractDomainH e target h1 = (z, h2)" by fastforce
  obtain r3 h3 where 3: "zoneByNameH e z h2 = (r3, h3)" by fastforce
  note q = quiet_recordsH [OF 1] quiet_extractDomainH [OF 2] quiet_zoneByNameH [OF 3]
  have q3: "quiet h h3" using q quiet_trans by blast
  have "h' = h1 \<or> h' = h3 \<or> quiet h3 h'"
    using t 1 2 3 by (auto simp: targetLocal_def split: sum.splits if_splits option.splits dest: quiet_recordsH)
  with q q3 show ?thesis by (auto intro: quiet_trans)
qed


text \<open>
  A step that may also send: like a quiet one, but the trace of outgoing queries grows by messages
  that all satisfy \<open>P\<close>.
\<close>

definition sends :: "(Msg \<Rightarrow> bool) \<Rightarrow> Handler \<Rightarrow> Handler \<Rightarrow> bool" where
  "sends P h h' \<longleftrightarrow>
     quiet (h\<lparr>hn_resolver := hn_resolver h'\<rparr>) h' \<and> rs_cache (hn_resolver h') = rs_cache (hn_resolver h) \<and>
     (\<exists>extra. sent (hn_resolver h') = sent (hn_resolver h) @ extra \<and> (\<forall>x \<in> set extra. P (snd (snd x))))"

lemma sends_quiet [intro]: "quiet h h' \<Longrightarrow> sends P h h'"
  by (auto simp: sends_def quiet_def)

lemma sends_trans [trans]:
  assumes "sends P h h'" and "sends P h' h''"
  shows "sends P h h''"
proof -
  from assms obtain x y where "sent (hn_resolver h') = sent (hn_resolver h) @ x"
    "sent (hn_resolver h'') = sent (hn_resolver h') @ y" "\<forall>z \<in> set x. P (snd (snd z))" "\<forall>z \<in> set y. P (snd (snd z))"
    unfolding sends_def by blast
  then have "sent (hn_resolver h'') = sent (hn_resolver h) @ (x @ y)" "\<forall>z \<in> set (x @ y). P (snd (snd z))" by auto
  with assms show ?thesis unfolding sends_def by (auto simp: quiet_def)
qed

lemma sends_mono: "sends P h h' \<Longrightarrow> (\<And>m. P m \<Longrightarrow> Q m) \<Longrightarrow> sends Q h h'"
  by (fastforce simp: sends_def)

lemma sends_forwardH: "forwardH e req h = (r, h') \<Longrightarrow> sends (\<lambda>m. m = req) h h'"
proof -
  assume f: "forwardH e req h = (r, h')"
  obtain r1 d rs where F: "Forward (e_net e) (e_now e) req (hn_db h) (hn_resolver h) = (r1, d, rs)" by (metis prod_cases3)
  with f have "h' = h\<lparr>hn_db := d, hn_resolver := rs\<rparr>" by (auto simp: forwardH_def)
  with Forward_sent [OF F] Forward_tables [OF F] show ?thesis by (auto simp: sends_def quiet_def)
qed

definition aliasQuery :: "env \<Rightarrow> string \<Rightarrow> Msg \<Rightarrow> bool" where
  "aliasQuery e qtype m \<longleftrightarrow>
     (\<exists>target. m = (lib_SetQuestion (e_lib e) (lib_Fqdn (e_lib e) target) (lib_StringToType (e_lib e) qtype))
                     \<lparr>m_RecursionDesired := True\<rparr>)"

lemma sends_targetUpstream:
  assumes "targetUpstream e target qtype h = (r, h')"
  shows "sends (aliasQuery e qtype) h h'"
proof -
  let ?msg = "(lib_SetQuestion (e_lib e) (lib_Fqdn (e_lib e) target) (lib_StringToType (e_lib e) qtype))
                  \<lparr>m_RecursionDesired := True\<rparr>"
  obtain x h1 where f: "forwardH e ?msg h = (x, h1)" by fastforce
  with assms have "h' = h1" by (cases x) (auto simp: targetUpstream_def)
  moreover have "aliasQuery e qtype ?msg" by (auto simp: aliasQuery_def)
  ultimately show ?thesis using sends_mono [OF sends_forwardH [OF f]] by blast
qed

lemma sends_targetRest: "targetRest e zid target qtype h = (r, h') \<Longrightarrow> sends (aliasQuery e qtype) h h'"
proof -
  assume t: "targetRest e zid target qtype h = (r, h')"
  obtain r1 h1 where 1: "targetLocal e zid target qtype h = (r1, h1)" by fastforce
  obtain r2 h2 where 2: "targetUpstream e target qtype h1 = (r2, h2)" by fastforce
  have s1: "sends (aliasQuery e qtype) h h1" using quiet_targetLocal [OF 1] by blast
  with sends_targetUpstream [OF 2] have "sends (aliasQuery e qtype) h h2" by (blast intro: sends_trans)
  with s1 t 1 2 show ?thesis by (auto simp: targetRest_def split: sum.splits if_splits)
qed

lemma sends_resolveTargetRecords:
  assumes "resolveTargetRecords e zid target qtype client h = (r, h')"
  shows "sends (aliasQuery e qtype) h h'"
proof (cases "hn_gslb h")
  case None
  with assms show ?thesis by (auto simp: resolveTargetRecords_def intro: sends_targetRest)
next
  case (Some eng)
  obtain x h1 where 1: "resolveH e target qtype client eng h = (x, h1)" by fastforce
  have s: "sends (aliasQuery e qtype) h h1" using quiet_resolveH [OF Some 1] by blast
  from Some assms 1 have "h' = h1 \<or> targetRest e zid target qtype h1 = (r, h')"
    by (auto simp: resolveTargetRecords_def split: sum.splits resolve_error.splits prod.splits if_splits)
  with s show ?thesis by (auto intro: sends_trans dest: sends_targetRest)
qed

text \<open>One pass of the loop: it stops, finds the target's records or fails on them, or goes on.\<close>

lemma chainLoop_step:
  assumes "chainLoop e zid qtype client (Suc n) visited current records h = (r, h')"
  obtains (stop) err where "r = Some (records, False, err)" "quiet h h'"
  | (target) cname rest h1 r2 where "current \<notin> set visited"
      "cnameRecords e zid current h = (Inr (cname # rest), h1)"
      "resolveTargetRecords e zid (withDot (r_Content cname)) qtype client h1 = (r2, h')"
      "r = (case r2 of None \<Rightarrow> None | Some (Inl err) \<Rightarrow> Some (records @ [cname], False, Some err)
            | Some (Inr (targets, via)) \<Rightarrow> Some (records @ [cname] @ targets, via, None))"
      "\<And>via. r2 \<noteq> Some (Inr ([], via))"
  | (again) cname rest h1 h2 via where "current \<notin> set visited"
      "cnameRecords e zid current h = (Inr (cname # rest), h1)"
      "resolveTargetRecords e zid (withDot (r_Content cname)) qtype client h1 = (Some (Inr ([], via)), h2)"
      "chainLoop e zid qtype client n (current # visited) (withDot (r_Content cname)) (records @ [cname]) h2 = (r, h')"
proof (cases "current \<in> set visited")
  case True
  with assms have "r = Some (records, False, None)" "quiet h h'" by auto
  then show ?thesis by (rule stop)
next
  case new: False
  obtain r1 h1 where 1: "cnameRecords e zid current h = (r1, h1)" by fastforce
  have q: "quiet h h1" using quiet_targetLocal [OF 1 [unfolded cnameRecords_def]] .
  show ?thesis
  proof (cases "\<exists>cname rest. r1 = Inr (cname # rest)")
    case False
    with assms 1 new have "\<exists>err. r = Some (records, False, err)" "h' = h1"
      by (auto split: sum.splits list.splits)
    with q stop show ?thesis by blast
  next
    case True
    then obtain cname rest where c: "r1 = Inr (cname # rest)" by blast
    obtain r2 h2 where 2: "resolveTargetRecords e zid (withDot (r_Content cname)) qtype client h1 = (r2, h2)" by fastforce
    show ?thesis
    proof (cases "\<exists>via. r2 = Some (Inr ([], via))")
      case True
      with assms 1 2 c new again show ?thesis by (auto simp: Let_def)
    next
      case False
      with assms 1 2 c new have "h' = h2" and "r = (case r2 of None \<Rightarrow> None
          | Some (Inl err) \<Rightarrow> Some (records @ [cname], False, Some err)
          | Some (Inr (targets, via)) \<Rightarrow> Some (records @ [cname] @ targets, via, None))"
        by (auto simp: Let_def split: option.splits sum.splits prod.splits if_splits)
      with False 1 2 c new target show ?thesis by blast
    qed
  qed
qed

lemma quiet_cnameRecords: "cnameRecords e zid current h = (r, h') \<Longrightarrow> quiet h h'"
  by (simp add: cnameRecords_def quiet_targetLocal)

lemma sends_chainLoop:
  "chainLoop e zid qtype client n visited current records h = (r, h') \<Longrightarrow> sends (aliasQuery e qtype) h h'"
proof (induction n arbitrary: visited current records h)
  case (Suc n)
  from Suc.prems show ?case
  proof (cases rule: chainLoop_step)
    case (target cname rest h1 r2)
    have "sends (aliasQuery e qtype) h h1" using quiet_cnameRecords [OF target(2)] by blast
    then show ?thesis using sends_resolveTargetRecords [OF target(3)] by (rule sends_trans)
  next
    case (again cname rest h1 h2 via)
    have "sends (aliasQuery e qtype) h h1" using quiet_cnameRecords [OF again(2)] by blast
    then have "sends (aliasQuery e qtype) h h2" using sends_resolveTargetRecords [OF again(3)] by (rule sends_trans)
    then show ?thesis using Suc.IH [OF again(4)] by (rule sends_trans)
  qed blast
qed (auto intro: sends_quiet)

lemma sends_resolveCNAMEChain:
  "resolveCNAMEChain e zid domain qtype client h = (r, h') \<Longrightarrow> sends (aliasQuery e qtype) h h'"
  by (auto simp: resolveCNAMEChain_def dest: sends_chainLoop)

text \<open>Without a load balancer nothing can panic.\<close>

lemma sends_gslb_None: "sends P h h' \<Longrightarrow> hn_gslb h' = None \<longleftrightarrow> hn_gslb h = None"
  by (auto simp: sends_def quiet_def)

lemma resolveTargetRecords_no_panic:
  "hn_gslb h = None \<Longrightarrow> resolveTargetRecords e zid target qtype client h \<noteq> (None, h')"
  by (auto simp: resolveTargetRecords_def targetRest_def split: prod.splits sum.splits if_splits)

lemma chainLoop_no_panic:
  "hn_gslb h = None \<Longrightarrow> chainLoop e zid qtype client n visited current records h = (r, h') \<Longrightarrow> r \<noteq> None"
proof (induction n arbitrary: visited current records h)
  case (Suc n)
  from Suc.prems(2) show ?case
  proof (cases rule: chainLoop_step)
    case (target cname rest h1 r2)
    have "hn_gslb h1 = None" using quiet_cnameRecords [OF target(2)] Suc.prems(1) by (simp add: quiet_def)
    with resolveTargetRecords_no_panic target(3) have "r2 \<noteq> None" by metis
    with target(4) show ?thesis by (auto split: sum.splits)
  next
    case (again cname rest h1 h2 via)
    have "hn_gslb h1 = None" using quiet_cnameRecords [OF again(2)] Suc.prems(1) by (simp add: quiet_def)
    then have "hn_gslb h2 = None" using sends_gslb_None [OF sends_resolveTargetRecords [OF again(3)]] by simp
    from Suc.IH [OF this again(4)] show ?thesis .
  qed simp
qed auto

subsection \<open>The shape of a CNAME chain\<close>

fun alias_chain :: "string \<Rightarrow> Record list \<Rightarrow> bool" where
  "alias_chain current [] = True"
| "alias_chain current (c # cs) =
     (r_Name c = current \<and> r_Type c = ''CNAME'' \<and> alias_chain (withDot (r_Content c)) cs)"

definition named :: "string \<Rightarrow> string \<Rightarrow> Record list \<Rightarrow> bool" where
  "named name ty rs \<longleftrightarrow> (\<forall>r \<in> set rs. r_Name r = name \<and> r_Type r = ty)"

lemma named_Nil [simp]: "named name ty []"
  by (simp add: named_def)

lemma named_wildcardLoop: "named q ty (wildcardLoop recs q ty labels is)"
  by (induction "is") (auto simp: named_def wildcardMatches_def Let_def)

lemma named_recordsByNameIn: "named name ty (recordsByNameIn recs name ty)"
  using named_wildcardLoop [of name ty recs]
  by (auto simp: recordsByNameIn_def findWildcardRecords_def exactRecords_def named_def Let_def)

lemma named_recordsH: "recordsH e zid name ty h = (Inr rs, h') \<Longrightarrow> named name ty rs"
  using named_recordsByNameIn
  by (auto simp: recordsH_def GetRecordsByNameAndZone_def split: prod.splits sum.splits)

lemma named_targetLocal:
  assumes "targetLocal e zid target ty h = (Inr rs, h')"
  shows "named target ty rs"
proof -
  obtain r1 h1 where 1: "recordsH e zid target ty h = (r1, h1)" by fastforce
  obtain z h2 where 2: "extractDomainH e target h1 = (z, h2)" by fastforce
  obtain r3 h3 where 3: "zoneByNameH e z h2 = (r3, h3)" by fastforce
  have "rs = [] \<or> r1 = Inr rs \<or> (\<exists>zid' h4. recordsH e zid' target ty h3 = (Inr rs, h4))"
    using assms 1 2 3 by (auto simp: targetLocal_def split: sum.splits if_splits option.splits)
  with 1 show ?thesis by (auto dest: named_recordsH)
qed

lemma named_gslbRecords: "named target qtype (gslbRecords target qtype ips)"
  by (auto simp: named_def gslbRecords_def addressRecord_def map_filter_def split: if_splits)

lemma named_upstreamRecords: "named target qtype (upstreamRecords target qtype rrs)"
  by (auto simp: named_def upstreamRecords_def addressRecord_def map_filter_def split: if_splits RR.splits)

lemma named_targetRest:
  "targetRest e zid target qtype h = (Some (Inr (rs, via)), h') \<Longrightarrow> named target qtype rs"
  by (auto simp: targetRest_def targetUpstream_def Let_def named_upstreamRecords
      split: prod.splits sum.splits if_splits dest: named_targetLocal)

lemma named_resolveTargetRecords:
  assumes "resolveTargetRecords e zid target qtype client h = (Some (Inr (rs, via)), h')"
  shows "named target qtype rs"
proof (cases "hn_gslb h")
  case None
  with assms show ?thesis by (auto simp: resolveTargetRecords_def dest: named_targetRest)
next
  case (Some eng)
  obtain x h1 where 1: "resolveH e target qtype client eng h = (x, h1)" by fastforce
  from Some assms 1 have "(\<exists>ips. rs = gslbRecords target qtype ips) \<or>
      targetRest e zid target qtype h1 = (Some (Inr (rs, via)), h')"
    by (auto simp: resolveTargetRecords_def split: sum.splits resolve_error.splits prod.splits if_splits)
  with named_gslbRecords named_targetRest show ?thesis by metis
qed

lemma chainLoop_shape:
  assumes "chainLoop e zid qtype client n visited current records h = (Some (rs, via, err), h')"
  shows "\<exists>cs ts. rs = records @ cs @ ts \<and> length cs \<le> n \<and> alias_chain current cs \<and>
           distinct (map r_Name cs) \<and> r_Name ` set cs \<inter> set visited = {} \<and>
           (ts \<noteq> [] \<longrightarrow> cs \<noteq> [] \<and> named (withDot (r_Content (last cs))) qtype ts)"
  using assms
proof (induction n arbitrary: visited current records h)
  case 0
  then show ?case by (intro exI [of _ "[]"]) simp
next
  case (Suc n)
  from Suc.prems show ?case
  proof (cases rule: chainLoop_step)
    case (stop err)
    then show ?thesis by (intro exI [of _ "[]"]) simp
  next
    case (target cname rest h1 r2)
    have c: "r_Name cname = current" "r_Type cname = ''CNAME''"
      using named_targetLocal [OF target(2) [unfolded cnameRecords_def]] by (simp_all add: named_def)
    have "\<exists>ts. rs = records @ [cname] @ ts \<and> named (withDot (r_Content cname)) qtype ts"
      using target(3,4) named_resolveTargetRecords
      by (cases r2) (auto split: sum.splits prod.splits)
    then obtain ts where "rs = records @ [cname] @ ts" "named (withDot (r_Content cname)) qtype ts" by blast
    with c target(1) show ?thesis by (intro exI [of _ "[cname]"] exI [of _ ts]) auto
  next
    case (again cname rest h1 h2 via')
    have c: "r_Name cname = current" "r_Type cname = ''CNAME''"
      using named_targetLocal [OF again(2) [unfolded cnameRecords_def]] by (simp_all add: named_def)
    from Suc.IH [OF again(4)] obtain cs ts where
      ih: "rs = (records @ [cname]) @ cs @ ts" "length cs \<le> n" "alias_chain (withDot (r_Content cname)) cs"
        "distinct (map r_Name cs)" "r_Name ` set cs \<inter> set (current # visited) = {}"
        "ts \<noteq> [] \<longrightarrow> cs \<noteq> [] \<and> named (withDot (r_Content (last cs))) qtype ts" by blast
    with c again(1) show ?thesis by (intro exI [of _ "cname # cs"] exI [of _ ts]) auto
  qed
qed

text \<open>
  C20: A CNAME chain is followed correctly and always ends. Whatever the zones contain (alias loops
  included), the result is a list of at most eight CNAME records, the first owned by the queried
  name and each next one by the target of the one before, no owner twice, followed by records of
  the requested type, if any were found, that belong to the target of the last alias.
\<close>

theorem cname_chain_shape:
  assumes "resolveCNAMEChain e zid domain qtype client h = (Some (rs, via, err), h')"
  shows "\<exists>cs ts. rs = cs @ ts \<and> length cs \<le> 8 \<and> alias_chain domain cs \<and> distinct (map r_Name cs) \<and>
           (ts \<noteq> [] \<longrightarrow> cs \<noteq> [] \<and>
              (\<forall>t \<in> set ts. r_Name t = withDot (r_Content (last cs)) \<and> r_Type t = qtype))"
  using chainLoop_shape [OF assms [unfolded resolveCNAMEChain_def]]
  by (auto simp: maxCNAMEChainDepth_def named_def)


text \<open>A handler on a small database with an alias loop, an alias of an address and no upstream.\<close>

definition sample_env :: env where
  "sample_env =
     \<lparr>e_lib = sample_lib, e_net = sample_net, e_now = 5, e_elapsed = 0, e_geo = None, e_pick = (\<lambda>_ _. 0),
      e_health = Map.empty, e_rx = \<lparr>re_compiles = (\<lambda>_. True), re_matches = (\<lambda>_ _. False)\<rparr>, e_remote = Some (''192.0.2.200:4711'', False)\<rparr>"

definition alias_db :: db where
  "alias_db = sample_db\<lparr>tables := (tables sample_db)\<lparr>t_records :=
      [sample_record 1 ''www.example.com.'' ''A'' ''192.0.2.1'',
       sample_record 2 ''a.example.com.'' ''CNAME'' ''b.example.com'',
       sample_record 3 ''b.example.com.'' ''CNAME'' ''a.example.com.'',
       sample_record 4 ''web.example.com.'' ''CNAME'' ''www.example.com.'']\<rparr>\<rparr>"

definition sample_handler :: Handler where
  "sample_handler =
     \<lparr>hn_cache = Some (NewDNSCache 100 300 300 (9 / 10)), hn_zones = NewZoneStorage, hn_records = NewRecordStorage,
      hn_tracker = Some (newLastQueryTracker 0), hn_log = Some (newBufferedBatch 0 0), hn_resolver = NewResolver,
      hn_stats = Some NewQueryStats, hn_gslb = None, hn_filter = None, hn_adstats = None,
      hn_adblockResponse = ''NXDOMAIN'', hn_nsid = ''ns1'', hn_version = ''dns-go'', hn_negativeTTL = 300,
      hn_db = alias_db\<rparr>"

definition chain_names :: "chain option \<Rightarrow> (string \<times> string) list" where
  "chain_names r = (case r of None \<Rightarrow> [] | Some (rs, _) \<Rightarrow> map (\<lambda>r. (r_Name r, r_Type r)) rs)"

lemma sample_chain:
  "chain_names (fst (resolveCNAMEChain sample_env 1 ''a.example.com.'' ''A'' None sample_handler)) =
     [(''a.example.com.'', ''CNAME''), (''b.example.com.'', ''CNAME'')]"
  by code_simp

theorem cname_chain_shape_witness:
  "\<exists>rs via err h' cs ts.
     resolveCNAMEChain sample_env 1 ''a.example.com.'' ''A'' None sample_handler = (Some (rs, via, err), h') \<and>
     map r_Name rs = [''a.example.com.'', ''b.example.com.''] \<and> rs = cs @ ts \<and> length cs \<le> 8 \<and>
     alias_chain ''a.example.com.'' cs"
proof -
  obtain r h' where run: "resolveCNAMEChain sample_env 1 ''a.example.com.'' ''A'' None sample_handler = (r, h')"
    by fastforce
  with sample_chain obtain rs via err where r: "r = Some (rs, via, err)"
    and rs: "map (\<lambda>r. (r_Name r, r_Type r)) rs = [(''a.example.com.'', ''CNAME''), (''b.example.com.'', ''CNAME'')]"
    by (cases r) (auto simp: chain_names_def)
  have names: "map r_Name rs = [''a.example.com.'', ''b.example.com.'']"
    using arg_cong [OF rs, of "map fst"] by (simp add: comp_def)
  note run' = run [unfolded r]
  from cname_chain_shape [OF run'] obtain cs ts where
    "rs = cs @ ts" "length cs \<le> 8" "alias_chain ''a.example.com.'' cs" by blast
  with run' names show ?thesis by (intro exI conjI)
qed

end
