(* ===== verification/Handler.thy ===== *)
theory Handler
  imports HandlerState
begin

section \<open>Answering a query (dns/handler.go, dns/server.go)\<close>

text \<open>
  \<open>ServeDNS\<close> is a cascade of stages, each of which answers or passes on: malformed, CHAOS and ANY
  queries; the L1 cache; the ad-block filter; the load balancer; the local zones; names that
  must not leave the network; the upstream servers. A stage returns a \<open>flow\<close>: \<open>Answer\<close> carries
  the response and the source it is logged under; every such branch of the code logs the query,
  writes the response and returns, which \<open>finish\<close> does. \<open>Abort\<close> is the panic of \<^verbatim>\<open>rand.Int63n\<close>
  or a cache lookup that does not return. The Prometheus metrics are left out.
\<close>

datatype abort = Panic | Loops

datatype flow = Answer Msg string Handler | Pass Handler | Abort abort

subsection \<open>Responses\<close>

definition hexByte :: "char \<Rightarrow> string" where
  "hexByte c =
     (let n = (of_char c :: int); digit = (\<lambda>d. char_of (if d < 10 then d + 48 else d + 87))
      in [digit (n div 16), digit (n mod 16)])"

definition EncodeToString :: "string \<Rightarrow> string" where
  "EncodeToString s = concat (map hexByte s)"

fun isNSID :: "EdnsOption \<Rightarrow> bool" where
  "isNSID (EDNS0_NSID _) = True"
| "isNSID (EDNS0_SUBNET _) = False"
| "isNSID (EDNS0_OTHER _) = False"

definition setEDNS0 :: "dnslib \<Rightarrow> string \<Rightarrow> Msg \<Rightarrow> Msg \<Rightarrow> Msg" where
  "setEDNS0 lib nsid resp req =
     (case m_Opt req of
        None \<Rightarrow> resp
      | Some opt \<Rightarrow>
          (let resp' = lib_SetEdns0 lib 1232 False resp
           in if list_ex isNSID (o_Option opt) \<and> nsid \<noteq> [] then
                (case m_Opt resp' of
                   None \<Rightarrow> resp'
                 | Some ro \<Rightarrow>
                     resp'\<lparr>m_Opt := Some (ro\<lparr>o_Option := o_Option ro @ [EDNS0_NSID (EncodeToString nsid)]\<rparr>)\<rparr>)
              else resp'))"

fun subnetAddress :: "EdnsOption list \<Rightarrow> ip option" where
  "subnetAddress [] = None"
| "subnetAddress (EDNS0_SUBNET a # _) = a"
| "subnetAddress (EDNS0_NSID _ # os) = subnetAddress os"
| "subnetAddress (EDNS0_OTHER _ # os) = subnetAddress os"

definition ExtractClientIP :: "Msg \<Rightarrow> ip option" where
  "ExtractClientIP r = (case m_Opt r of None \<Rightarrow> None | Some opt \<Rightarrow> subnetAddress (o_Option opt))"

definition remoteHost :: "env \<Rightarrow> string option" where
  "remoteHost e =
     (case e_remote e of None \<Rightarrow> None | Some (addr, _) \<Rightarrow> map_option fst (SplitHostPort addr))"

definition clientAddress :: "env \<Rightarrow> Msg \<Rightarrow> ip option" where
  "clientAddress e req =
     (case ExtractClientIP req of
        Some a \<Rightarrow> Some a
      | None \<Rightarrow> (case remoteHost e of None \<Rightarrow> None | Some host \<Rightarrow> ParseIP host))"

definition logQuery :: "env \<Rightarrow> Msg \<Rightarrow> Msg \<Rightarrow> string \<Rightarrow> Handler \<Rightarrow> Handler" where
  "logQuery e req resp source h =
     (case m_Question req of
        [] \<Rightarrow> h
      | q # _ \<Rightarrow>
          h\<lparr>hn_log := queryLogRecord
             \<lparr>ql_ID = 0, ql_Timestamp = e_now e,
              ql_ClientIP = (case remoteHost e of None \<Rightarrow> '''' | Some host \<Rightarrow> host),
              ql_Domain = ToLower (q_Name q),
              ql_QueryType = lib_TypeToString (e_lib e) (q_Qtype q),
              ql_ResponseCode = lib_RcodeToString (e_lib e) (m_Rcode resp),
              ql_ResponseSource = source,
              ql_LatencyMs = of_int (e_elapsed e) / 1000,
              ql_ResponseData = summarizeAnswers (e_lib e) (m_Answer resp),
              ql_Protocol = (case e_remote e of Some (_, True) \<Rightarrow> ''tcp'' | _ \<Rightarrow> ''udp''),
              ql_ResponseSize = lib_Len (e_lib e) resp,
              ql_EDNSPresent = (m_Opt req \<noteq> None),
              ql_EDNSVersion = (case m_Opt req of None \<Rightarrow> 0 | Some opt \<Rightarrow> o_Version opt),
              ql_EDNSBufferSize = (case m_Opt req of None \<Rightarrow> 0 | Some opt \<Rightarrow> o_UDPSize opt)\<rparr> (hn_log h)\<rparr>)"

definition chaosTXT :: "string \<Rightarrow> string \<Rightarrow> RR" where
  "chaosTXT name txt =
     RR_TXT \<lparr>h_Name = name, h_Rrtype = TypeTXT, h_Class = ClassCHAOS, h_Ttl = 0\<rparr> [txt]"

definition handleCHAOS :: "Msg \<Rightarrow> Question \<Rightarrow> Handler \<Rightarrow> flow" where
  "handleCHAOS resp q h =
     (let domain = ToLower (q_Name q);
          reply = (\<lambda>txt. resp\<lparr>m_Authoritative := True, m_Answer := [chaosTXT (q_Name q) txt],
                             m_Rcode := RcodeSuccess\<rparr>)
      in if domain \<in> {''version.bind.'', ''version.server.''} \<and> q_Qtype q = TypeTXT
         then Answer (reply (hn_version h)) ''chaos'' h
         else if domain \<in> {''hostname.bind.'', ''hostname.server.''} \<and> q_Qtype q = TypeTXT
         then Answer (reply (hn_nsid h)) ''chaos'' h
         else if domain = ''id.server.'' \<and> q_Qtype q = TypeTXT
         then Answer (reply (hn_nsid h)) ''chaos'' h
         else Answer (resp\<lparr>m_Rcode := RcodeRefused\<rparr>) ''chaos'' h)"

text \<open>\<open>zoneName := h.extractDomain(domain); resp.Ns = []dns.RR{h.buildSOA(zoneName)}\<close>\<close>

definition withSOA :: "env \<Rightarrow> string \<Rightarrow> Msg \<Rightarrow> Handler \<Rightarrow> Msg \<times> Handler" where
  "withSOA e domain resp h =
     (case extractDomainH e domain h of
        (z, h') \<Rightarrow> (resp\<lparr>m_Ns := [buildSOA (hn_negativeTTL h') z]\<rparr>, h'))"

subsection \<open>The stages\<close>

definition incStats :: "(QueryStats \<Rightarrow> QueryStats) \<Rightarrow> Handler \<Rightarrow> Handler" where
  "incStats f h = h\<lparr>hn_stats := map_option f (hn_stats h)\<rparr>"

text \<open>
  A hit may trigger a prefetch: the cache then records the call of its callback, which runs in a goroutine of
  its own, after or beside the request; it is \<open>handlePrefetch\<close> of \<open>HandlerOps\<close>.
\<close>

definition cacheStage :: "env \<Rightarrow> Msg \<Rightarrow> string \<Rightarrow> string \<Rightarrow> Handler \<Rightarrow> flow" where
  "cacheStage e resp domain qtype h =
     (case hn_cache h of
        None \<Rightarrow> Pass (incStats IncL1Miss h)
      | Some c \<Rightarrow>
          (case cacheGet (e_now e) domain qtype c of
             None \<Rightarrow> Abort Loops
           | Some (None, c') \<Rightarrow> Pass (incStats IncL1Miss (h\<lparr>hn_cache := Some c'\<rparr>))
           | Some (Some entry, c') \<Rightarrow>
               (let h' = incStats IncL1Hit (h\<lparr>hn_cache := Some c'\<rparr>)
                in if IsNegative entry then
                     (case withSOA e domain (resp\<lparr>m_Rcode := RcodeNameError\<rparr>) h' of
                        (resp', h'') \<Rightarrow> Answer resp' ''cache'' h'')
                   else Answer (resp\<lparr>m_Answer := RRs entry, m_Rcode := RcodeSuccess\<rparr>) ''cache'' h')))"

definition blockedNXDOMAIN :: "env \<Rightarrow> Msg \<Rightarrow> string \<Rightarrow> string \<Rightarrow> Handler \<Rightarrow> flow" where
  "blockedNXDOMAIN e resp domain qtype h =
     (case withSOA e domain (resp\<lparr>m_Rcode := RcodeNameError\<rparr>) h of
        (resp', h') \<Rightarrow> Answer resp' ''adblock'' (setCache e domain qtype [] 0 True h'))"

definition adblockStage :: "env \<Rightarrow> Msg \<Rightarrow> Msg \<Rightarrow> string \<Rightarrow> string \<Rightarrow> Handler \<Rightarrow> flow" where
  "adblockStage e req resp domain qtype h =
     (case hn_filter h of
        None \<Rightarrow> Pass h
      | Some f \<Rightarrow>
          if \<not> IsBlocked (e_rx e) f domain then Pass h
          else
            (let h1 = (case clientAddress e req of
                         None \<Rightarrow> h
                       | Some a \<Rightarrow> h\<lparr>hn_adstats := adblockStatsRecord domain (ip_string a) (hn_adstats h)\<rparr>);
                 sink = (\<lambda>rr. Answer (resp\<lparr>m_Answer := [rr], m_Rcode := RcodeSuccess\<rparr>) ''adblock''
                                (setCache e domain qtype [rr] 60 False h1))
             in if ToUpper (hn_adblockResponse h1) = ''NXDOMAIN'' then blockedNXDOMAIN e resp domain qtype h1
                else if qtype = ''A'' then
                  sink (RR_A \<lparr>h_Name = domain, h_Rrtype = TypeA, h_Class = ClassINET, h_Ttl = 60\<rparr> (v4_mapped 0))
                else if qtype = ''AAAA'' then
                  sink (RR_AAAA \<lparr>h_Name = domain, h_Rrtype = TypeAAAA, h_Class = ClassINET, h_Ttl = 60\<rparr> 0)
                else blockedNXDOMAIN e resp domain qtype h1))"

definition gslbAnswers :: "string \<Rightarrow> string \<Rightarrow> 32 word \<Rightarrow> ip list \<Rightarrow> RR list" where
  "gslbAnswers domain qtype ttl ips =
     List.map_filter
       (\<lambda>a. if qtype = ''A'' then
              (if is_v4 a
               then Some (RR_A \<lparr>h_Name = domain, h_Rrtype = TypeA, h_Class = ClassINET, h_Ttl = ttl\<rparr> a) else None)
            else if qtype = ''AAAA'' then
              (if \<not> is_v4 a
               then Some (RR_AAAA \<lparr>h_Name = domain, h_Rrtype = TypeAAAA, h_Class = ClassINET, h_Ttl = ttl\<rparr> a) else None)
            else None) ips"

definition gslbEmpty :: "env \<Rightarrow> Msg \<Rightarrow> string \<Rightarrow> string \<Rightarrow> PolicyCache \<Rightarrow> Handler \<Rightarrow> flow" where
  "gslbEmpty e resp domain qtype pc h =
     (case hasDomainH e domain pc h of
        (False, h1) \<Rightarrow> Pass h1
      | (True, h1) \<Rightarrow>
          (case withSOA e domain (resp\<lparr>m_Rcode := RcodeSuccess\<rparr>) h1 of
             (resp', h2) \<Rightarrow> Answer resp' ''gslb'' (setCache e domain qtype [] 0 False h2)))"

definition gslbStage :: "env \<Rightarrow> Msg \<Rightarrow> Msg \<Rightarrow> string \<Rightarrow> string \<Rightarrow> Handler \<Rightarrow> flow" where
  "gslbStage e req resp domain qtype h =
     (case hn_gslb h of
        None \<Rightarrow> Pass h
      | Some eng \<Rightarrow>
          (case resolveH e domain qtype (clientAddress e req) eng h of
             (Inl Int63nPanic, _) \<Rightarrow> Abort Panic
           | (Inl _, h1) \<Rightarrow> gslbEmpty e resp domain qtype (fst eng) h1
           | (Inr (ips, ttl), h1) \<Rightarrow>
               if gslbAnswers domain qtype ttl ips \<noteq> [] then
                 Answer (resp\<lparr>m_Answer := gslbAnswers domain qtype ttl ips, m_Rcode := RcodeSuccess\<rparr>) ''gslb'' h1
               else gslbEmpty e resp domain qtype (fst eng) h1))"

text \<open>The answer from records: authoritative, with the zone's NS records, and cached unless it
  went through the load balancer.\<close>

definition zoneAnswer ::
  "env \<Rightarrow> Msg \<Rightarrow> Question \<Rightarrow> string \<Rightarrow> string \<Rightarrow> string \<Rightarrow> Zone \<Rightarrow> Record list \<Rightarrow> bool \<Rightarrow> Handler \<Rightarrow> flow" where
  "zoneAnswer e resp q domain qtype zoneName zone records viaGSLB h =
     (let resp1 = resp\<lparr>m_Authoritative := True,
                       m_Answer := m_Answer (buildResponse (e_lib e) q records), m_Rcode := RcodeSuccess\<rparr>
      in case recordsH e (z_ID zone) zoneName ''NS'' h of
           (ns, h1) \<Rightarrow>
             (let resp2 = (case ns of
                             Inl _ \<Rightarrow> resp1
                           | Inr nsRecords \<Rightarrow> resp1\<lparr>m_Ns := m_Ns resp1 @ answersOf (e_lib e) nsRecords\<rparr>)
              in Answer resp2 ''zone''
                   (if viaGSLB then h1
                    else setCache e domain qtype (m_Answer resp2) (minTTL (map r_TTL records)) False h1)))"

text \<open>A zone without matching records: NODATA if the name exists, else NXDOMAIN or fallback.\<close>

definition zoneEmpty ::
  "env \<Rightarrow> Msg \<Rightarrow> string \<Rightarrow> string \<Rightarrow> string \<Rightarrow> Zone \<Rightarrow> Handler \<Rightarrow> flow" where
  "zoneEmpty e resp domain qtype zoneName zone h =
     (case existsH e (z_ID zone) domain h of
        (r, h1) \<Rightarrow>
          (let exists = (case r of Inl _ \<Rightarrow> False | Inr b \<Rightarrow> b);
               soa = [buildSOA (hn_negativeTTL h1) zoneName];
               nodata = (\<lambda>m. Answer (m\<lparr>m_Rcode := RcodeSuccess, m_Ns := soa\<rparr>) ''zone''
                               (setCache e domain qtype [] 0 False h1))
           in if \<not> z_AllowFallback zone then
                (if \<not> exists then Answer (resp\<lparr>m_Rcode := RcodeNameError, m_Ns := soa\<rparr>) ''zone'' h1
                 else nodata resp)
              else if exists then nodata (resp\<lparr>m_Authoritative := True\<rparr>)
              else Pass h1))"

definition zoneStage ::
  "env \<Rightarrow> Msg \<Rightarrow> Msg \<Rightarrow> Question \<Rightarrow> string \<Rightarrow> string \<Rightarrow> Handler \<Rightarrow> flow" where
  "zoneStage e req resp q domain qtype h =
     (case extractDomainH e domain h of (zoneName, h0) \<Rightarrow>
        (case zoneByNameH e zoneName h0 of
           (Inl _, h1) \<Rightarrow> Answer (resp\<lparr>m_Rcode := RcodeServerFailure\<rparr>) ''error'' h1
         | (Inr None, h1) \<Rightarrow> Pass h1
         | (Inr (Some zone), h1) \<Rightarrow>
             (case recordsH e (z_ID zone) domain qtype h1 of
                (Inl _, h2) \<Rightarrow> Answer (resp\<lparr>m_Rcode := RcodeServerFailure\<rparr>) ''error'' h2
              | (Inr records, h2) \<Rightarrow>
                  if records \<noteq> [] then zoneAnswer e resp q domain qtype zoneName zone records False h2
                  else if qtype = ''A'' \<or> qtype = ''AAAA'' then
                    (case resolveCNAMEChain e (z_ID zone) domain qtype
                            (if hn_gslb h2 = None then None else clientAddress e req) h2 of
                       (None, _) \<Rightarrow> Abort Panic
                     | (Some (chain, viaGSLB, _), h3) \<Rightarrow>
                         if chain \<noteq> [] then zoneAnswer e resp q domain qtype zoneName zone chain viaGSLB h3
                         else zoneEmpty e resp domain qtype zoneName zone h3)
                  else zoneEmpty e resp domain qtype zoneName zone h2)))"

text \<open>Names that stay local, and queries that do not ask for recursion.\<close>

definition localStage :: "env \<Rightarrow> Msg \<Rightarrow> Msg \<Rightarrow> string \<Rightarrow> string \<Rightarrow> Handler \<Rightarrow> flow" where
  "localStage e req resp domain qtype h =
     (case privateIPv4ReverseZone domain of
        Some z \<Rightarrow>
          Answer (resp\<lparr>m_Rcode := RcodeNameError, m_Ns := [buildSOA (hn_negativeTTL h) z]\<rparr>) ''local''
            (setCache e domain qtype [] 0 True h)
      | None \<Rightarrow>
          (case localUseResponse domain qtype of
             Some (answer, z) \<Rightarrow>
               Answer (resp\<lparr>m_Rcode := RcodeSuccess, m_Answer := answer,
                            m_Ns := [buildSOA (hn_negativeTTL h) z]\<rparr>) ''local''
                 (setCache e domain qtype answer 300 False h)
           | None \<Rightarrow>
               if \<not> m_RecursionDesired req then Answer (resp\<lparr>m_Rcode := RcodeRefused\<rparr>) ''refused'' h
               else Pass h))"

definition upstreamStage :: "env \<Rightarrow> Msg \<Rightarrow> Msg \<Rightarrow> string \<Rightarrow> string \<Rightarrow> Handler \<Rightarrow> flow" where
  "upstreamStage e req resp domain qtype h =
     (case forwardH e req h of
        (Inl _, h1) \<Rightarrow>
          (case withSOA e domain (resp\<lparr>m_Rcode := RcodeNameError\<rparr>) h1 of
             (resp', h2) \<Rightarrow> Answer resp' ''upstream'' (setCache e domain qtype [] 0 True h2))
      | (Inr up, h1) \<Rightarrow>
          (let h2 = incStats IncUpstreamHit h1;
               h3 = (if m_Answer up \<noteq> [] then
                       setCache e domain qtype (m_Answer up)
                         (minTTL (map (\<lambda>rr. uint (h_Ttl (Header rr))) (m_Answer up))) False h2
                     else if m_Rcode up = RcodeNameError then setCache e domain qtype [] 0 True h2
                     else h2)
           in Answer up ''upstream'' h3))"

subsection \<open>ServeDNS\<close>

definition and_pass :: "flow \<Rightarrow> (Handler \<Rightarrow> flow) \<Rightarrow> flow" where
  "and_pass f k = (case f of Answer m s h \<Rightarrow> Answer m s h | Pass h \<Rightarrow> k h | Abort a \<Rightarrow> Abort a)"

definition initialResponse :: "env \<Rightarrow> Msg \<Rightarrow> Handler \<Rightarrow> Msg" where
  "initialResponse e req h =
     setEDNS0 (e_lib e) (hn_nsid h)
       ((lib_SetReply (e_lib e) req)\<lparr>m_Authoritative := False, m_RecursionAvailable := True\<rparr>) req"

text \<open>The stages after the query has been accepted; \<open>h\<close> has counted it and recorded its time.\<close>

definition serveQuestion :: "env \<Rightarrow> Msg \<Rightarrow> Msg \<Rightarrow> Question \<Rightarrow> Handler \<Rightarrow> flow" where
  "serveQuestion e req resp q h =
     (let domain = ToLower (q_Name q); qtype = lib_TypeToString (e_lib e) (q_Qtype q)
      in and_pass (cacheStage e resp domain qtype h) (\<lambda>h.
         and_pass (adblockStage e req resp domain qtype h) (\<lambda>h.
         and_pass (gslbStage e req resp domain qtype h) (\<lambda>h.
         and_pass (zoneStage e req resp q domain qtype h) (\<lambda>h.
         and_pass (localStage e req resp domain qtype h) (\<lambda>h.
         upstreamStage e req resp domain qtype h))))))"

definition serveFlow :: "env \<Rightarrow> Msg \<Rightarrow> Handler \<Rightarrow> flow" where
  "serveFlow e req h0 =
     (let h = incStats IncTotal h0; resp = initialResponse e req h
      in case m_Question req of
           [] \<Rightarrow> Answer (resp\<lparr>m_Rcode := RcodeFormatError\<rparr>) ''error'' h
         | q # _ \<Rightarrow>
             if q_Qclass q = ClassCHAOS then handleCHAOS resp q h
             else if q_Qtype q = TypeANY then Answer (resp\<lparr>m_Rcode := RcodeNotImplemented\<rparr>) ''blocked'' h
             else serveQuestion e req resp q
                    (h\<lparr>hn_tracker := map_option (trackerRecord (ToLower (q_Name q)) (e_now e)) (hn_tracker h)\<rparr>))"

text \<open>The whole handler: the messages written to the client, and the handler afterwards.\<close>

definition ServeDNS :: "env \<Rightarrow> Msg \<Rightarrow> Handler \<Rightarrow> abort + Msg list \<times> Handler" where
  "ServeDNS e req h =
     (case serveFlow e req h of
        Abort a \<Rightarrow> Inl a
      | Pass h' \<Rightarrow> Inr ([], h')
      | Answer resp source h' \<Rightarrow> Inr ([resp], logQuery e req resp source h'))"

subsection \<open>What a request does outside the tables\<close>

text \<open>
  The L1 cache as requests and prefetches use it: lookups and stores, here of keys that satisfy \<open>K\<close>.
\<close>

inductive cache_run :: "(string \<times> string \<Rightarrow> bool) \<Rightarrow> DNSCache option \<Rightarrow> DNSCache option \<Rightarrow> bool" where
  cr_refl: "cache_run K c c"
| cr_get: "cache_run K c (Some c1) \<Longrightarrow> K (d, q) \<Longrightarrow> cacheGet now d q c1 = Some (r, c2) \<Longrightarrow> cache_run K c (Some c2)"
| cr_set: "cache_run K c c1 \<Longrightarrow> K (d, q) \<Longrightarrow> cache_run K c (map_option (cacheSet now d q rrs ttl neg) c1)"

lemma cache_run_trans:
  assumes "cache_run K c1 c2" and "cache_run K c c1"
  shows "cache_run K c c2"
  using assms by (induction rule: cache_run.induct) (blast intro: cr_get cr_set)+

lemma cache_run_mono:
  assumes "cache_run K c c'" and "\<And>k. K k \<Longrightarrow> K' k"
  shows "cache_run K' c c'"
  using assms
proof (induction rule: cache_run.induct)
  case (cr_get K c c1 d q now r c2)
  from cache_run.cr_get [OF cr_get.IH [OF cr_get.prems] cr_get.prems [OF cr_get.hyps(2)] cr_get.hyps(3)] show ?case .
next
  case (cr_set K c c1 d q now rrs ttl neg)
  from cache_run.cr_set [OF cr_set.IH [OF cr_set.prems] cr_set.prems [OF cr_set.hyps(2)]] show ?case .
qed (rule cr_refl)

text \<open>
  The effects of a request: messages to upstream servers, and the L1 keys it looks up or stores.
  \<open>told P h h'\<close>: between \<open>h\<close> and \<open>h'\<close> there were only effects that satisfy \<open>P\<close>.
\<close>

datatype effect = Sends Msg | Touches "string \<times> string"

definition told :: "(effect \<Rightarrow> bool) \<Rightarrow> Handler \<Rightarrow> Handler \<Rightarrow> bool" where
  "told P h h' \<longleftrightarrow>
     (hn_gslb h' = None \<longleftrightarrow> hn_gslb h = None) \<and>
     (\<exists>extra. sent (hn_resolver h') = sent (hn_resolver h) @ extra \<and> (\<forall>x \<in> set extra. P (Sends (snd (snd x))))) \<and>
     cache_run (\<lambda>k. P (Touches k)) (hn_cache h) (hn_cache h')"

fun flow_told :: "(effect \<Rightarrow> bool) \<Rightarrow> Handler \<Rightarrow> flow \<Rightarrow> bool" where
  "flow_told P h (Answer m s h') = told P h h'"
| "flow_told P h (Pass h') = told P h h'"
| "flow_told P h (Abort a) = True"

lemma told_refl [simp]: "told P h h"
  by (simp add: told_def cr_refl)

lemma told_sends: "sends Q h h' \<Longrightarrow> (\<And>m. Q m \<Longrightarrow> P (Sends m)) \<Longrightarrow> told P h h'"
  by (auto simp: told_def sends_def quiet_def cr_refl)

lemma told_quiet: "quiet h h' \<Longrightarrow> told P h h'"
  by (rule told_sends [of "\<lambda>_. False"]) auto

lemma told_trans [trans]:
  assumes "told P h h'" and "told P h' h''"
  shows "told P h h''"
proof -
  from assms obtain x y where "sent (hn_resolver h') = sent (hn_resolver h) @ x"
    "sent (hn_resolver h'') = sent (hn_resolver h') @ y"
    "\<forall>z \<in> set x. P (Sends (snd (snd z)))" "\<forall>z \<in> set y. P (Sends (snd (snd z)))"
    unfolding told_def by blast
  then have "sent (hn_resolver h'') = sent (hn_resolver h) @ (x @ y) \<and> (\<forall>z \<in> set (x @ y). P (Sends (snd (snd z))))"
    by auto
  moreover have "cache_run (\<lambda>k. P (Touches k)) (hn_cache h) (hn_cache h'')"
    using assms unfolding told_def by (blast intro: cache_run_trans)
  moreover have "hn_gslb h'' = None \<longleftrightarrow> hn_gslb h = None" using assms by (simp add: told_def)
  ultimately show ?thesis unfolding told_def by blast
qed

lemma told_mono: "told P h h' \<Longrightarrow> (\<And>m. P m \<Longrightarrow> Q m) \<Longrightarrow> told Q h h'"
  unfolding told_def by (meson cache_run_mono)

lemma told_silent: "told P h h' \<Longrightarrow> (\<And>m. \<not> P (Sends m)) \<Longrightarrow> sent (hn_resolver h') = sent (hn_resolver h)"
  unfolding told_def by (metis append.right_neutral last_in_set)

text \<open>Updates of fields that neither send nor touch the load balancer or the L1 cache.\<close>

lemma told_updates [simp]:
  "told P h (h'\<lparr>hn_stats := s\<rparr>) = told P h h'"
  "told P h (h'\<lparr>hn_tracker := t\<rparr>) = told P h h'"
  "told P h (h'\<lparr>hn_adstats := a\<rparr>) = told P h h'"
  "told P h (h'\<lparr>hn_log := l\<rparr>) = told P h h'"
  "told P h (incStats f h') = told P h h'"
  by (simp_all add: told_def incStats_def)

lemma told_get:
  assumes "hn_cache h = Some c" and "cacheGet now d q c = Some (r, c')" and "P (Touches (d, q))"
  shows "told P h (h\<lparr>hn_cache := Some c'\<rparr>)"
  using cr_get [OF cr_refl, of "\<lambda>k. P (Touches k)", OF assms(3,2)] assms(1) by (simp add: told_def)

lemma told_setCache [simp, intro]:
  assumes "told P h h'" and "P (Touches (d, q))"
  shows "told P h (setCache e d q rrs ttl neg h')"
  using assms by (auto simp: told_def setCache_def intro: cr_set)

lemma told_logQuery [simp]: "told P h (logQuery e req resp src h') = told P h h'"
  by (simp add: logQuery_def split: list.splits)

lemma flow_told_and_pass:
  "flow_told P h f \<Longrightarrow> (\<And>h'. f = Pass h' \<Longrightarrow> told P h h' \<Longrightarrow> flow_told P h (k h')) \<Longrightarrow> flow_told P h (and_pass f k)"
  by (cases f) (simp_all add: and_pass_def)

lemma flow_told_trans: "told P h h' \<Longrightarrow> flow_told P h' f \<Longrightarrow> flow_told P h f"
  by (cases f) (auto intro: told_trans)

lemma told_withSOA: "withSOA e domain resp h = (resp', h') \<Longrightarrow> told P h h'"
  by (auto simp: withSOA_def split: prod.splits dest!: quiet_extractDomainH intro: told_quiet)

lemma flow_cacheStage:
  assumes "P (Touches (domain, qtype))"
  shows "flow_told P h (cacheStage e resp domain qtype h)"
proof (cases "hn_cache h")
  case None
  then show ?thesis by (simp add: cacheStage_def)
next
  case (Some c)
  obtain r c' where g: "cacheGet (e_now e) domain qtype c = Some (r, c')" using cacheGet_returns by blast
  let ?h = "h\<lparr>hn_cache := Some c'\<rparr>"
  have t: "told P h ?h" by (rule told_get [OF Some g, of P, OF assms])
  obtain resp' h'' where s: "withSOA e domain (resp\<lparr>m_Rcode := RcodeNameError\<rparr>) (incStats IncL1Hit ?h) = (resp', h'')"
    by fastforce
  have "told P h h''" using told_trans [OF _ told_withSOA [OF s]] t by simp
  with Some g s t show ?thesis by (simp add: cacheStage_def Let_def split: option.split)
qed

lemma flow_blockedNXDOMAIN: "P (Touches (domain, qtype)) \<Longrightarrow> flow_told P h (blockedNXDOMAIN e resp domain qtype h)"
  by (auto simp: blockedNXDOMAIN_def split: prod.splits intro!: told_setCache dest: told_withSOA)

lemma flow_adblockStage:
  assumes "P (Touches (domain, qtype))"
  shows "flow_told P h (adblockStage e req resp domain qtype h)"
proof -
  have "flow_told P h (blockedNXDOMAIN e resp domain qtype (h\<lparr>hn_adstats := a\<rparr>))" for a
    by (rule flow_told_trans [OF _ flow_blockedNXDOMAIN [of P, OF assms]]) simp
  then show ?thesis
    using assms by (auto simp: adblockStage_def Let_def flow_blockedNXDOMAIN split: option.splits)
qed

lemma flow_gslbEmpty:
  assumes "P (Touches (domain, qtype))"
  shows "flow_told P h (gslbEmpty e resp domain qtype pc h)"
proof -
  obtain b h1 where 1: "hasDomainH e domain pc h = (b, h1)" by fastforce
  obtain m h2 where 2: "withSOA e domain (resp\<lparr>m_Rcode := RcodeSuccess\<rparr>) h1 = (m, h2)" by fastforce
  have "told P h h1" using quiet_hasDomainH [OF 1] by (rule told_quiet)
  moreover from this have "told P h h2" using told_withSOA [OF 2] by (rule told_trans)
  ultimately show ?thesis using 1 2 assms by (cases b) (auto simp: gslbEmpty_def)
qed

lemma flow_gslbStage:
  assumes "P (Touches (domain, qtype))"
  shows "flow_told P h (gslbStage e req resp domain qtype h)"
proof (cases "hn_gslb h")
  case None
  then show ?thesis by (simp add: gslbStage_def)
next
  case (Some eng)
  obtain r h1 where 1: "resolveH e domain qtype (clientAddress e req) eng h = (r, h1)" by fastforce
  have t: "told P h h1" using quiet_resolveH [OF Some 1] by (rule told_quiet)
  have "flow_told P h (gslbEmpty e resp domain qtype (fst eng) h1)"
    by (rule flow_told_trans [OF t flow_gslbEmpty [of P, OF assms]])
  with Some 1 t assms show ?thesis
    by (auto simp: gslbStage_def split: sum.splits resolve_error.splits)
qed

lemma flow_zoneAnswer:
  "P (Touches (domain, qtype)) \<Longrightarrow> flow_told P h (zoneAnswer e resp q domain qtype zoneName zone records via h)"
  by (auto simp: zoneAnswer_def Let_def split: prod.splits dest!: quiet_recordsH intro!: told_setCache intro: told_quiet)

lemma flow_zoneEmpty: "P (Touches (domain, qtype)) \<Longrightarrow> flow_told P h (zoneEmpty e resp domain qtype zoneName zone h)"
  by (auto simp: zoneEmpty_def Let_def split: prod.splits dest!: quiet_existsH intro!: told_setCache intro: told_quiet)


text \<open>
  What may leave the server for a question: queries for the target of an alias, when an address
  was asked for, and the client's query itself, when recursion is desired and the name is neither
  a private reverse name nor a local-use name.
\<close>

definition may_leave :: "env \<Rightarrow> Msg \<Rightarrow> Question \<Rightarrow> Msg \<Rightarrow> bool" where
  "may_leave e req q m \<longleftrightarrow>
     (let domain = ToLower (q_Name q); qtype = lib_TypeToString (e_lib e) (q_Qtype q)
      in (qtype \<in> {''A'', ''AAAA''} \<and> aliasQuery e qtype m) \<or>
         (m = req \<and> m_RecursionDesired req \<and> q_Qtype q \<noteq> TypeANY \<and> q_Qclass q \<noteq> ClassCHAOS \<and>
          privateIPv4ReverseZone domain = None \<and> localUseResponse domain qtype = None))"

text \<open>The effects a request for the question \<open>q\<close> may have: it touches no other L1 key.\<close>

fun request_effect :: "env \<Rightarrow> Msg \<Rightarrow> Question \<Rightarrow> effect \<Rightarrow> bool" where
  "request_effect e req q (Sends m) = may_leave e req q m"
| "request_effect e req q (Touches k) = (k = (ToLower (q_Name q), lib_TypeToString (e_lib e) (q_Qtype q)))"

lemma flow_zoneStage:
  assumes key: "P (Touches (domain, qtype))"
    and "qtype \<in> {''A'', ''AAAA''} \<Longrightarrow> \<forall>m. aliasQuery e qtype m \<longrightarrow> P (Sends m)"
  shows "flow_told P h (zoneStage e req resp q domain qtype h)"
proof -
  obtain z h0 where 0: "extractDomainH e domain h = (z, h0)" by fastforce
  obtain r1 h1 where 1: "zoneByNameH e z h0 = (r1, h1)" by fastforce
  have t1: "told P h h1"
    using quiet_extractDomainH [OF 0] quiet_zoneByNameH [OF 1] by (blast intro: told_quiet quiet_trans)
  show ?thesis
  proof (cases "\<exists>zone. r1 = Inr (Some zone)")
    case False
    with 0 1 t1 show ?thesis by (auto simp: zoneStage_def split: sum.splits option.splits)
  next
    case True
    then obtain zone where zone: "r1 = Inr (Some zone)" by blast
    obtain r2 h2 where 2: "recordsH e (z_ID zone) domain qtype h1 = (r2, h2)" by fastforce
    have t2: "told P h h2" using t1 quiet_recordsH [OF 2] by (blast intro: told_quiet told_trans)
    let ?client = "if hn_gslb h2 = None then None else clientAddress e req"
    obtain r3 h3 where 3: "resolveCNAMEChain e (z_ID zone) domain qtype ?client h2 = (r3, h3)" by fastforce
    have t3: "told P h h3" if "qtype \<in> {''A'', ''AAAA''}"
    proof -
      have "told P h2 h3"
        by (rule told_sends [OF sends_resolveCNAMEChain [OF 3]]) (use assms(2) that in blast)
      with t2 show ?thesis by (rule told_trans)
    qed
    note f = flow_told_trans [OF t2 flow_zoneAnswer [of P, OF key]] flow_told_trans [OF t2 flow_zoneEmpty [of P, OF key]]
    note g = flow_told_trans [OF t3 flow_zoneAnswer [of P, OF key]] flow_told_trans [OF t3 flow_zoneEmpty [of P, OF key]]
    show ?thesis
    proof (cases r2)
      case (Inl err)
      with 0 1 2 zone t2 show ?thesis by (simp add: zoneStage_def)
    next
      case (Inr records)
      show ?thesis
      proof (cases "records = [] \<and> qtype \<in> {''A'', ''AAAA''}")
        case True
        with 0 1 2 3 zone Inr g show ?thesis by (auto simp: zoneStage_def split: option.splits)
      next
        case False
        with 0 1 2 zone Inr f show ?thesis by (auto simp: zoneStage_def)
      qed
    qed
  qed
qed

lemma localStage_told: "P (Touches (domain, qtype)) \<Longrightarrow> flow_told P h (localStage e req resp domain qtype h)"
  by (auto simp: localStage_def split: option.splits)

lemma localStage_Pass:
  "localStage e req resp domain qtype h = Pass h' \<Longrightarrow>
     h' = h \<and> m_RecursionDesired req \<and> privateIPv4ReverseZone domain = None \<and> localUseResponse domain qtype = None"
  by (auto simp: localStage_def split: option.splits if_splits)

lemma flow_upstreamStage:
  assumes P: "P (Sends req)" and key: "P (Touches (domain, qtype))"
  shows "flow_told P h (upstreamStage e req resp domain qtype h)"
proof -
  obtain r h1 where 1: "forwardH e req h = (r, h1)" by fastforce
  have t: "told P h h1" by (rule told_sends [OF sends_forwardH [OF 1]]) (use P in simp)
  obtain m h2 where 2: "withSOA e domain (resp\<lparr>m_Rcode := RcodeNameError\<rparr>) h1 = (m, h2)" by fastforce
  have "told P h h2" using t told_withSOA [OF 2] by (rule told_trans)
  with 1 2 t key show ?thesis by (cases r) (auto simp: upstreamStage_def Let_def)
qed

lemma flow_serveQuestion:
  assumes "q_Qtype q \<noteq> TypeANY" and "q_Qclass q \<noteq> ClassCHAOS"
  shows "flow_told (request_effect e req q) h (serveQuestion e req resp q h)"
proof -
  let ?d = "ToLower (q_Name q)" and ?t = "lib_TypeToString (e_lib e) (q_Qtype q)" and ?P = "request_effect e req q"
  have zone: "flow_told ?P h' (zoneStage e req resp q ?d ?t h')" for h'
    by (rule flow_zoneStage) (auto simp: may_leave_def Let_def)
  have up: "flow_told ?P h' (upstreamStage e req resp ?d ?t h')"
    if "localStage e req resp ?d ?t h0 = Pass h'" for h0 h'
    by (rule flow_upstreamStage) (use localStage_Pass [OF that] assms in \<open>auto simp: may_leave_def Let_def\<close>)
  have key: "?P (Touches (?d, ?t))" by simp
  show ?thesis
    unfolding serveQuestion_def Let_def
    by (intro flow_told_and_pass flow_cacheStage [of ?P, OF key]
        flow_told_trans [OF _ flow_adblockStage [of ?P, OF key]] flow_told_trans [OF _ flow_gslbStage [of ?P, OF key]]
        flow_told_trans [OF _ zone] flow_told_trans [OF _ localStage_told [of ?P, OF key]] flow_told_trans [OF _ up]) assumption+
qed

lemma serveFlow_told:
  assumes "m_Question req = q # qs"
  shows "flow_told (request_effect e req q) h (serveFlow e req h)"
proof (cases "q_Qclass q = ClassCHAOS \<or> q_Qtype q = TypeANY")
  case True
  with assms show ?thesis by (auto simp: serveFlow_def handleCHAOS_def Let_def)
next
  case False
  let ?h = "incStats IncTotal h\<lparr>hn_tracker :=
      map_option (trackerRecord (ToLower (q_Name q)) (e_now e)) (hn_tracker (incStats IncTotal h))\<rparr>"
  have "flow_told (request_effect e req q) ?h
      (serveQuestion e req (initialResponse e req (incStats IncTotal h)) q ?h)"
    using flow_serveQuestion False by blast
  then have "flow_told (request_effect e req q) h
      (serveQuestion e req (initialResponse e req (incStats IncTotal h)) q ?h)"
    by (rule flow_told_trans [rotated]) simp
  with assms False show ?thesis by (simp add: serveFlow_def Let_def)
qed

text \<open>
  What one request does by itself, without the prefetch that a cache hit may start: whatever the database,
  the caches and the network do, it sends only what \<open>may_leave\<close> allows and touches only its own L1 key; a
  request without a question sends nothing and leaves the L1 cache alone.
\<close>

lemma request_effects:
  assumes "ServeDNS e req h = Inr (ms, h')"
  shows "told (\<lambda>f. \<exists>q qs. m_Question req = q # qs \<and> request_effect e req q f) h h'"
proof (cases "m_Question req")
  case Nil
  with assms show ?thesis by (auto simp: ServeDNS_def serveFlow_def Let_def)
next
  case (Cons q qs)
  from serveFlow_told [OF Cons, of e h] assms have "told (request_effect e req q) h h'"
    by (cases "serveFlow e req h") (auto simp: ServeDNS_def)
  with Cons show ?thesis by simp
qed

subsection \<open>Exactly one response\<close>

lemma cacheStage_no_abort: "cacheStage e resp domain qtype h \<noteq> Abort a"
  using cacheGet_returns [of "e_now e" domain qtype]
  by (auto simp: cacheStage_def Let_def split: option.splits prod.splits)
    (metis option.distinct(1))

lemma adblockStage_no_abort: "adblockStage e req resp domain qtype h \<noteq> Abort a"
  by (auto simp: adblockStage_def blockedNXDOMAIN_def Let_def split: option.splits prod.splits)

lemma gslbStage_abort: "gslbStage e req resp domain qtype h = Abort a \<Longrightarrow> a = Panic \<and> hn_gslb h \<noteq> None"
  by (auto simp: gslbStage_def gslbEmpty_def split: option.splits prod.splits sum.splits resolve_error.splits
      if_splits bool.splits)

lemma zoneAnswer_no_abort: "zoneAnswer e resp q domain qtype zoneName zone records via h \<noteq> Abort a"
  by (auto simp: zoneAnswer_def Let_def split: prod.splits)

lemma zoneEmpty_no_abort: "zoneEmpty e resp domain qtype zoneName zone h \<noteq> Abort a"
  by (auto simp: zoneEmpty_def Let_def split: prod.splits)

lemma zoneStage_abort:
  assumes "zoneStage e req resp q domain qtype h = Abort a"
  shows "a = Panic \<and> hn_gslb h \<noteq> None"
proof -
  obtain z h0 where 0: "extractDomainH e domain h = (z, h0)" by fastforce
  obtain r1 h1 where 1: "zoneByNameH e z h0 = (r1, h1)" by fastforce
  from assms 0 1 obtain zone where zone: "r1 = Inr (Some zone)"
    by (auto simp: zoneStage_def split: sum.splits option.splits)
  obtain r2 h2 where 2: "recordsH e (z_ID zone) domain qtype h1 = (r2, h2)" by fastforce
  let ?client = "if hn_gslb h2 = None then None else clientAddress e req"
  obtain r3 h3 where 3: "resolveCNAMEChain e (z_ID zone) domain qtype ?client h2 = (r3, h3)" by fastforce
  have "quiet h h2"
    using quiet_extractDomainH [OF 0] quiet_zoneByNameH [OF 1] quiet_recordsH [OF 2] by (blast intro: quiet_trans)
  then have "hn_gslb h2 = None \<longleftrightarrow> hn_gslb h = None" by (simp add: quiet_def)
  moreover have "r3 = None \<and> a = Panic"
    using assms 0 1 2 3 zone zoneAnswer_no_abort zoneEmpty_no_abort
    by (auto simp: zoneStage_def split: sum.splits if_splits option.splits prod.splits)
  moreover have "hn_gslb h2 = None \<Longrightarrow> r3 \<noteq> None"
    using chainLoop_no_panic 3 [unfolded resolveCNAMEChain_def] by blast
  ultimately show ?thesis by blast
qed

lemma and_pass_Abort:
  "and_pass f k = Abort a \<longleftrightarrow> f = Abort a \<or> (\<exists>h. f = Pass h \<and> k h = Abort a)"
  by (cases f) (auto simp: and_pass_def)

lemma and_pass_Pass: "and_pass f k = Pass h \<longleftrightarrow> (\<exists>h'. f = Pass h' \<and> k h' = Pass h)"
  by (cases f) (auto simp: and_pass_def)

lemma upstreamStage_answers: "\<exists>m s h'. upstreamStage e req resp domain qtype h = Answer m s h'"
  by (auto simp: upstreamStage_def Let_def split: prod.splits sum.splits)

lemma pass_gslb: "f = Pass h' \<Longrightarrow> flow_told (\<lambda>_. True) h f \<Longrightarrow> hn_gslb h' = None \<longleftrightarrow> hn_gslb h = None"
  by (simp add: told_def)

lemma serveQuestion_abort:
  assumes "serveQuestion e req resp q h = Abort a"
  shows "a = Panic \<and> hn_gslb h \<noteq> None"
proof -
  let ?d = "ToLower (q_Name q)" and ?t = "lib_TypeToString (e_lib e) (q_Qtype q)"
  have passes: "hn_gslb h' = None \<longleftrightarrow> hn_gslb h0 = None"
    if "cacheStage e resp ?d ?t h0 = Pass h' \<or> adblockStage e req resp ?d ?t h0 = Pass h' \<or>
        gslbStage e req resp ?d ?t h0 = Pass h'" for h0 h'
    using that pass_gslb [OF _ flow_cacheStage [of "\<lambda>_. True", OF TrueI]]
      pass_gslb [OF _ flow_adblockStage [of "\<lambda>_. True", OF TrueI]] pass_gslb [OF _ flow_gslbStage [of "\<lambda>_. True", OF TrueI]]
    by blast
  have "localStage e req resp ?d ?t h0 \<noteq> Abort a" for h0 by (auto simp: localStage_def split: option.splits)
  then obtain h1 h2 where "cacheStage e resp ?d ?t h = Pass h1" "adblockStage e req resp ?d ?t h1 = Pass h2"
    and "gslbStage e req resp ?d ?t h2 = Abort a \<or>
         (\<exists>h3. gslbStage e req resp ?d ?t h2 = Pass h3 \<and> zoneStage e req resp q ?d ?t h3 = Abort a)"
    using assms cacheStage_no_abort adblockStage_no_abort upstreamStage_answers
    unfolding serveQuestion_def Let_def and_pass_Abort by (metis flow.distinct(3))
  with passes gslbStage_abort zoneStage_abort show ?thesis by metis
qed

lemma serveQuestion_not_Pass: "serveQuestion e req resp q h \<noteq> Pass h'"
  using upstreamStage_answers unfolding serveQuestion_def Let_def and_pass_Pass by (metis flow.distinct(1))

lemma serveFlow_Abort:
  "serveFlow e req h = Abort a \<Longrightarrow> a = Panic \<and> hn_gslb h \<noteq> None"
  using serveQuestion_abort
  by (auto simp: serveFlow_def handleCHAOS_def incStats_def Let_def split: list.splits if_splits dest!: serveQuestion_abort)

lemma serveFlow_not_Pass: "serveFlow e req h \<noteq> Pass h'"
  using serveQuestion_not_Pass
  by (auto simp: serveFlow_def handleCHAOS_def Let_def split: list.splits if_splits)

lemma ServeDNS_total: "hn_gslb h = None \<Longrightarrow> \<exists>resp h'. ServeDNS e req h = Inr ([resp], h')"
  using serveFlow_Abort [of e req h] serveFlow_not_Pass [of e req h]
  by (cases "serveFlow e req h") (auto simp: ServeDNS_def)

text \<open>
  C1: Every request gets exactly one response. Whatever the request, the database's failures, the
  network and the state of the caches, the handler returns, and it has then written exactly one
  message; the only other outcome is the panic of the random generator of the load balancer, so
  without a load balancer every request is answered.
\<close>

theorem exactly_one_response:
  "(\<exists>resp h'. ServeDNS e req h = Inr ([resp], h')) \<or> (ServeDNS e req h = Inl Panic \<and> (\<exists>eng. hn_gslb h = Some eng))"
  using serveFlow_Abort [of e req h] serveFlow_not_Pass [of e req h]
  by (cases "serveFlow e req h") (auto simp: ServeDNS_def)

definition reverse_query :: Msg where
  "reverse_query = sample_query\<lparr>m_Question := [\<lparr>q_Name = ''4.3.2.10.In-Addr.arpa.'', q_Qtype = 12, q_Qclass = 1\<rparr>]\<rparr>"

lemma sample_no_gslb: "hn_gslb sample_handler = None"
  by (simp add: sample_handler_def)

end
