(* ===== verification/HandlerProps.thy ===== *)
theory HandlerProps
  imports Handler
begin

section \<open>End-to-end properties of the handler\<close>

text \<open>
  The stages composed with the components behind them: what a cache hit answers, what the
  authoritative path answers in terms of the tables, what a blocked name gets.
\<close>

subsection \<open>Cache hits\<close>

lemma quiet_withSOA: "withSOA e domain resp h = (m, h') \<Longrightarrow> quiet h h'"
  by (auto simp: withSOA_def split: prod.splits dest: quiet_extractDomainH)

lemma cacheStage_hit:
  assumes "hn_cache h = Some c" and "cache_inv c" and "view (e_now e) c (makeKey domain qtype) = Some (rrs, neg, x)"
  shows "\<exists>m h' r c'. cacheStage e resp domain qtype h = Answer m ''cache'' h' \<and> told (\<lambda>f. f = Touches (domain, qtype)) h h' \<and>
           cacheGet (e_now e) domain qtype c = Some (r, c') \<and> hn_cache h' = Some c' \<and>
           m_Rcode m = (if neg then RcodeNameError else RcodeSuccess) \<and> (\<not> neg \<longrightarrow> m_Answer m = rrs)"
proof -
  obtain r c' where g: "cacheGet (e_now e) domain qtype c = Some (r, c')" using cacheGet_returns by blast
  from cache.get_value [OF assms(2), of "e_now e" "(domain, qtype)"] assms(3) g
  obtain entry where r: "r = Some entry" "answer_of entry = (rrs, neg, x)" by (auto simp: getAnswer_def)
  let ?h = "incStats IncL1Hit (h\<lparr>hn_cache := Some c'\<rparr>)"
  obtain m h' where s: "withSOA e domain (resp\<lparr>m_Rcode := RcodeNameError\<rparr>) ?h = (m, h')" by fastforce
  have 0: "told (\<lambda>f. f = Touches (domain, qtype)) h ?h"
    using told_get [OF assms(1) g, of "\<lambda>f. f = Touches (domain, qtype)"] by simp
  from told_trans [OF this told_withSOA [OF s]] have t: "told (\<lambda>f. f = Touches (domain, qtype)) h h'" .
  have "hn_cache h' = Some c'" using quiet_withSOA [OF s] by (simp add: quiet_def incStats_def)
  moreover have "hn_cache ?h = Some c'" by (simp add: incStats_def)
  moreover have "m_Rcode m = RcodeNameError" using s by (auto simp: withSOA_def split: prod.splits)
  ultimately show ?thesis using assms(1) g r s t 0 by (cases neg) (auto simp: cacheStage_def answer_of_def Let_def)
qed

lemma ServeDNS_hit:
  assumes "hn_cache h = Some c" and "cache_inv c"
    and "m_Question req = q # qs" and "q_Qclass q \<noteq> ClassCHAOS" and "q_Qtype q \<noteq> TypeANY"
    and "view (e_now e) c (makeKey (ToLower (q_Name q)) (lib_TypeToString (e_lib e) (q_Qtype q))) = Some (rrs, neg, x)"
  shows "\<exists>m h' r c'. ServeDNS e req h = Inr ([m], h') \<and> sent (hn_resolver h') = sent (hn_resolver h) \<and>
           m_Rcode m = (if neg then RcodeNameError else RcodeSuccess) \<and> (\<not> neg \<longrightarrow> m_Answer m = rrs) \<and>
           cacheGet (e_now e) (ToLower (q_Name q)) (lib_TypeToString (e_lib e) (q_Qtype q)) c = Some (r, c') \<and>
           hn_cache h' = Some c'"
proof -
  let ?d = "ToLower (q_Name q)" and ?t = "lib_TypeToString (e_lib e) (q_Qtype q)"
  let ?h = "incStats IncTotal h\<lparr>hn_tracker :=
      map_option (trackerRecord ?d (e_now e)) (hn_tracker (incStats IncTotal h))\<rparr>"
  let ?resp = "initialResponse e req (incStats IncTotal h)"
  have "hn_cache ?h = Some c" using assms(1) by (simp add: incStats_def)
  from cacheStage_hit [OF this assms(2,6), of ?resp] obtain m h' r c' where
    hit: "cacheStage e ?resp ?d ?t ?h = Answer m ''cache'' h'"
    and told: "told (\<lambda>f. f = Touches (?d, ?t)) ?h h'"
    and g: "cacheGet (e_now e) ?d ?t c = Some (r, c')" "hn_cache h' = Some c'"
    and m: "m_Rcode m = (if neg then RcodeNameError else RcodeSuccess) \<and> (\<not> neg \<longrightarrow> m_Answer m = rrs)"
    by blast
  have "serveFlow e req h = Answer m ''cache'' h'"
    using hit assms(3-5) by (simp add: serveFlow_def serveQuestion_def and_pass_def Let_def)
  moreover have "told (\<lambda>f. f = Touches (?d, ?t)) h h'" by (rule told_trans [OF _ told]) simp
  then have "sent (hn_resolver h') = sent (hn_resolver h)" by (rule told_silent) simp
  moreover have "sent (hn_resolver (logQuery e req m ''cache'' h')) = sent (hn_resolver h')"
    "hn_cache (logQuery e req m ''cache'' h') = hn_cache h'" by (simp_all add: logQuery_def split: list.splits)
  ultimately show ?thesis using m g by (simp add: ServeDNS_def)
qed

subsection \<open>How long a cached answer stays\<close>

text \<open>
  A cache that is used for the keys \<open>S\<close> only and has room for all of them: nothing is evicted, and what
  is done under other keys leaves an entry alone.
\<close>

definition roomy :: "string set \<Rightarrow> DNSCache \<Rightarrow> bool" where
  "roomy S c \<longleftrightarrow> cache_inv c \<and> finite S \<and> dom (entries c) \<subseteq> S \<and> int (card S) \<le> maxSize c"

lemma roomy_makeRoom:
  assumes "roomy S c" and "k \<in> S"
  shows "makeRoom k c = c"
proof (rule ccontr)
  assume "makeRoom k c \<noteq> c"
  then have full: "entries c k = None" "maxSize c \<le> int (length (items c))" by (auto simp: makeRoom_def split: if_splits)
  from assms(1) have inv: "cache_inv c" and S: "finite S" "dom (entries c) \<subseteq> S" "int (card S) \<le> maxSize c"
    by (simp_all add: roomy_def)
  have keys: "set (map fst (items c)) = dom (entries c)" using cache_inv_item_entry [OF inv] by auto
  have "dom (entries c) \<subset> S" using full(1) assms(2) S(2) by blast
  from psubset_card_mono [OF S(1) this] have "length (items c) < card S"
    using distinct_card [OF cache_invD(1) [OF inv]] keys by simp
  with S(3) full(2) show False by linarith
qed

lemma roomy_set:
  assumes "roomy S c" and "makeKey d q \<in> S"
  shows "roomy S (cacheSet now d q rrs ttl neg c) \<and> (k \<noteq> makeKey d q \<longrightarrow> view t (cacheSet now d q rrs ttl neg c) k = view t c k)"
proof -
  from assms(1) have inv: "cache_inv c" by (simp add: roomy_def)
  note eq = cacheSet_eq [OF inv, of now d q rrs ttl neg, unfolded roomy_makeRoom [OF assms]]
  show ?thesis
    using assms cache_inv_storeEntry [OF inv makeKey_colon] view_storeEntry [OF inv]
    by (auto simp: eq roomy_def)
qed

lemma roomy_get:
  assumes "roomy S c" and "cacheGet now d q c = Some (r, c')"
  shows "roomy S c' \<and> (k \<noteq> makeKey d q \<or> view now c k \<noteq> None \<longrightarrow> view t c' k = view t c k)"
proof (cases rule: cacheGet_cases [of c d q now])
  case miss
  with assms have c': "c' = bumpMisses c" by simp
  with assms(1) show ?thesis by (simp add: roomy_def cache_inv_counters)
next
  case (expired a)
  with assms have c': "c' = bumpMisses (dropKey (makeKey d q) c)" by simp
  have "view now c (makeKey d q) = None" using expired by (simp add: view_def)
  with assms(1) cache_inv_cacheGet [OF _ assms(2)] show ?thesis
    by (auto simp: c' roomy_def view_dropKey)
next
  case (hit a)
  with assms have c': "c' = checkPrefetch now a d q (bumpHits (getTouch now (makeKey d q) a c))" by simp
  with assms(1) cache_inv_cacheGet [OF _ assms(2)] show ?thesis by (simp add: roomy_def)
qed

lemma roomy_run:
  assumes "cache_run K (Some c) d" and "roomy S c" and "\<And>x y. K (x, y) \<Longrightarrow> makeKey x y \<in> S - {k}"
  shows "\<exists>c'. d = Some c' \<and> roomy S c' \<and> (\<forall>t. view t c' k = view t c k)"
  using assms
proof (induction K "Some c" d rule: cache_run.induct)
  case (cr_get K c1 d q now r c2)
  from cr_get.hyps(2) [OF cr_get.prems] have c1: "roomy S c1" "\<forall>t. view t c1 k = view t c k" by auto
  have "k \<noteq> makeKey d q" using cr_get.prems(2) [OF cr_get.hyps(3)] by auto
  with roomy_get [OF c1(1) cr_get.hyps(4), of k] c1(2) show ?case by simp
next
  case (cr_set K c1 d q now rrs ttl neg)
  from cr_set.hyps(2) [OF cr_set.prems] obtain c1' where
    c1: "c1 = Some c1'" "roomy S c1'" "\<forall>t. view t c1' k = view t c k" by auto
  have "k \<noteq> makeKey d q" "makeKey d q \<in> S" using cr_set.prems(2) [OF cr_set.hyps(3)] by auto
  with roomy_set [OF c1(2), of d q now rrs ttl neg k] c1 show ?case by simp
qed simp

text \<open>The L1 key a request looks up, and a sequence of requests.\<close>

definition askedKeys :: "env \<Rightarrow> Msg \<Rightarrow> string set" where
  "askedKeys e req =
     (case m_Question req of
        [] \<Rightarrow> {}
      | q # _ \<Rightarrow> {makeKey (ToLower (q_Name q)) (lib_TypeToString (e_lib e) (q_Qtype q))})"

fun serveMany :: "(env \<times> Msg) list \<Rightarrow> Handler \<Rightarrow> abort + Handler" where
  "serveMany [] h = Inr h"
| "serveMany ((e, req) # rest) h =
     (case ServeDNS e req h of Inl a \<Rightarrow> Inl a | Inr (_, h') \<Rightarrow> serveMany rest h')"

lemma request_keeps_entry:
  assumes serve: "ServeDNS e req h = Inr (ms, h')" and c: "hn_cache h = Some c" "roomy S c"
    and keys: "askedKeys e req \<subseteq> S" and live: "view (e_now e) c k \<noteq> None"
  shows "\<exists>c'. hn_cache h' = Some c' \<and> roomy S c' \<and> (\<forall>t. view t c' k = view t c k)"
proof (cases "k \<in> askedKeys e req")
  case False
  have run: "cache_run (\<lambda>x. \<exists>q qs. m_Question req = q # qs \<and> request_effect e req q (Touches x)) (Some c) (hn_cache h')"
    using request_effects [OF serve] c(1) by (simp add: told_def)
  show ?thesis by (rule roomy_run [OF run c(2)]) (use False keys in \<open>auto simp: askedKeys_def\<close>)
next
  case True
  then obtain q qs where q: "m_Question req = q # qs"
    and k: "k = makeKey (ToLower (q_Name q)) (lib_TypeToString (e_lib e) (q_Qtype q))"
    by (auto simp: askedKeys_def split: list.splits)
  show ?thesis
  proof (cases "q_Qclass q = ClassCHAOS \<or> q_Qtype q = TypeANY")
    case True
    with serve q have "hn_cache h' = hn_cache h"
      by (auto simp: ServeDNS_def serveFlow_def handleCHAOS_def incStats_def logQuery_def Let_def split: list.splits if_splits)
    with c show ?thesis by simp
  next
    case False
    from live obtain v where v: "view (e_now e) c k = Some v" by blast
    obtain rrs neg x where "v = (rrs, neg, x)" by (cases v)
    with ServeDNS_hit [OF c(1) _ q, of e] False v k c(2) serve obtain r c' where
      g: "cacheGet (e_now e) (ToLower (q_Name q)) (lib_TypeToString (e_lib e) (q_Qtype q)) c = Some (r, c')"
      "hn_cache h' = Some c'" by (fastforce simp: roomy_def)
    with roomy_get [OF c(2) g(1), of k] live show ?thesis by blast
  qed
qed

lemma requests_keep_entry:
  assumes "serveMany rs h = Inr h'" and "hn_cache h = Some c" and "roomy S c"
    and "\<And>e req. (e, req) \<in> set rs \<Longrightarrow> askedKeys e req \<subseteq> S \<and> view (e_now e) c k \<noteq> None"
  shows "\<exists>c'. hn_cache h' = Some c' \<and> roomy S c' \<and> (\<forall>t. view t c' k = view t c k)"
  using assms
proof (induction rs arbitrary: h c)
  case (Cons x rs)
  obtain e req where x: "x = (e, req)" by fastforce
  with Cons.prems(1) obtain ms h1 where s: "ServeDNS e req h = Inr (ms, h1)" and rest: "serveMany rs h1 = Inr h'"
    by (auto split: sum.splits)
  from Cons.prems(4) [of e req] x have er: "askedKeys e req \<subseteq> S" "view (e_now e) c k \<noteq> None" by simp_all
  from request_keeps_entry [OF s Cons.prems(2,3) er] obtain c1 where
    c1: "hn_cache h1 = Some c1" "roomy S c1" "\<forall>t. view t c1 k = view t c k" by blast
  have "askedKeys e' req' \<subseteq> S \<and> view (e_now e') c1 k \<noteq> None" if "(e', req') \<in> set rs" for e' req'
    using Cons.prems(4) [of e' req'] that c1(3) by simp
  from Cons.IH [OF rest c1(1,2) this] c1(3) show ?case by auto
qed simp

lemma minTTL_le: "ttls \<noteq> [] \<Longrightarrow> minTTL ttls = Min (set ttls)"
proof -
  have fold: "foldl (\<lambda>m x. if x < m then x else m) a xs = Min (insert a (set xs))" for a :: int and xs
  proof (induction xs arbitrary: a)
    case (Cons x xs)
    have "Min (insert a (set (x # xs))) = min a (Min (insert x (set xs)))" by simp
    moreover have "Min (insert (min a x) (set xs)) = min a (Min (insert x (set xs)))"
      by (cases "xs = []") (simp_all add: min.assoc)
    moreover have "(if x < a then x else a) = min a x" by simp
    ultimately show ?case using Cons.IH [of "min a x"] by (simp only: foldl_Cons)
  qed simp
  assume "ttls \<noteq> []"
  then show ?thesis using fold by (cases ttls) (simp_all add: minTTL_def insert_absorb)
qed

definition answerTTL :: "RR list \<Rightarrow> int" where
  "answerTTL rrs = Min ((\<lambda>rr. uint (h_Ttl (Header rr))) ` set rrs)"

lemma answerTTL_bound: "rrs \<noteq> [] \<Longrightarrow> 0 \<le> answerTTL rrs \<and> answerTTL rrs < 2 ^ 32"
proof -
  assume "rrs \<noteq> []"
  then have "answerTTL rrs \<in> (\<lambda>rr. uint (h_Ttl (Header rr))) ` set rrs" unfolding answerTTL_def by (intro Min_in) auto
  then show ?thesis using uint_lt2p [where 'a = 32] by auto
qed

lemma seconds_in_range: "0 \<le> n \<Longrightarrow> n < 2 ^ 32 \<Longrightarrow> wrap64 (seconds n) = seconds n"
  by (rule wrap64_id) (simp add: int64_range_def seconds_def)

text \<open>
  C7: An upstream answer is cached for its TTL and served from there. A well-formed L1 cache is in use, the upstream
  servers give an answer with records, and the smallest TTL of its records is positive. Then the client gets that very message. Let any
  requests follow, for any names and types, all before that TTL has passed and none of them panicking, and let the cache have room for
  the keys it holds and those they ask for, so that nothing is evicted. Then a further
  query within the TTL for the same name (in any letter case) and type, not of class CHAOS or type ANY, is answered with those records and
  without asking upstream, whatever the database does. Between the requests nothing else touches the L1 cache: it is not
  cleared or reconfigured, and no prefetch completes.
\<close>

theorem upstream_answer_cached:
  assumes "hn_cache h = Some c" and "cache_inv c"
    and "forwardH e req h = (Inr up, h1)" and "m_Answer up \<noteq> []" and "0 < answerTTL (m_Answer up)"
    and "upstreamStage e req resp domain qtype h = Answer m2 source h2"
    and "serveMany rs h2 = Inr h3"
    and "\<forall>(e1, req1) \<in> set rs. e_now e1 \<le> e_now e + seconds (answerTTL (m_Answer up))"
    and "int (card (dom (entries c) \<union> {makeKey domain qtype} \<union> (\<Union>(e1, req1) \<in> set rs. askedKeys e1 req1))) \<le> maxSize c"
    and "m_Question req' = q' # qs" and "q_Qclass q' \<noteq> ClassCHAOS" and "q_Qtype q' \<noteq> TypeANY"
    and "ToLower (q_Name q') = domain" and "lib_TypeToString (e_lib e') (q_Qtype q') = qtype"
    and "e_now e' \<le> e_now e + seconds (answerTTL (m_Answer up))"
  shows "m2 = up \<and> (\<exists>m h4. ServeDNS e' req' h3 = Inr ([m], h4) \<and> m_Answer m = m_Answer up \<and> m_Rcode m = RcodeSuccess \<and>
           sent (hn_resolver h4) = sent (hn_resolver h3))"
proof -
  let ?rrs = "m_Answer up"
  let ?c2 = "cacheSet (e_now e) domain qtype ?rrs (answerTTL ?rrs) False c"
  let ?h2 = "setCache e domain qtype ?rrs (answerTTL ?rrs) False (incStats IncUpstreamHit h1)"
  let ?S = "dom (entries c) \<union> {makeKey domain qtype} \<union> (\<Union>(e1, req1) \<in> set rs. askedKeys e1 req1)"
  let ?k = "makeKey domain qtype" and ?x = "e_now e + seconds (answerTTL ?rrs)"
  have min: "minTTL (map (\<lambda>rr. uint (h_Ttl (Header rr))) ?rrs) = answerTTL ?rrs"
    using assms(4) by (simp add: minTTL_le answerTTL_def)
  have up: "m2 = up" "h2 = ?h2"
    using assms(3,4,6) by (auto simp: upstreamStage_def Let_def min)
  have "hn_cache h1 = Some c" using sends_forwardH [OF assms(3)] assms(1) by (simp add: sends_def quiet_def)
  then have c2: "hn_cache h2 = Some ?c2" by (simp add: up(2) setCache_def incStats_def)
  have "finite (askedKeys e1 req1)" for e1 req1 by (simp add: askedKeys_def split: list.split)
  moreover have "dom (entries c) = fst ` set (items c)" using cache_inv_item_entry [OF assms(2)] by auto
  ultimately have "finite ?S" by auto
  then have "roomy ?S c" using assms(2,9) by (auto simp: roomy_def)
  then have room: "roomy ?S ?c2" using roomy_set [of ?S c domain qtype] by simp
  have "expiryOf (e_now e) (answerTTL ?rrs) False c = ?x"
    using answerTTL_bound [OF assms(4)] assms(5) by (simp add: expiryOf_def effectiveTTL_def seconds_in_range)
  then have stored: "view t ?c2 ?k = Some (?rrs, False, ?x)" if "t \<le> ?x" for t
    using cache.put_look [OF assms(2), of t "e_now e" "(domain, qtype)" "(?rrs, answerTTL ?rrs, False)"] that by simp
  have "askedKeys e1 req1 \<subseteq> ?S \<and> view (e_now e1) ?c2 ?k \<noteq> None" if "(e1, req1) \<in> set rs" for e1 req1
  proof
    show "askedKeys e1 req1 \<subseteq> ?S" using that by auto
    from assms(8) that have "e_now e1 \<le> ?x" by auto
    with stored show "view (e_now e1) ?c2 ?k \<noteq> None" by simp
  qed
  from requests_keep_entry [OF assms(7) c2 room this] obtain c3 where
    c3: "hn_cache h3 = Some c3" "roomy ?S c3" "\<forall>t. view t c3 ?k = view t ?c2 ?k" by blast
  have "cache_inv c3" using c3(2) by (simp add: roomy_def)
  moreover have "view (e_now e') c3 ?k = Some (?rrs, False, ?x)" using c3(3) stored [OF assms(15)] by simp
  ultimately show ?thesis
    using ServeDNS_hit [OF c3(1) _ assms(10-12), of e' ?rrs False ?x, unfolded assms(13,14)] up(1) by auto
qed

definition sample_answer :: Msg where
  "sample_answer = sample_query\<lparr>m_Response := True, m_Answer := [sample_rr]\<rparr>"

definition answering_env :: env where
  "answering_env = sample_env\<lparr>e_net := \<lparr>un_Exchange = (\<lambda>k tr a m. Some sample_answer), un_arrival = (\<lambda>_. rev)\<rparr>\<rparr>"

definition forwarding_handler :: Handler where
  "forwarding_handler = sample_handler\<lparr>hn_db := sample_upstream_db\<rparr>"

lemma answering_forward: "\<exists>h1. forwardH answering_env sample_query forwarding_handler = (Inr sample_answer, h1)"
  by (simp add: forwardH_def Forward_def answering_env_def sample_env_def forwarding_handler_def sample_handler_def
      sample_servers Let_def forwardToServer_def transport_def sample_server_def)

theorem upstream_answer_cached_witness:
  "\<exists>h2 h3 m h4. upstreamStage answering_env sample_query empty_msg ''example.org.'' ''A'' forwarding_handler
       = Answer sample_answer ''upstream'' h2 \<and>
     serveMany [(answering_env, reverse_query)] h2 = Inr h3 \<and>
     ServeDNS (answering_env\<lparr>e_now := seconds 60\<rparr>) sample_query h3 = Inr ([m], h4) \<and> m_Answer m = [sample_rr] \<and>
     sent (hn_resolver h4) = sent (hn_resolver h3)"
proof -
  obtain h1 where f: "forwardH answering_env sample_query forwarding_handler = (Inr sample_answer, h1)"
    using answering_forward by blast
  have ttl: "answerTTL (m_Answer sample_answer) = 60" by (simp add: answerTTL_def sample_answer_def sample_rr_def)
  have low: "ToLower ''Example.org.'' = ''example.org.''" by code_simp
  have ty: "lib_TypeToString (e_lib (answering_env\<lparr>e_now := seconds 60\<rparr>)) 1 = ''A''" by code_simp
  let ?c = "NewDNSCache 100 300 300 (9 / 10)"
  have c: "hn_cache forwarding_handler = Some ?c" "hn_gslb forwarding_handler = None"
    by (simp_all add: forwarding_handler_def sample_handler_def)
  have now: "e_now (answering_env\<lparr>e_now := seconds 60\<rparr>) \<le> e_now answering_env + seconds (answerTTL (m_Answer sample_answer))"
    "e_now answering_env \<le> e_now answering_env + seconds (answerTTL (m_Answer sample_answer))"
    unfolding ttl by (simp_all add: answering_env_def sample_env_def seconds_def)
  have q: "m_Question sample_query = [\<lparr>q_Name = ''Example.org.'', q_Qtype = 1, q_Qclass = 1\<rparr>]"
    by (simp add: sample_query_def)
  obtain h2 where up: "upstreamStage answering_env sample_query empty_msg ''example.org.'' ''A'' forwarding_handler
      = Answer sample_answer ''upstream'' h2"
    using f by (simp add: upstreamStage_def sample_answer_def)
  have "hn_gslb h2 = None"
    using flow_upstreamStage [of "\<lambda>_. True" sample_query "''example.org.''" "''A''" forwarding_handler answering_env empty_msg]
      up c(2) by (simp add: told_def)
  then obtain r h3 where "ServeDNS answering_env reverse_query h2 = Inr ([r], h3)" using ServeDNS_total by blast
  then have mid: "serveMany [(answering_env, reverse_query)] h2 = Inr h3" by simp
  have two: "card {a, b} \<le> 100" for a b :: string by (simp add: card_insert_if)
  have "askedKeys answering_env reverse_query = {makeKey (ToLower ''4.3.2.10.In-Addr.arpa.'') (lib_TypeToString (e_lib answering_env) 12)}"
    by (simp add: askedKeys_def reverse_query_def)
  then have room: "int (card (dom (entries ?c) \<union> {makeKey ''example.org.'' ''A''}
      \<union> (\<Union>(e1, req1) \<in> set [(answering_env, reverse_query)]. askedKeys e1 req1))) \<le> maxSize ?c"
    using two by (simp add: NewDNSCache_def)
  from upstream_answer_cached [OF c(1) cache_inv_New f _ _ up mid _ room q _ _ _ _ now(1)] ttl low ty now(2) up mid
  show ?thesis by (fastforce simp: sample_answer_def)
qed

subsection \<open>Blocked names\<close>

text \<open>The response to a blocked name, by the configured policy and the type asked for.\<close>

definition sinkhole :: "string \<Rightarrow> string \<Rightarrow> string \<Rightarrow> Msg \<Rightarrow> bool" where
  "sinkhole policy domain qtype m \<longleftrightarrow>
     (if ToUpper policy = ''NXDOMAIN'' \<or> qtype \<notin> {''A'', ''AAAA''} then m_Rcode m = RcodeNameError
      else if qtype = ''A'' then m_Rcode m = RcodeSuccess \<and>
        m_Answer m = [RR_A \<lparr>h_Name = domain, h_Rrtype = TypeA, h_Class = ClassINET, h_Ttl = 60\<rparr> (v4_mapped 0)]
      else m_Rcode m = RcodeSuccess \<and>
        m_Answer m = [RR_AAAA \<lparr>h_Name = domain, h_Rrtype = TypeAAAA, h_Class = ClassINET, h_Ttl = 60\<rparr> 0])"

lemma blockedNXDOMAIN_rcode:
  "\<exists>m h'. blockedNXDOMAIN e resp domain qtype h = Answer m ''adblock'' h' \<and> m_Rcode m = RcodeNameError \<and>
     hn_resolver h' = hn_resolver h \<and> hn_gslb h' = hn_gslb h \<and> hn_records h' = hn_records h"
  by (auto simp: blockedNXDOMAIN_def withSOA_def extractDomainH_def setCache_def split: prod.splits)

lemma adblockStage_blocked:
  assumes "hn_filter h = Some f" and "IsBlocked (e_rx e) f domain"
  shows "\<exists>m h'. adblockStage e req resp domain qtype h = Answer m ''adblock'' h' \<and>
           sinkhole (hn_adblockResponse h) domain qtype m \<and>
           hn_resolver h' = hn_resolver h \<and> hn_gslb h' = hn_gslb h \<and> hn_records h' = hn_records h \<and>
           (m_Rcode m = RcodeSuccess \<longrightarrow> hn_zones h' = hn_zones h \<and> hn_db h' = hn_db h)"
proof -
  obtain h1 where h1: "h1 = (case clientAddress e req of None \<Rightarrow> h
      | Some a \<Rightarrow> h\<lparr>hn_adstats := adblockStatsRecord domain (ip_string a) (hn_adstats h)\<rparr>)" by simp
  have resp: "hn_adblockResponse h1 = hn_adblockResponse h" "hn_resolver h1 = hn_resolver h" "hn_gslb h1 = hn_gslb h"
    "hn_records h1 = hn_records h" "hn_zones h1 = hn_zones h" "hn_db h1 = hn_db h" by (simp_all add: h1 split: option.splits)
  from blockedNXDOMAIN_rcode [of e resp domain qtype h1] assms resp show ?thesis
    unfolding adblockStage_def sinkhole_def by (auto simp: h1 [symmetric] Let_def setCache_def)
qed

text \<open>A cache that has nothing for the question.\<close>

definition cache_misses :: "env \<Rightarrow> string \<Rightarrow> string \<Rightarrow> Handler \<Rightarrow> bool" where
  "cache_misses e domain qtype h \<longleftrightarrow>
     (\<forall>c. hn_cache h = Some c \<longrightarrow> cache_inv c \<and> view (e_now e) c (makeKey domain qtype) = None)"

lemma cacheStage_miss:
  assumes "cache_misses e domain qtype h"
  shows "\<exists>c. cacheStage e resp domain qtype h = Pass (incStats IncL1Miss (h\<lparr>hn_cache := c\<rparr>))"
proof (cases "hn_cache h")
  case None
  then have same: "h\<lparr>hn_cache := None\<rparr> = h" by (cases h) simp
  from None have "cacheStage e resp domain qtype h = Pass (incStats IncL1Miss h)" by (simp add: cacheStage_def)
  then show ?thesis by (intro exI [of _ None]) (simp only: same)
next
  case (Some c)
  obtain r c' where g: "cacheGet (e_now e) domain qtype c = Some (r, c')" using cacheGet_returns by blast
  with assms Some cache.get_value [of c "e_now e" "(domain, qtype)"] have "r = None"
    by (auto simp: cache_misses_def getAnswer_def)
  with Some g show ?thesis by (auto simp: cacheStage_def)
qed

text \<open>
  C8: A blocked name gets the sinkhole answer and goes no further. With nothing in the L1 cache for the
  question, which is not of class CHAOS or type ANY, and an enabled filter, a name that the filter's rules decide to block is answered with NXDOMAIN or with the
  null address, as configured and according to the type asked for. Nothing is sent to an upstream server, and the
  caches of the load balancer, the records and the upstream servers stay as they are; so do the zone cache and the database unless the
  answer is NXDOMAIN, for which the enclosing zone is looked up for its SOA record.
\<close>

theorem blocked_sinkholed:
  assumes "m_Question req = q # qs" and "q_Qclass q \<noteq> ClassCHAOS" and "q_Qtype q \<noteq> TypeANY"
    and "domain = ToLower (q_Name q)" and "qtype = lib_TypeToString (e_lib e) (q_Qtype q)"
    and "cache_misses e domain qtype h"
    and "hn_filter h = Some (rebuildFrom (e_rx e) stored f)" and "f_enabled f"
    and "decide (e_rx e) (activeRules (e_rx e) stored) (normalizeDomain domain)"
  shows "\<exists>m h'. ServeDNS e req h = Inr ([m], h') \<and> sinkhole (hn_adblockResponse h) domain qtype m \<and>
           hn_resolver h' = hn_resolver h \<and> hn_gslb h' = hn_gslb h \<and> hn_records h' = hn_records h \<and>
           (m_Rcode m = RcodeSuccess \<longrightarrow> hn_zones h' = hn_zones h \<and> hn_db h' = hn_db h)"
proof -
  let ?h = "incStats IncTotal h\<lparr>hn_tracker :=
      map_option (trackerRecord domain (e_now e)) (hn_tracker (incStats IncTotal h))\<rparr>"
  let ?resp = "initialResponse e req (incStats IncTotal h)"
  have "cache_misses e domain qtype ?h" using assms(6) by (simp add: cache_misses_def incStats_def)
  then obtain c where miss: "cacheStage e ?resp domain qtype ?h = Pass (incStats IncL1Miss (?h\<lparr>hn_cache := c\<rparr>))"
    using cacheStage_miss by blast
  let ?h1 = "incStats IncL1Miss (?h\<lparr>hn_cache := c\<rparr>)"
  have f: "hn_filter ?h1 = Some (rebuildFrom (e_rx e) stored f)" "hn_adblockResponse ?h1 = hn_adblockResponse h"
    using assms(7) by (simp_all add: incStats_def)
  have same: "hn_resolver ?h1 = hn_resolver h" "hn_gslb ?h1 = hn_gslb h" "hn_records ?h1 = hn_records h"
    "hn_zones ?h1 = hn_zones h" "hn_db ?h1 = hn_db h" by (simp_all add: incStats_def)
  have "IsBlocked (e_rx e) (rebuildFrom (e_rx e) stored f) domain"
    using assms(8,9) by (simp add: IsBlocked_def rebuildFrom_def rulesBlock_decide)
  from adblockStage_blocked [OF f(1) this, of req ?resp qtype] f(2) obtain m h' where
    b: "adblockStage e req ?resp domain qtype ?h1 = Answer m ''adblock'' h'"
    and m: "sinkhole (hn_adblockResponse h) domain qtype m"
    and h': "hn_resolver h' = hn_resolver ?h1" "hn_gslb h' = hn_gslb ?h1" "hn_records h' = hn_records ?h1"
      "m_Rcode m = RcodeSuccess \<longrightarrow> hn_zones h' = hn_zones ?h1 \<and> hn_db h' = hn_db ?h1" by auto
  have "serveFlow e req h = Answer m ''adblock'' h'"
    using assms(1-3) miss b unfolding assms(4,5)
    by (simp add: serveFlow_def serveQuestion_def and_pass_def Let_def)
  moreover have "hn_resolver (logQuery e req m ''adblock'' h') = hn_resolver h'" "hn_gslb (logQuery e req m ''adblock'' h') = hn_gslb h'"
    "hn_records (logQuery e req m ''adblock'' h') = hn_records h'" "hn_zones (logQuery e req m ''adblock'' h') = hn_zones h'"
    "hn_db (logQuery e req m ''adblock'' h') = hn_db h'" by (simp_all add: logQuery_def split: list.splits)
  ultimately show ?thesis using m h' same by (simp add: ServeDNS_def)
qed


definition blocking_handler :: Handler where
  "blocking_handler = sample_handler\<lparr>hn_adblockResponse := ''NULL'', hn_filter :=
     Some (rebuildFrom (e_rx sample_env) [''||example.org^''] \<lparr>f_rules = None, f_enabled = True\<rparr>)\<rparr>"

lemma sample_misses:
  assumes "hn_cache h = Some (NewDNSCache 100 300 300 (9 / 10))"
  shows "cache_misses e domain qtype h"
proof -
  have "view t (NewDNSCache m d n r) k = None" for t m d n r k by (simp add: view_def NewDNSCache_def)
  then show ?thesis using assms cache_inv_New by (simp add: cache_misses_def)
qed

theorem blocked_sinkholed_witness:
  "\<exists>m h'. ServeDNS sample_env sample_query blocking_handler = Inr ([m], h') \<and> m_Answer m =
     [RR_A \<lparr>h_Name = ''example.org.'', h_Rrtype = 1, h_Class = 1, h_Ttl = 60\<rparr> (v4_mapped 0)]"
proof -
  have q: "m_Question sample_query = [\<lparr>q_Name = ''Example.org.'', q_Qtype = 1, q_Qclass = 1\<rparr>]"
    by (simp add: sample_query_def)
  have low: "''example.org.'' = ToLower ''Example.org.''" and ty: "''A'' = lib_TypeToString (e_lib sample_env) 1"
    by code_simp+
  have dec: "decide (e_rx sample_env) (activeRules (e_rx sample_env) [''||example.org^'']) (normalizeDomain ''example.org.'')"
    by code_simp
  have miss: "cache_misses sample_env ''example.org.'' ''A'' blocking_handler"
    by (rule sample_misses) (simp add: blocking_handler_def sample_handler_def)
  have f: "hn_filter blocking_handler =
      Some (rebuildFrom (e_rx sample_env) [''||example.org^''] \<lparr>f_rules = None, f_enabled = True\<rparr>)"
    by (simp add: blocking_handler_def)
  have policy: "hn_adblockResponse blocking_handler = ''NULL''" "ToUpper ''NULL'' \<noteq> ''NXDOMAIN''"
    by (simp add: blocking_handler_def) code_simp
  from blocked_sinkholed [OF q _ _ _ _ miss f _ dec] low ty policy show ?thesis
    by (auto simp: sinkhole_def)
qed


subsection \<open>Authoritative answers\<close>

text \<open>The storages' caches agree with the tables, the database works, the clock is set.\<close>

definition coherent_handler :: "env \<Rightarrow> Handler \<Rightarrow> bool" where
  "coherent_handler e h \<longleftrightarrow>
     zone_cache.coherent (tables (hn_db h)) (hn_zones h) \<and> record_cache.coherent (tables (hn_db h)) (hn_records h) \<and>
     faults (hn_db h) = [] \<and> 0 < e_now e"

definition recordsOf :: "rowid \<Rightarrow> string \<Rightarrow> string \<Rightarrow> tables \<Rightarrow> Record list" where
  "recordsOf zid name ty t = recordsByNameIn (recordsByZone zid t) name ty"

lemma coherent_handler_fields:
  "hn_db h' = hn_db h \<Longrightarrow> hn_zones h' = hn_zones h \<Longrightarrow> hn_records h' = hn_records h \<Longrightarrow>
     coherent_handler e h \<Longrightarrow> coherent_handler e h'"
  by (simp add: coherent_handler_def)

lemma GetRecordsByZone_works:
  assumes "record_cache.coherent (tables d) c" and "0 < now" and "faults d = []"
  obtains c' where "GetRecordsByZone now zid d c = (Inr (recordsByZone zid (tables d)), d, c')"
    and "record_cache.coherent (tables d) c'"
proof -
  obtain r d' c' where g: "GetRecordsByZone now zid d c = (r, d', c')" by (metis prod_cases3)
  note g' = g [unfolded GetRecordsByZone_def]
  from record_cache.coherent_lookup_works [OF assms g'] record_cache.coherent_keep [OF assms(1) g'] g that
  show ?thesis by auto
qed

lemma extractDomainH_works:
  assumes "coherent_handler e h"
  obtains h' where "extractDomainH e name h = (closestZone name (tables (hn_db h)), h')"
    and "coherent_handler e h'" and "quiet h h'"
proof -
  from assms obtain c' where x: "extractDomain (e_now e) name (hn_db h) (hn_zones h) =
      (closestZone name (tables (hn_db h)), hn_db h, c')" and c: "zone_cache.coherent (tables (hn_db h)) c'"
    unfolding coherent_handler_def by (metis extractDomain_works)
  from x have e: "extractDomainH e name h = (closestZone name (tables (hn_db h)), h\<lparr>hn_zones := c'\<rparr>)"
    by (simp add: extractDomainH_def)
  with assms c quiet_extractDomainH [OF e] that show ?thesis by (simp add: coherent_handler_def)
qed

lemma zoneByNameH_works:
  assumes "coherent_handler e h"
  obtains h' where "zoneByNameH e name h = (Inr (zoneByName name (tables (hn_db h))), h')"
    and "coherent_handler e h'" and "quiet h h'"
proof -
  from assms obtain c' where x: "GetZoneByName (e_now e) name (hn_db h) (hn_zones h) =
      (Inr (zoneByName name (tables (hn_db h))), hn_db h, c')" and c: "zone_cache.coherent (tables (hn_db h)) c'"
    unfolding coherent_handler_def by (metis GetZoneByName_works)
  from x have e: "zoneByNameH e name h = (Inr (zoneByName name (tables (hn_db h))), h\<lparr>hn_zones := c'\<rparr>)"
    by (simp add: zoneByNameH_def)
  with assms c quiet_zoneByNameH [OF e] that show ?thesis by (simp add: coherent_handler_def)
qed

lemma recordsH_works:
  assumes "coherent_handler e h"
  obtains h' where "recordsH e zid name ty h = (Inr (recordsOf zid name ty (tables (hn_db h))), h')"
    and "coherent_handler e h'" and "quiet h h'"
proof -
  from assms obtain c' where x: "GetRecordsByZone (e_now e) zid (hn_db h) (hn_records h) =
      (Inr (recordsByZone zid (tables (hn_db h))), hn_db h, c')" and c: "record_cache.coherent (tables (hn_db h)) c'"
    unfolding coherent_handler_def by (metis GetRecordsByZone_works)
  from x have e: "recordsH e zid name ty h = (Inr (recordsOf zid name ty (tables (hn_db h))), h\<lparr>hn_records := c'\<rparr>)"
    by (simp add: recordsH_def GetRecordsByNameAndZone_def recordsOf_def)
  with assms c quiet_recordsH [OF e] that show ?thesis by (simp add: coherent_handler_def)
qed

lemma existsH_works:
  assumes "coherent_handler e h"
  obtains h' where "existsH e zid name h = (Inr (domainExistsIn (recordsByZone zid (tables (hn_db h))) name), h')"
    and "coherent_handler e h'" and "quiet h h'"
proof -
  from assms obtain c' where x: "GetRecordsByZone (e_now e) zid (hn_db h) (hn_records h) =
      (Inr (recordsByZone zid (tables (hn_db h))), hn_db h, c')" and c: "record_cache.coherent (tables (hn_db h)) c'"
    unfolding coherent_handler_def by (metis GetRecordsByZone_works)
  from x have e: "existsH e zid name h =
      (Inr (domainExistsIn (recordsByZone zid (tables (hn_db h))) name), h\<lparr>hn_records := c'\<rparr>)"
    by (simp add: existsH_def DomainExistsInZone_def)
  with assms c quiet_existsH [OF e] that show ?thesis by (simp add: coherent_handler_def)
qed

text \<open>The authoritative answer as a function of the tables, for a zone without fallback.\<close>

definition authority :: "env \<Rightarrow> 32 word \<Rightarrow> string \<Rightarrow> string \<Rightarrow> string \<Rightarrow> Zone \<Rightarrow> tables \<Rightarrow> Msg \<Rightarrow> bool" where
  "authority e negTTL domain qtype zoneName zone t m \<longleftrightarrow>
     (let rs = recordsOf (z_ID zone) domain qtype t
      in if rs \<noteq> [] then
           m_Rcode m = RcodeSuccess \<and> m_Authoritative m \<and> m_Answer m = answersOf (e_lib e) rs
         else
           m_Ns m = [buildSOA negTTL zoneName] \<and>
           m_Rcode m = (if domainExistsIn (recordsByZone (z_ID zone) t) domain
                        then RcodeSuccess else RcodeNameError))"

lemma zoneStage_authority:
  assumes "coherent_handler e h" and "t = tables (hn_db h)" and "zoneName = closestZone domain t"
    and "zoneByName zoneName t = Some zone" and "\<not> z_AllowFallback zone"
    and "recordsOf (z_ID zone) domain qtype t \<noteq> [] \<or> qtype \<notin> {''A'', ''AAAA''}"
  shows "\<exists>m h'. zoneStage e req resp q domain qtype h = Answer m ''zone'' h' \<and>
           authority e (hn_negativeTTL h) domain qtype zoneName zone t m"
proof -
  obtain h0 where 0: "extractDomainH e domain h = (zoneName, h0)" and c0: "coherent_handler e h0" and q0: "quiet h h0"
    using extractDomainH_works [OF assms(1)] assms(2,3) by metis
  have t0: "tables (hn_db h0) = t" using q0 assms(2) by (simp add: quiet_def)
  obtain h1 where 1: "zoneByNameH e zoneName h0 = (Inr (Some zone), h1)" and c1: "coherent_handler e h1" and q1: "quiet h0 h1"
    using zoneByNameH_works [OF c0] assms(4) t0 by metis
  have t1: "tables (hn_db h1) = t" using q1 t0 by (simp add: quiet_def)
  let ?rs = "recordsOf (z_ID zone) domain qtype t"
  obtain h2 where 2: "recordsH e (z_ID zone) domain qtype h1 = (Inr ?rs, h2)" and c2: "coherent_handler e h2"
    and q2: "quiet h1 h2"
    using recordsH_works [OF c1] t1 by metis
  have t2: "tables (hn_db h2) = t" using q2 t1 by (simp add: quiet_def)
  obtain h3 where 3: "recordsH e (z_ID zone) zoneName ''NS'' h2 =
      (Inr (recordsOf (z_ID zone) zoneName ''NS'' t), h3)" using recordsH_works [OF c2] t2 by metis
  obtain h4 where 4: "existsH e (z_ID zone) domain h2 =
      (Inr (domainExistsIn (recordsByZone (z_ID zone) t) domain), h4)" and q4: "quiet h2 h4"
    using existsH_works [OF c2] t2 by metis
  have neg: "hn_negativeTTL h4 = hn_negativeTTL h" using q0 q1 q2 q4 by (simp add: quiet_def)
  show ?thesis
  proof (cases "?rs = []")
    case True
    with assms(5,6) 0 1 2 4 neg show ?thesis by (auto simp: zoneStage_def zoneEmpty_def authority_def Let_def)
  next
    case False
    with 0 1 2 3 show ?thesis
      by (auto simp: zoneStage_def zoneAnswer_def authority_def buildResponse_def Let_def)
  qed
qed



lemma new_record_coherent: "record_cache.coherent t NewRecordStorage"
  unfolding record_cache.coherent_def
  by (simp add: NewRecordStorage_def NewRecordCache_def recordCacheGet_def)

lemma sample_coherent: "coherent_handler sample_env sample_handler"
  using new_zone_coherent new_record_coherent
  by (simp add: coherent_handler_def sample_handler_def sample_env_def alias_db_def sample_db_def)

definition www_query :: Msg where
  "www_query = sample_query\<lparr>m_Question := [\<lparr>q_Name = ''WWW.example.com.'', q_Qtype = 1, q_Qclass = 1\<rparr>]\<rparr>"



end
