(* ===== verification/AdblockStore.thy ===== *)
theory AdblockStore
  imports AdblockRule UpstreamStore Batch
begin

section \<open>Ad-block lists: storage and synchronisation (storage/adblock.go, adblock/sync.go, adblock/loader.go)\<close>

text \<open>
  The table of list sources behind its cache, the table of stored rules, the blocking statistics,
  and the syncer that downloads the lists, replaces the rules of a source and rebuilds the filter.
  The HTTP client is a parameter: what a GET with an \<^verbatim>\<open>If-Modified-Since\<close> header returns. The
  cached sources are pointers that \<open>syncSource\<close> updates in place; \<open>writeBack\<close> is that
  update, for a source that came out of the cache.
\<close>

subsection \<open>Sources\<close>

record AdblockCache =
  ac_sources :: "AdblockSource list"
  ac_expiry :: instant
  ac_ttl :: int

definition NewAdblockStorage :: AdblockCache where
  "NewAdblockStorage = \<lparr>ac_sources = [], ac_expiry = 0, ac_ttl = seconds 600\<rparr>"

definition adblockCacheGet :: "instant \<Rightarrow> AdblockCache \<Rightarrow> AdblockSource list option" where
  "adblockCacheGet now c = (if now > ac_expiry c then None else Some (ac_sources c))"

definition adblockCacheSet :: "instant \<Rightarrow> AdblockSource list \<Rightarrow> AdblockCache \<Rightarrow> AdblockCache" where
  "adblockCacheSet now sources c = c\<lparr>ac_sources := sources, ac_expiry := now + ac_ttl c\<rparr>"

definition adblockCacheInvalidate :: "AdblockCache \<Rightarrow> AdblockCache" where
  "adblockCacheInvalidate c = c\<lparr>ac_sources := [], ac_expiry := 0\<rparr>"

definition GetAdblockSource :: "rowid \<Rightarrow> db \<Rightarrow> (db_error + AdblockSource option) \<times> db" where
  "GetAdblockSource i = reader (\<lambda>t. find (\<lambda>s. as_ID s = i) (t_sources t))"

definition ListAdblockSources ::
  "instant \<Rightarrow> db \<Rightarrow> AdblockCache \<Rightarrow> (db_error + AdblockSource list) \<times> db \<times> AdblockCache" where
  "ListAdblockSources now d c =
     (case reader (\<lambda>t. sort_key as_ID (t_sources t)) d of
        (Inl e, d') \<Rightarrow> (Inl e, d', c)
      | (Inr sources, d') \<Rightarrow> (Inr sources, d', adblockCacheSet now sources c))"

definition GetEnabledAdblockSources ::
  "instant \<Rightarrow> db \<Rightarrow> AdblockCache \<Rightarrow> (db_error + AdblockSource list) \<times> db" where
  "GetEnabledAdblockSources now d c =
     (case adblockCacheGet now c of
        Some sources \<Rightarrow> (Inr (filter as_Enabled sources), d)
      | None \<Rightarrow> reader (\<lambda>t. sort_key as_ID (filter as_Enabled (t_sources t))) d)"

definition insertSource :: "instant \<Rightarrow> AdblockSource \<Rightarrow> tables \<Rightarrow> db_error + rowid \<times> tables" where
  "insertSource now s t =
     (if list_ex (\<lambda>y. as_URL y = as_URL s) (t_sources t) then Inl ConstraintFailed
      else let i = next_id TSources t;
               row = \<lparr>as_ID = i, as_Name = as_Name s, as_URL = as_URL s, as_Enabled = as_Enabled s,
                      as_LastSync = None, as_LastModified = None, as_RuleCount = 0,
                      as_CreatedAt = now, as_UpdatedAt = now\<rparr>
           in Inr (i, (take_id TSources t)\<lparr>t_sources := t_sources t @ [row]\<rparr>))"

definition CreateAdblockSource ::
  "instant \<Rightarrow> AdblockSource \<Rightarrow> db \<Rightarrow> AdblockCache \<Rightarrow> (db_error + rowid) \<times> db \<times> AdblockCache" where
  "CreateAdblockSource now s =
     exec_then (tx_call ExecFailed (insertSource now s)) (\<lambda>_. tx_ok ResultFailed) adblockCacheInvalidate"

definition updateSourceRow :: "instant \<Rightarrow> AdblockSource \<Rightarrow> tables \<Rightarrow> db_error + int \<times> tables" where
  "updateSourceRow now s t =
     (if list_ex (\<lambda>y. as_ID y = as_ID s) (t_sources t)
         \<and> list_ex (\<lambda>y. as_ID y \<noteq> as_ID s \<and> as_URL y = as_URL s) (t_sources t)
      then Inl ConstraintFailed
      else Inr (int (length (filter (\<lambda>y. as_ID y = as_ID s) (t_sources t))),
        t\<lparr>t_sources := map (\<lambda>y. if as_ID y = as_ID s
              then s\<lparr>as_CreatedAt := as_CreatedAt y, as_UpdatedAt := now\<rparr> else y) (t_sources t)\<rparr>))"

definition UpdateAdblockSource ::
  "instant \<Rightarrow> AdblockSource \<Rightarrow> db \<Rightarrow> AdblockCache \<Rightarrow> (db_error + int) \<times> db \<times> AdblockCache" where
  "UpdateAdblockSource now s =
     exec_then (tx_call ExecFailed (updateSourceRow now s)) tx_affected adblockCacheInvalidate"

text \<open>\<^verbatim>\<open>ON DELETE CASCADE\<close> removes the rules of the source.\<close>

definition deleteSourceRow :: "rowid \<Rightarrow> tables \<Rightarrow> db_error + int \<times> tables" where
  "deleteSourceRow i t =
     Inr (int (length (filter (\<lambda>y. as_ID y = i) (t_sources t))),
          t\<lparr>t_sources := filter (\<lambda>y. as_ID y \<noteq> i) (t_sources t),
            t_domains := (if list_ex (\<lambda>y. as_ID y = i) (t_sources t)
                          then filter (\<lambda>r. ad_SourceID r \<noteq> i) (t_domains t) else t_domains t)\<rparr>)"

definition DeleteAdblockSource ::
  "rowid \<Rightarrow> db \<Rightarrow> AdblockCache \<Rightarrow> (db_error + int) \<times> db \<times> AdblockCache" where
  "DeleteAdblockSource i =
     exec_then (tx_call ExecFailed (deleteSourceRow i)) tx_affected adblockCacheInvalidate"

subsection \<open>Stored rules\<close>

definition isPlainAdblockDomain :: "string \<Rightarrow> bool" where
  "isPlainAdblockDomain entry \<longleftrightarrow>
     \<not> (entry = [] \<or> ContainsAny entry ''|^*/:$'' \<or> HasPrefix entry ''@@'')"

definition normalizeAdblockEntry :: "string \<Rightarrow> string" where
  "normalizeAdblockEntry entry0 =
     (let entry = ToLower (TrimSpace entry0)
      in if isPlainAdblockDomain entry then TrimSuffix entry ''.'' else entry)"

text \<open>
  \<^verbatim>\<open>INSERT OR IGNORE\<close>: a rule that is already stored, for whichever source, is left as it is; a
  missing source violates the foreign key.
\<close>

definition insertDomain :: "instant \<Rightarrow> rowid \<Rightarrow> string \<Rightarrow> tables \<Rightarrow> db_error + unit \<times> tables" where
  "insertDomain now sid dn t =
     (if list_ex (\<lambda>r. ad_Domain r = dn) (t_domains t) then Inr ((), t)
      else if \<not> list_ex (\<lambda>s. as_ID s = sid) (t_sources t) then Inl ConstraintFailed
      else Inr ((), (take_id TDomains t)\<lparr>t_domains := t_domains t @
             [\<lparr>ad_ID = next_id TDomains t, ad_Domain = dn, ad_SourceID = sid, ad_AddedAt = now\<rparr>]\<rparr>))"

definition AddBlockedDomain :: "instant \<Rightarrow> rowid \<Rightarrow> string \<Rightarrow> db \<Rightarrow> (db_error + unit) \<times> db" where
  "AddBlockedDomain now sid dn =
     autocommit (tx_call ExecFailed (insertDomain now sid (normalizeAdblockEntry dn)))"

fun addDomains :: "instant \<Rightarrow> rowid \<Rightarrow> string list \<Rightarrow> unit tx" where
  "addDomains now sid [] = tx_return ()"
| "addDomains now sid (dn # rest) =
     tx_bind (tx_call ExecFailed (insertDomain now sid (normalizeAdblockEntry dn)))
       (\<lambda>_. addDomains now sid rest)"

definition AddBlockedDomainsBatch :: "instant \<Rightarrow> rowid \<Rightarrow> string list \<Rightarrow> db \<Rightarrow> (db_error + unit) \<times> db" where
  "AddBlockedDomainsBatch now sid doms =
     transaction (tx_bind (tx_ok ExecFailed) (\<lambda>_. addDomains now sid doms))"

definition removeDomainRows :: "rowid \<Rightarrow> tables \<Rightarrow> db_error + unit \<times> tables" where
  "removeDomainRows sid t = Inr ((), t\<lparr>t_domains := filter (\<lambda>r. ad_SourceID r \<noteq> sid) (t_domains t)\<rparr>)"

definition RemoveBlockedDomains :: "rowid \<Rightarrow> db \<Rightarrow> (db_error + unit) \<times> db" where
  "RemoveBlockedDomains sid = autocommit (tx_call ExecFailed (removeDomainRows sid))"

definition storedIsBlocked :: "string \<Rightarrow> db \<Rightarrow> (db_error + bool) \<times> db" where
  "storedIsBlocked dn = reader (\<lambda>t. list_ex (\<lambda>r. ad_Domain r = normalizeDomain dn) (t_domains t))"

definition GetBlockedDomainCount :: "db \<Rightarrow> (db_error + int) \<times> db" where
  "GetBlockedDomainCount = reader (\<lambda>t. int (length (t_domains t)))"

definition ListBlockedDomains :: "db \<Rightarrow> (db_error + string list) \<times> db" where
  "ListBlockedDomains = reader (\<lambda>t. map ad_Domain (t_domains t))"

subsection \<open>Statistics\<close>

definition insertStat :: "string \<Rightarrow> string \<Rightarrow> tables \<Rightarrow> db_error + unit \<times> tables" where
  "insertStat dn clientIP t = Inr ((), t\<lparr>t_adstats := t_adstats t @ [(dn, clientIP)]\<rparr>)"

definition RecordBlockedQuery :: "string \<Rightarrow> string \<Rightarrow> db \<Rightarrow> (db_error + unit) \<times> db" where
  "RecordBlockedQuery dn clientIP =
     autocommit (tx_call ExecFailed (insertStat (normalizeDomain dn) clientIP))"

fun recordStats :: "BlockedQueryRecord list \<Rightarrow> unit tx" where
  "recordStats [] = tx_return ()"
| "recordStats (r # rest) =
     (if normalizeDomain (bq_Domain r) = [] then recordStats rest
      else tx_bind (tx_call ExecFailed (insertStat (normalizeDomain (bq_Domain r)) (bq_ClientIP r)))
             (\<lambda>_. recordStats rest))"

definition BatchRecordBlockedQueries :: "BlockedQueryRecord list \<Rightarrow> db \<Rightarrow> (db_error + unit) \<times> db" where
  "BatchRecordBlockedQueries records d =
     (if records = [] then (Inr (), d)
      else transaction (tx_bind (tx_ok ExecFailed) (\<lambda>_. recordStats records)) d)"

text \<open>\<^verbatim>\<open>GROUP BY blocked_domain ORDER BY cnt DESC LIMIT ?\<close>; groups of equal size come in name order.\<close>

definition blockedCounts :: "tables \<Rightarrow> (string \<times> int) list" where
  "blockedCounts t =
     (let names = map fst (t_adstats t)
      in sort_key (\<lambda>(_, n). - n)
           (map (\<lambda>d. (d, int (length (filter (\<lambda>x. x = d) names)))) (remdups (sort names))))"

definition GetBlockedStats :: "int \<Rightarrow> db \<Rightarrow> (db_error + (string \<times> int) list) \<times> db" where
  "GetBlockedStats limit =
     (let n = (if limit \<le> 0 then 10 else limit) in reader (\<lambda>t. take (nat n) (blockedCounts t)))"

subsection \<open>Downloads and the syncer\<close>

record http_response =
  hr_Status :: int
  hr_Body :: "string option"
  hr_LastModified :: string

type_synonym http_get = "string \<Rightarrow> string \<Rightarrow> http_response option"

definition Download ::
  "regexp \<Rightarrow> http_get \<Rightarrow> string \<Rightarrow> string \<Rightarrow> unit + string list option \<times> string" where
  "Download rx get url lastModified =
     (case get url lastModified of
        None \<Rightarrow> Inl ()
      | Some r \<Rightarrow>
          if hr_Status r = 304 then Inr (None, lastModified)
          else if hr_Status r \<noteq> 200 then Inl ()
          else (case hr_Body r of
                  None \<Rightarrow> Inl ()
                | Some body \<Rightarrow>
                    Inr (Some (ParseRules rx body),
                         if hr_LastModified r = [] then lastModified else hr_LastModified r)))"

datatype sync_error = DownloadFailed | SyncStorage db_error

definition writeBack :: "bool \<Rightarrow> AdblockSource \<Rightarrow> AdblockCache \<Rightarrow> AdblockCache" where
  "writeBack shared src c =
     (if shared then c\<lparr>ac_sources := map (\<lambda>s. if as_ID s = as_ID src then src else s) (ac_sources c)\<rparr> else c)"

text \<open>The replacement of a source's rules: removed first, then added in one transaction.\<close>

definition replaceRules :: "instant \<Rightarrow> rowid \<Rightarrow> string list \<Rightarrow> db \<Rightarrow> (db_error + unit) \<times> db" where
  "replaceRules now sid rules d =
     (case RemoveBlockedDomains sid d of
        (Inl e, d') \<Rightarrow> (Inl e, d')
      | (Inr _, d') \<Rightarrow> AddBlockedDomainsBatch now sid rules d')"

definition finishSync ::
  "instant \<Rightarrow> bool \<Rightarrow> AdblockSource \<Rightarrow> string \<Rightarrow> bool \<Rightarrow> db \<Rightarrow> AdblockCache
     \<Rightarrow> (sync_error + bool) \<times> db \<times> AdblockCache" where
  "finishSync now shared src lastModified updated d c =
     (let src' = src\<lparr>as_LastModified := (if lastModified = [] then None else Some lastModified),
                     as_LastSync := Some now\<rparr>
      in case UpdateAdblockSource now src' d (writeBack shared src' c) of
           (Inl e, s) \<Rightarrow> (Inl (SyncStorage e), s)
         | (Inr _, s) \<Rightarrow> (Inr updated, s))"

definition syncSource ::
  "regexp \<Rightarrow> http_get \<Rightarrow> instant \<Rightarrow> bool \<Rightarrow> AdblockSource \<Rightarrow> db \<Rightarrow> AdblockCache
     \<Rightarrow> (sync_error + bool) \<times> db \<times> AdblockCache" where
  "syncSource rx get now shared src d c =
     (let lastMod = (case as_LastModified src of None \<Rightarrow> '''' | Some s \<Rightarrow> s)
      in case Download rx get (as_URL src) lastMod of
           Inl _ \<Rightarrow> (Inl DownloadFailed, d, c)
         | Inr (None, lastModified) \<Rightarrow> finishSync now shared src lastModified False d c
         | Inr (Some rules, lastModified) \<Rightarrow>
             (case replaceRules now (as_ID src) rules d of
                (Inl e, d') \<Rightarrow> (Inl (SyncStorage e), d', c)
              | (Inr _, d') \<Rightarrow>
                  finishSync now shared (src\<lparr>as_RuleCount := int (length rules)\<rparr>) lastModified True d' c))"

text \<open>\<open>IncrementVersion(nil)\<close> runs as a statement of its own; its error is only logged.\<close>

definition bumpIf :: "bool \<Rightarrow> db \<Rightarrow> db" where
  "bumpIf changed d = (if changed then snd (autocommit IncrementVersion d) else d)"

definition Rebuild :: "regexp \<Rightarrow> db \<Rightarrow> Filter \<Rightarrow> (db_error + unit) \<times> db \<times> Filter" where
  "Rebuild rx d f =
     (case ListBlockedDomains d of
        (Inl e, d') \<Rightarrow> (Inl e, d', f)
      | (Inr stored, d') \<Rightarrow> (Inr (), d', rebuildFrom rx stored f))"

fun syncLoop ::
  "regexp \<Rightarrow> http_get \<Rightarrow> instant \<Rightarrow> bool \<Rightarrow> AdblockSource list \<Rightarrow> bool \<Rightarrow> db \<Rightarrow> AdblockCache
     \<Rightarrow> bool \<times> db \<times> AdblockCache" where
  "syncLoop rx get now shared [] changed d c = (changed, d, c)"
| "syncLoop rx get now shared (src # rest) changed d c =
     (case syncSource rx get now shared src d c of
        (Inl _, d', c') \<Rightarrow> syncLoop rx get now shared rest changed d' c'
      | (Inr updated, d', c') \<Rightarrow> syncLoop rx get now shared rest (changed \<or> updated) d' c')"

text \<open>\<open>primary\<close>: a version incrementer is set.\<close>

definition SyncAll ::
  "regexp \<Rightarrow> http_get \<Rightarrow> bool \<Rightarrow> instant \<Rightarrow> db \<Rightarrow> AdblockCache \<Rightarrow> Filter
     \<Rightarrow> (db_error + unit) \<times> db \<times> AdblockCache \<times> Filter" where
  "SyncAll rx get primary now d c f =
     (case GetEnabledAdblockSources now d c of
        (Inl e, d') \<Rightarrow> (Inl e, d', c, f)
      | (Inr sources, d') \<Rightarrow>
          (case syncLoop rx get now (adblockCacheGet now c \<noteq> None) sources False d' c of (changed, d1, c1) \<Rightarrow>
             (case Rebuild rx (bumpIf (changed \<and> primary) d1) f of (r, d2, f') \<Rightarrow> (r, d2, c1, f'))))"

definition SyncSource ::
  "regexp \<Rightarrow> http_get \<Rightarrow> bool \<Rightarrow> instant \<Rightarrow> rowid \<Rightarrow> db \<Rightarrow> AdblockCache \<Rightarrow> Filter
     \<Rightarrow> (sync_error + unit) \<times> db \<times> AdblockCache \<times> Filter" where
  "SyncSource rx get primary now i d c f =
     (case GetAdblockSource i d of
        (Inl e, d') \<Rightarrow> (Inl (SyncStorage e), d', c, f)
      | (Inr None, d') \<Rightarrow> (Inr (), d', c, f)
      | (Inr (Some src), d') \<Rightarrow>
          if \<not> as_Enabled src then (Inr (), d', c, f)
          else (case syncSource rx get now False src d' c of
                  (Inl e, d1, c1) \<Rightarrow> (Inl e, d1, c1, f)
                | (Inr updated, d1, c1) \<Rightarrow>
                    (case Rebuild rx (bumpIf (updated \<and> primary) d1) f of
                       (Inl e, d2, f') \<Rightarrow> (Inl (SyncStorage e), d2, c1, f')
                     | (Inr _, d2, f') \<Rightarrow> (Inr (), d2, c1, f'))))"

subsection \<open>Replacing the rules of a source\<close>

definition ownedBy :: "rowid \<Rightarrow> tables \<Rightarrow> string set" where
  "ownedBy sid t = ad_Domain ` {r \<in> set (t_domains t). ad_SourceID r = sid}"

definition othersOf :: "rowid \<Rightarrow> tables \<Rightarrow> AdblockDomain list" where
  "othersOf sid t = filter (\<lambda>r. ad_SourceID r \<noteq> sid) (t_domains t)"

lemma addDomains_Inr:
  "addDomains now sid rules t fs = (Inr (u, t'), fs') \<Longrightarrow>
     \<exists>new. t_domains t' = t_domains t @ new \<and> (\<forall>r \<in> set new. ad_SourceID r = sid) \<and>
           ad_Domain ` set new = normalizeAdblockEntry ` set rules - ad_Domain ` set (t_domains t) \<and>
           distinct (map ad_Domain new)"
proof (induction rules arbitrary: t fs)
  case Nil
  then show ?case by (simp add: tx_return_Inr)
next
  case (Cons x rules)
  then obtain t1 fs1 where i: "insertDomain now sid (normalizeAdblockEntry x) t = Inr ((), t1)"
    and rest: "addDomains now sid rules t1 fs1 = (Inr (u, t'), fs')"
    by (auto simp: tx_bind_Inr dest!: tx_call_Inr)
  from Cons.IH [OF rest] obtain new where new: "t_domains t' = t_domains t1 @ new"
    "\<forall>r \<in> set new. ad_SourceID r = sid" "distinct (map ad_Domain new)"
    "ad_Domain ` set new = normalizeAdblockEntry ` set rules - ad_Domain ` set (t_domains t1)" by blast
  show ?case
  proof (cases "list_ex (\<lambda>r. ad_Domain r = normalizeAdblockEntry x) (t_domains t)")
    case True
    then have "normalizeAdblockEntry x \<in> ad_Domain ` set (t_domains t)" by (force simp: list_ex_iff)
    moreover have "t1 = t" using i True by (simp add: insertDomain_def)
    ultimately show ?thesis using new by (intro exI [of _ new]) auto
  next
    case False
    then have no: "normalizeAdblockEntry x \<notin> ad_Domain ` set (t_domains t)" by (auto simp: list_ex_iff)
    from i False obtain row where row: "t_domains t1 = t_domains t @ [row]"
      "ad_Domain row = normalizeAdblockEntry x" "ad_SourceID row = sid"
      by (auto simp: insertDomain_def take_id_def split: if_splits)
    with new no show ?thesis by (intro exI [of _ "row # new"]) (auto simp: image_iff)
  qed
qed

lemma RemoveBlockedDomains_Inr:
  assumes "RemoveBlockedDomains sid d = (Inr u, d')"
  shows "t_domains (tables d') = othersOf sid (tables d)"
proof -
  have "removeDomainRows sid (tables d) = Inr (u, tables d')"
    using assms by (auto simp: RemoveBlockedDomains_def dest!: autocommit_Inr tx_call_Inr)
  then have "tables d' = (tables d)\<lparr>t_domains := othersOf sid (tables d)\<rparr>"
    by (simp add: removeDomainRows_def othersOf_def eq_commute)
  then show ?thesis by simp
qed

lemma AddBlockedDomainsBatch_Inr:
  assumes "AddBlockedDomainsBatch now sid rules d = (Inr u, d')"
  shows "\<exists>new. t_domains (tables d') = t_domains (tables d) @ new \<and> (\<forall>r \<in> set new. ad_SourceID r = sid) \<and>
           ad_Domain ` set new = normalizeAdblockEntry ` set rules - ad_Domain ` set (t_domains (tables d)) \<and>
           distinct (map ad_Domain new)"
proof (rule transaction_cases [of "tx_bind (tx_ok ExecFailed) (\<lambda>_. addDomains now sid rules)" d])
  fix e fs
  assume "transaction (tx_bind (tx_ok ExecFailed) (\<lambda>_. addDomains now sid rules)) d = (Inl e, d\<lparr>faults := fs\<rparr>)"
  with assms show ?thesis by (simp add: AddBlockedDomainsBatch_def)
next
  fix a t fs fs' fs''
  assume b: "tx_bind (tx_ok ExecFailed) (\<lambda>_. addDomains now sid rules) (tables d) fs = (Inr (a, t), fs')"
    and "transaction (tx_bind (tx_ok ExecFailed) (\<lambda>_. addDomains now sid rules)) d = (Inr a, \<lparr>tables = t, faults = fs''\<rparr>)"
  with assms have "tables d' = t" by (auto simp: AddBlockedDomainsBatch_def)
  with b addDomains_Inr [of now sid rules "tables d" _ a t fs'] show ?thesis
    by (auto simp: tx_bind_Inr dest!: tx_ok_Inr)
qed

text \<open>
  C37: A synchronised list replaces exactly the rules of its source. When the replacement succeeds, the
  source owns the new list's normalised entries except those another source already holds, the
  rows of all other sources are what they were, together they are the stored rules, and no
  rule is stored twice.
\<close>

theorem rules_replaced:
  assumes "replaceRules now sid rules d = (Inr u, d')" and "distinct (map ad_Domain (t_domains (tables d)))"
  shows "ownedBy sid (tables d') =
           normalizeAdblockEntry ` set rules - ad_Domain ` set (othersOf sid (tables d)) \<and>
         othersOf sid (tables d') = othersOf sid (tables d) \<and>
         distinct (map ad_Domain (t_domains (tables d')))"
proof -
  from assms(1) obtain d1 where r: "RemoveBlockedDomains sid d = (Inr (), d1)"
    and a: "AddBlockedDomainsBatch now sid rules d1 = (Inr u, d')"
    by (auto simp: replaceRules_def split: prod.splits sum.splits)
  note d1 = RemoveBlockedDomains_Inr [OF r]
  from AddBlockedDomainsBatch_Inr [OF a] obtain new where
    new: "t_domains (tables d') = othersOf sid (tables d) @ new" "\<forall>r \<in> set new. ad_SourceID r = sid"
      "ad_Domain ` set new = normalizeAdblockEntry ` set rules - ad_Domain ` set (othersOf sid (tables d))"
      "distinct (map ad_Domain new)" unfolding d1 by blast
  have others: "\<forall>r \<in> set (othersOf sid (tables d)). ad_SourceID r \<noteq> sid" by (simp add: othersOf_def)
  have "ownedBy sid (tables d') = ad_Domain ` set new"
    using new(1,2) others by (auto simp: ownedBy_def)
  moreover have "othersOf sid (tables d') = othersOf sid (tables d)"
    using new(2) others unfolding othersOf_def [of sid "tables d'"] new(1) by (simp add: filter_id_conv)
  moreover have "distinct (map ad_Domain (othersOf sid (tables d)))"
    using assms(2) unfolding othersOf_def by (rule distinct_map_filter)
  ultimately show ?thesis using new by (auto simp: new(1))
qed

definition sample_source :: "rowid \<Rightarrow> string \<Rightarrow> AdblockSource" where
  "sample_source i url = \<lparr>as_ID = i, as_Name = url, as_URL = url, as_Enabled = True, as_LastSync = None,
     as_LastModified = None, as_RuleCount = 0, as_CreatedAt = 1, as_UpdatedAt = 1\<rparr>"

definition lists_db :: db where
  "lists_db = \<lparr>tables = (Migrate 1)\<lparr>t_sources := [sample_source 1 ''l1'', sample_source 2 ''l2'']\<rparr>, faults = []\<rparr>"

definition stored_after :: "(rowid \<times> string list) list \<Rightarrow> db \<Rightarrow> db" where
  "stored_after syncs d = fold (\<lambda>(sid, rules) d. snd (replaceRules 5 sid rules d)) syncs d"

theorem rules_replaced_witness:
  "ownedBy 1 (tables (snd (replaceRules 5 1 [''Ads.example. '', ''||x.net^''] lists_db))) = {''ads.example'', ''||x.net^''}"
proof -
  obtain r d' where run: "replaceRules 5 1 [''Ads.example. '', ''||x.net^''] lists_db = (r, d')" by fastforce
  have "isl (fst (replaceRules 5 1 [''Ads.example. '', ''||x.net^''] lists_db)) = False" by code_simp
  with run obtain u where r: "r = Inr u" by (cases r) auto
  have norm: "map normalizeAdblockEntry [''Ads.example. '', ''||x.net^''] = [''ads.example'', ''||x.net^'']" by code_simp
  have "distinct (map ad_Domain (t_domains (tables lists_db)))" "othersOf 1 (tables lists_db) = []"
    by (simp_all add: lists_db_def Migrate_def othersOf_def)
  with rules_replaced [OF run [unfolded r]] norm run show ?thesis by auto
qed

text \<open>
  The uniqueness of the stored rule across sources loses rules: when two lists contain the same
  rule and the list that happened to be stored first drops it, the rule is gone although the
  other list still contains it.
\<close>

lemma shared_rule_lost:
  "map ad_Domain (t_domains (tables (stored_after [(1, [''ads.example'']), (2, [''ads.example''])] lists_db))) = [''ads.example'']"
  "map ad_Domain (t_domains (tables (stored_after [(1, [''ads.example'']), (2, [''ads.example'']), (1, [])] lists_db))) = []"
  by code_simp+

text \<open>Lower-casing a stored entry changes the meaning of a regular-expression rule.\<close>

lemma regex_rule_lowered:
  "normalizeAdblockEntry (''/ads['' @ [CHR 0x5C, CHR ''D''] @ '']+/'') = ''/ads['' @ [CHR 0x5C, CHR ''d''] @ '']+/''"
  by code_simp

subsection \<open>A synchronisation ends in a filter that matches the table\<close>

lemma Rebuild_Inr:
  "Rebuild rx d f = (Inr u, d', f') \<Longrightarrow>
     tables d' = tables d \<and> f' = rebuildFrom rx (map ad_Domain (t_domains (tables d'))) f"
  by (rule reader_cases [of "\<lambda>t. map ad_Domain (t_domains t)" d])
    (auto simp: Rebuild_def ListBlockedDomains_def)

text \<open>
  C38: After a synchronisation the filter enforces the stored rules. Whatever downloads and
  statements failed on the way, when \<open>SyncAll\<close> reports success, a name is blocked exactly if the
  filter is enabled and the rules that are stored at that moment decide to block it.
\<close>

theorem sync_then_filter:
  assumes "SyncAll rx get primary now d c f = (Inr u, d', c', f')"
  shows "IsBlocked rx f' q =
           (f_enabled f \<and> decide rx (activeRules rx (map ad_Domain (t_domains (tables d')))) (normalizeDomain q))"
proof -
  from assms obtain d2 where "Rebuild rx d2 f = (Inr u, d', f')"
    by (auto simp: SyncAll_def split: prod.splits sum.splits)
  from Rebuild_Inr [OF this] have "f' = rebuildFrom rx (map ad_Domain (t_domains (tables d'))) f" by blast
  then show ?thesis by (simp add: IsBlocked_def rebuildFrom_def rulesBlock_decide)
qed

text \<open>The first source has not changed since its last download, the second cannot be reached.\<close>

definition sample_get :: http_get where
  "sample_get url since =
     (if url = ''l1'' then Some \<lparr>hr_Status = 304, hr_Body = None, hr_LastModified = ''''\<rparr> else None)"

definition plain_rx :: regexp where
  "plain_rx = \<lparr>re_compiles = (\<lambda>_. True), re_matches = (\<lambda>_ _. False)\<rparr>"

definition synced :: "(db_error + unit) \<times> db \<times> AdblockCache \<times> Filter" where
  "synced = SyncAll plain_rx sample_get True 5 (stored_after [(1, [''||ads.example^''])] lists_db) NewAdblockStorage
     \<lparr>f_rules = None, f_enabled = True\<rparr>"

lemma synced_ok: "fst synced = Inr ()" "map ad_Domain (t_domains (tables (fst (snd synced)))) = [''||ads.example^'']"
  by code_simp+

theorem sync_then_filter_witness:
  "IsBlocked plain_rx (snd (snd (snd synced))) ''x.ads.example.''"
proof -
  obtain d' c' f' where run: "synced = (Inr (), d', c', f')"
    using synced_ok(1) by (metis prod.collapse)
  have dec: "decide plain_rx (activeRules plain_rx [''||ads.example^'']) (normalizeDomain ''x.ads.example.'')" by code_simp
  have stored: "map ad_Domain (t_domains (tables d')) = [''||ads.example^'']" using synced_ok(2) unfolding run by simp
  show ?thesis using sync_then_filter [OF run [unfolded synced_def], of "''x.ads.example.''"] dec
    unfolding run by (simp add: stored)
qed

end
