(* ===== verification/HandlerOps.thy ===== *)
theory HandlerOps
  imports HandlerProps AdblockStore
begin

section \<open>Construction, maintenance and shutdown of the handler (dns/handler.go)\<close>

text \<open>
  The operations of the handler other than answering a query: construction from the stored cache
  settings, clearing and reconfiguring the caches, the prefetch callback of the L1 cache, and
  the shutdown, which drains the writers. The query log's sink is a parameter over its state.
\<close>

subsection \<open>Operations\<close>

text \<open>\<open>NewHandler\<close>: the settings row must be readable; a disabled cache is a nil cache.\<close>

definition NewHandler ::
  "ZoneCache \<Rightarrow> RecordCache \<Rightarrow> resolver \<Rightarrow> QueryStats option \<Rightarrow> (PolicyCache \<times> PoolCache) option
     \<Rightarrow> Filter option \<Rightarrow> bool \<Rightarrow> string \<Rightarrow> string \<Rightarrow> string \<Rightarrow> QueryLogWriter option \<Rightarrow> db
     \<Rightarrow> (db_error + Handler) \<times> db" where
  "NewHandler zc rc rs qs eng flt hasAdblock adblockResponse nsid version logw d =
     (case reader t_cacheSettings d of
        (Inl err, d') \<Rightarrow> (Inl err, d')
      | (Inr None, d') \<Rightarrow> (Inl NotFound, d')
      | (Inr (Some s), d') \<Rightarrow>
          (Inr \<lparr>hn_cache = (if cs_Enabled s
                           then Some (SetPrefetchFunc (NewDNSCache (cs_MaxSize s) (cs_DefaultTTL s) (cs_NegativeTTL s)
                                        (cs_PrefetchTrigger s)))
                           else None),
                hn_zones = zc, hn_records = rc, hn_tracker = Some (newLastQueryTracker (seconds 5)), hn_log = logw,
                hn_resolver = rs, hn_stats = qs, hn_gslb = eng, hn_filter = flt,
                hn_adstats = (if hasAdblock then Some (newBufferedBatch (seconds 2) 1000) else None),
                hn_adblockResponse = adblockResponse, hn_nsid = nsid, hn_version = version,
                hn_negativeTTL = word_of_int (cs_NegativeTTL s), hn_db = d'\<rparr>, d'))"

definition GetCache :: "Handler \<Rightarrow> DNSCache option" where
  "GetCache h = hn_cache h"

definition ClearCache :: "Handler \<Rightarrow> Handler" where
  "ClearCache h =
     h\<lparr>hn_cache := map_option cacheClear (GetCache h), hn_zones := zoneCacheInvalidate (hn_zones h),
       hn_records := InvalidateAll (hn_records h)\<rparr>"

text \<open>\<open>ReconfigureCache\<close> replaces the cache; the old one, returned here, is stopped.\<close>

definition ReconfigureCache :: "CacheSettings option \<Rightarrow> Handler \<Rightarrow> Handler \<times> DNSCache option" where
  "ReconfigureCache settings h =
     (case settings of
        None \<Rightarrow> (h, None)
      | Some s \<Rightarrow>
          (h\<lparr>hn_cache := (if cs_Enabled s
                         then Some (SetPrefetchFunc (NewDNSCache (cs_MaxSize s) (cs_DefaultTTL s) (cs_NegativeTTL s)
                                      (cs_PrefetchTrigger s)))
                         else None)\<rparr>,
           map_option cacheStop (hn_cache h)))"

definition prefetchUpstream :: "env \<Rightarrow> string \<Rightarrow> string \<Rightarrow> Handler \<Rightarrow> Handler" where
  "prefetchUpstream e domain qtype h =
     (case forwardH e (lib_SetQuestion (e_lib e) domain (lib_StringToType (e_lib e) qtype)) h of
        (Inl _, h') \<Rightarrow> h'
      | (Inr up, h') \<Rightarrow>
          if m_Answer up \<noteq> [] then
            setCache e domain qtype (m_Answer up)
              (minTTL (map (\<lambda>rr. uint (h_Ttl (Header rr))) (m_Answer up))) False h'
          else h')"

definition handlePrefetch :: "env \<Rightarrow> string \<Rightarrow> string \<Rightarrow> Handler \<Rightarrow> Handler" where
  "handlePrefetch e domain qtype h =
     (case extractDomainH e domain h of (zoneName, h1) \<Rightarrow>
        (case zoneByNameH e zoneName h1 of
           (Inr (Some zone), h2) \<Rightarrow>
             (case GetRecordsByName domain qtype (hn_db h2) of
                (Inl _, d) \<Rightarrow> h2\<lparr>hn_db := d\<rparr>
              | (Inr records, d) \<Rightarrow>
                  if records \<noteq> [] then
                    setCache e domain qtype
                      (m_Answer (buildResponse (e_lib e)
                         \<lparr>q_Name = domain, q_Qtype = lib_StringToType (e_lib e) qtype, q_Qclass = ClassINET\<rparr> records))
                      (minTTL (map r_TTL records)) False (h2\<lparr>hn_db := d\<rparr>)
                  else prefetchUpstream e domain qtype (h2\<lparr>hn_db := d\<rparr>))
         | (_, h2) \<Rightarrow> h2))"

definition stopBatch ::
  "('a list \<Rightarrow> 's \<Rightarrow> (db_error + unit) \<times> 's) \<Rightarrow> 'a bufferedBatch option \<Rightarrow> 's \<Rightarrow> 'a bufferedBatch option \<times> 's" where
  "stopBatch fb w s =
     (case w of
        None \<Rightarrow> (None, s)
      | Some b \<Rightarrow> (case batchRun fb [BatchStop] b s of (_, b', s') \<Rightarrow> (Some b', s')))"

definition handlerStop ::
  "(QueryLog list \<Rightarrow> 's \<Rightarrow> (db_error + unit) \<times> 's) \<Rightarrow> Handler \<Rightarrow> 's \<Rightarrow> Handler \<times> 's" where
  "handlerStop insertLogs h s =
     (let h1 = h\<lparr>hn_cache := map_option cacheStop (GetCache h)\<rparr>;
          h2 = (case hn_tracker h1 of
                  None \<Rightarrow> h1
                | Some t \<Rightarrow> (case trackerStop t (hn_db h1) of
                              (t', d) \<Rightarrow> h1\<lparr>hn_tracker := Some t', hn_db := d\<rparr>))
      in case stopBatch insertLogs (hn_log h2) s of (logw, s') \<Rightarrow>
           (case stopBatch BatchRecordBlockedQueries (hn_adstats h2) (hn_db h2) of
              (stw, d) \<Rightarrow> (h2\<lparr>hn_log := logw, hn_adstats := stw, hn_db := d\<rparr>, s')))"

subsection \<open>A cleared handler answers from the tables\<close>

text \<open>
  Clearing forgets everything that could be stale. After \<open>ClearCache\<close>, whatever the caches held
  before and whatever the tables now contain, no question is answered from the L1 cache and the
  zone and record caches agree with the tables, so the next answers are computed from the tables.
\<close>

theorem clear_cache_fresh:
  assumes "h' = (ClearCache h)\<lparr>hn_db := d\<rparr>" and "faults d = []" and "0 < e_now e"
  shows "coherent_handler e h' \<and> cache_misses e domain qtype h'"
proof
  show "coherent_handler e h'"
    using assms zone_cache.coherent_drop [of "tables d"] record_flush.coherent_drop [of "tables d"]
    by (simp add: coherent_handler_def ClearCache_def)
  show "cache_misses e domain qtype h'"
    using assms(1) cache_inv_cacheClear by (auto simp: cache_misses_def ClearCache_def GetCache_def)
qed

theorem clear_cache_fresh_witness:
  "coherent_handler sample_env ((ClearCache sample_handler)\<lparr>hn_db := sample_db\<rparr>)"
  using clear_cache_fresh [OF refl, where h = sample_handler and d = sample_db and e = sample_env]
  by (simp add: sample_db_def sample_env_def)

subsection \<open>Prefetching\<close>

text \<open>
  The prefetch of a name outside every local zone does nothing: neither the cache changes nor is
  an upstream server asked. Answers that came from upstream are therefore never refreshed before
  they expire, although the cache triggers their prefetch.
\<close>

lemma prefetch_outside_zones:
  assumes "coherent_handler e h" and "zoneByName (closestZone domain (tables (hn_db h))) (tables (hn_db h)) = None"
  shows "hn_cache (handlePrefetch e domain qtype h) = hn_cache h"
    and "sent (hn_resolver (handlePrefetch e domain qtype h)) = sent (hn_resolver h)"
proof -
  let ?t = "tables (hn_db h)"
  obtain h1 where 1: "extractDomainH e domain h = (closestZone domain ?t, h1)" and c1: "coherent_handler e h1"
    and q1: "quiet h h1" using extractDomainH_works [OF assms(1)] by metis
  have t1: "tables (hn_db h1) = ?t" using q1 by (simp add: quiet_def)
  obtain h2 where 2: "zoneByNameH e (closestZone domain ?t) h1 = (Inr None, h2)" and q2: "quiet h1 h2"
    using zoneByNameH_works [OF c1] assms(2) t1 by metis
  have "handlePrefetch e domain qtype h = h2" using 1 2 by (simp add: handlePrefetch_def)
  with quiet_trans [OF q1 q2] show "hn_cache (handlePrefetch e domain qtype h) = hn_cache h"
    "sent (hn_resolver (handlePrefetch e domain qtype h)) = sent (hn_resolver h)"
    by (simp_all add: quiet_def)
qed

text \<open>
  Nor does a prefetch look at the tests that keep private reverse names and local-use names from being
  forwarded: when a local zone encloses the name and holds no record of exactly this name and type, as for a name that a wildcard
  or an alias answers, the upstream servers are asked.
\<close>

lemma prefetch_asks_upstream:
  assumes "coherent_handler e h" and "zoneByName (closestZone domain (tables (hn_db h))) (tables (hn_db h)) = Some zone"
    and "exactRecords (t_records (tables (hn_db h))) domain qtype = []"
  shows "\<exists>h'. quiet h h' \<and> handlePrefetch e domain qtype h = prefetchUpstream e domain qtype h'"
proof -
  let ?t = "tables (hn_db h)"
  obtain h1 where 1: "extractDomainH e domain h = (closestZone domain ?t, h1)" and c1: "coherent_handler e h1"
    and q1: "quiet h h1" using extractDomainH_works [OF assms(1)] by metis
  have t1: "tables (hn_db h1) = ?t" using q1 by (simp add: quiet_def)
  obtain h2 where 2: "zoneByNameH e (closestZone domain ?t) h1 = (Inr (Some zone), h2)" and c2: "coherent_handler e h2"
    and q2: "quiet h1 h2" using zoneByNameH_works [OF c1] assms(2) t1 by metis
  have "GetRecordsByName domain qtype (hn_db h2) = (Inr [], hn_db h2)"
    using c2 assms(3) q2 t1 by (simp add: GetRecordsByName_def reader_works coherent_handler_def quiet_def)
  then have "handlePrefetch e domain qtype h = prefetchUpstream e domain qtype (h2\<lparr>hn_db := hn_db h2\<rparr>)"
    using 1 2 by (simp add: handlePrefetch_def)
  with quiet_trans [OF q1 q2] show ?thesis by auto
qed

subsection \<open>What leaves the server\<close>

text \<open>
  A history of the handler: requests are served, and a prefetch that the L1 cache has triggered runs at any
  later time, in the environment it then finds. The prefetches are the calls \<^verbatim>\<open>go callback.fn(domain, qtype)\<close>
  that the cache has made.
\<close>

definition prefetches :: "DNSCache option \<Rightarrow> (string \<times> string) list" where
  "prefetches c = (case c of None \<Rightarrow> [] | Some c' \<Rightarrow> prefetched c')"

inductive serving :: "Handler \<Rightarrow> (env \<times> Msg) list \<Rightarrow> Handler \<Rightarrow> bool" for h0 where
  sv_init: "serving h0 [] h0"
| sv_request: "serving h0 rs h \<Longrightarrow> ServeDNS e req h = Inr (ms, h') \<Longrightarrow> serving h0 (rs @ [(e, req)]) h'"
| sv_prefetch: "serving h0 rs h \<Longrightarrow> (domain, qtype) \<in> set (prefetches (hn_cache h)) \<Longrightarrow>
    serving h0 rs (handlePrefetch e domain qtype h)"

text \<open>The query that a prefetch sends: only with an enclosing local zone and no record of its own.\<close>

definition prefetch_leaves :: "env \<Rightarrow> string \<Rightarrow> string \<Rightarrow> Handler \<Rightarrow> Msg \<Rightarrow> bool" where
  "prefetch_leaves e domain qtype h m \<longleftrightarrow>
     m = lib_SetQuestion (e_lib e) domain (lib_StringToType (e_lib e) qtype) \<and>
     (\<exists>z h1 zone h2 d. extractDomainH e domain h = (z, h1) \<and> zoneByNameH e z h1 = (Inr (Some zone), h2) \<and>
        GetRecordsByName domain qtype (hn_db h2) = (Inr [], d))"

fun prefetch_effect :: "env \<Rightarrow> string \<Rightarrow> string \<Rightarrow> Handler \<Rightarrow> effect \<Rightarrow> bool" where
  "prefetch_effect e domain qtype h (Sends m) = prefetch_leaves e domain qtype h m"
| "prefetch_effect e domain qtype h (Touches k) = (k = (domain, qtype))"

lemma told_db [simp]: "told P h (h'\<lparr>hn_db := d\<rparr>) = told P h h'"
  by (simp add: told_def)

lemma prefetchUpstream_told:
  assumes "P (Sends (lib_SetQuestion (e_lib e) domain (lib_StringToType (e_lib e) qtype)))" and "P (Touches (domain, qtype))"
  shows "told P h (prefetchUpstream e domain qtype h)"
proof -
  let ?req = "lib_SetQuestion (e_lib e) domain (lib_StringToType (e_lib e) qtype)"
  obtain r h1 where 1: "forwardH e ?req h = (r, h1)" by fastforce
  have "told P h h1" by (rule told_sends [OF sends_forwardH [OF 1]]) (use assms(1) in simp)
  with 1 assms(2) show ?thesis by (cases r) (auto simp: prefetchUpstream_def)
qed

lemma handlePrefetch_effects: "told (prefetch_effect e domain qtype h) h (handlePrefetch e domain qtype h)"
proof -
  let ?P = "prefetch_effect e domain qtype h"
  obtain z h1 where 1: "extractDomainH e domain h = (z, h1)" by fastforce
  obtain r h2 where 2: "zoneByNameH e z h1 = (r, h2)" by fastforce
  obtain rr d where 3: "GetRecordsByName domain qtype (hn_db h2) = (rr, d)" by fastforce
  have t: "told ?P h h2" using quiet_extractDomainH [OF 1] quiet_zoneByNameH [OF 2] by (blast intro: told_quiet quiet_trans)
  show ?thesis
  proof (cases "\<exists>zone. r = Inr (Some zone) \<and> rr = Inr []")
    case True
    with 1 2 3 have "?P (Sends (lib_SetQuestion (e_lib e) domain (lib_StringToType (e_lib e) qtype)))"
      by (auto simp: prefetch_leaves_def)
    from prefetchUpstream_told [of ?P, OF this] have "told ?P h2 (prefetchUpstream e domain qtype (h2\<lparr>hn_db := d\<rparr>))"
      by (rule told_trans [rotated]) simp_all
    with True 1 2 3 told_trans [OF t] show ?thesis by (auto simp: handlePrefetch_def)
  next
    case False
    have "told ?P h (setCache e domain qtype rrs ttl False (h2\<lparr>hn_db := d\<rparr>))" for rrs ttl
      using t by (simp add: told_setCache)
    with False 1 2 3 t show ?thesis by (auto simp: handlePrefetch_def split: sum.splits option.splits)
  qed
qed

lemma prefetched_cacheSet [simp]: "prefetched (cacheSet now d q rrs ttl neg c) = prefetched c"
  by (simp add: cacheSet_def evictOldestLocked_def dropKey_def addSize_def Let_def split: option.split)

lemma prefetched_cacheGet: "cacheGet now d q c = Some (r, c') \<Longrightarrow> set (prefetched c') \<subseteq> insert (d, q) (set (prefetched c))"
  by (cases rule: cacheGet_cases [of c d q now])
    (auto simp: checkPrefetch_def bumpHits_def bumpMisses_def getTouch_def dropKey_def addSize_def split: option.splits if_splits)

lemma cache_run_prefetches: "cache_run K c c' \<Longrightarrow> k \<in> set (prefetches c') \<Longrightarrow> k \<in> set (prefetches c) \<or> K k"
proof (induction rule: cache_run.induct)
  case (cr_get K c c1 d q now r c2)
  with prefetched_cacheGet [OF cr_get.hyps(3)] show ?case by (auto simp: prefetches_def)
next
  case (cr_set K c c1 d q now rrs ttl neg)
  then show ?case by (cases c1) (auto simp: prefetches_def)
qed simp

text \<open>A name and type that one of the requests asked for.\<close>

definition asked :: "(env \<times> Msg) list \<Rightarrow> string \<times> string \<Rightarrow> bool" where
  "asked rs k \<longleftrightarrow> (\<exists>e req q qs. (e, req) \<in> set rs \<and> m_Question req = q # qs \<and>
     k = (ToLower (q_Name q), lib_TypeToString (e_lib e) (q_Qtype q)))"

lemma serving_prefetches:
  assumes "serving h0 rs h" and "k \<in> set (prefetches (hn_cache h))" and "prefetches (hn_cache h0) = []"
  shows "asked rs k"
  using assms
proof (induction rule: serving.induct)
  case (sv_request rs h e req ms h')
  from request_effects [OF sv_request.hyps(2)] have "k \<in> set (prefetches (hn_cache h)) \<or>
      (\<exists>q qs. m_Question req = q # qs \<and> request_effect e req q (Touches k))"
    unfolding told_def using cache_run_prefetches [OF _ sv_request.prems(1)] by blast
  with sv_request.IH sv_request.prems(2) show ?case by (fastforce simp: asked_def)
next
  case (sv_prefetch rs h domain qtype e)
  from handlePrefetch_effects [of e domain qtype h] have "k \<in> set (prefetches (hn_cache h)) \<or> k = (domain, qtype)"
    unfolding told_def using cache_run_prefetches [OF _ sv_prefetch.prems(1)] by force
  with sv_prefetch show ?case by blast
qed simp

definition justified :: "Handler \<Rightarrow> (env \<times> Msg) list \<Rightarrow> Msg \<Rightarrow> bool" where
  "justified h0 rs m \<longleftrightarrow>
     (\<exists>e req q qs. (e, req) \<in> set rs \<and> m_Question req = q # qs \<and> may_leave e req q m) \<or>
     (\<exists>e domain qtype earlier later h. rs = earlier @ later \<and> serving h0 earlier h \<and> asked earlier (domain, qtype) \<and>
        (domain, qtype) \<in> set (prefetches (hn_cache h)) \<and> prefetch_leaves e domain qtype h m)"

lemma justified_more: "justified h0 rs m \<Longrightarrow> justified h0 (rs @ rs') m"
  unfolding justified_def by (elim disjE) (fastforce, metis append.assoc)



subsection \<open>Shutdown\<close>

lemma stopBatch_drains:
  assumes "stopBatch fb w s = (w', s')" and "\<forall>b. w = Some b \<longrightarrow> \<not> stopped b"
  shows "\<forall>b'. w' = Some b' \<longrightarrow> pending b' = [] \<and> stopped b'"
  using assms
  by (auto simp: stopBatch_def split: option.splits prod.splits dest!: flush_Pair)

text \<open>
  C39: Shutdown drains the writers. After the first \<open>Stop\<close>, neither the query log nor the ad-block
  statistics has anything left in its buffer, and what the query log had buffered was handed
  to its sink in one batch.
\<close>

theorem stop_drains:
  assumes "handlerStop insertLogs h s = (h', s')"
    and "\<forall>b. hn_log h = Some b \<longrightarrow> \<not> stopped b" and "\<forall>b. hn_adstats h = Some b \<longrightarrow> \<not> stopped b"
  shows "(\<forall>b. hn_log h' = Some b \<longrightarrow> pending b = [] \<and> stopped b) \<and>
         (\<forall>b. hn_adstats h' = Some b \<longrightarrow> pending b = [] \<and> stopped b) \<and>
         (\<forall>b. hn_log h = Some b \<and> pending b \<noteq> [] \<longrightarrow> s' = snd (insertLogs (pending b) s))"
proof -
  let ?h1 = "h\<lparr>hn_cache := map_option cacheStop (GetCache h)\<rparr>"
  let ?h2 = "case hn_tracker ?h1 of None \<Rightarrow> ?h1
     | Some t \<Rightarrow> (case trackerStop t (hn_db ?h1) of (t', d) \<Rightarrow> ?h1\<lparr>hn_tracker := Some t', hn_db := d\<rparr>)"
  have same: "hn_log ?h2 = hn_log h" "hn_adstats ?h2 = hn_adstats h"
    by (auto split: option.splits prod.splits)
  obtain logw s1 where 1: "stopBatch insertLogs (hn_log h) s = (logw, s1)" by fastforce
  obtain stw d where 2: "stopBatch BatchRecordBlockedQueries (hn_adstats h) (hn_db ?h2) = (stw, d)" by fastforce
  from assms(1) 1 2 same have h': "hn_log h' = logw" "hn_adstats h' = stw" "s' = s1"
    by (auto simp: handlerStop_def Let_def)
  have "s1 = snd (insertLogs (pending b) s)" if "hn_log h = Some b" "pending b \<noteq> []" for b
    using 1 that assms(2) flush_writer [of insertLogs b s] by (auto simp: stopBatch_def split: prod.splits)
  with stopBatch_drains [OF 1 assms(2)] stopBatch_drains [OF 2 assms(3)] h' show ?thesis by auto
qed

definition logged_entry :: QueryLog where
  "logged_entry = \<lparr>ql_ID = 0, ql_Timestamp = 5, ql_ClientIP = ''192.0.2.200'', ql_Domain = ''a.'', ql_QueryType = ''A'',
     ql_ResponseCode = ''NOERROR'', ql_ResponseSource = ''zone'', ql_LatencyMs = 0, ql_ResponseData = '''',
     ql_Protocol = ''udp'', ql_ResponseSize = 12, ql_EDNSPresent = False, ql_EDNSVersion = 0, ql_EDNSBufferSize = 0\<rparr>"

definition busy_handler :: Handler where
  "busy_handler = sample_handler\<lparr>hn_log := queryLogRecord logged_entry (hn_log sample_handler)\<rparr>"

theorem stop_drains_witness:
  "snd (handlerStop (\<lambda>x s. (Inr (), s @ x)) busy_handler []) = [logged_entry]"
proof -
  obtain h' s' where run: "handlerStop (\<lambda>x s. (Inr (), s @ x)) busy_handler [] = (h', s')" by fastforce
  obtain b where b: "hn_log busy_handler = Some b" "pending b = [logged_entry]" "\<not> stopped b"
    by (auto simp: busy_handler_def sample_handler_def queryLogRecord_def add_def newBufferedBatch_def
        defaultBatchBufferSize_def)
  have "hn_adstats busy_handler = None" by (simp add: busy_handler_def sample_handler_def)
  with stop_drains [OF run] b run show ?thesis by auto
qed

end
