(* ===== verification/HealthWorker.thy ===== *)
theory HealthWorker
  imports GslbEngine "HOL-Library.Multiset"
begin

section \<open>The health-check worker (gslb/healthcheck_worker.go)\<close>

text \<open>
  Probing members, counting results into the health map, and the goroutines that run the checks.
  The network is a parameter: \<open>dial\<close> tells whether a TCP connection to an address opens,
  \<open>http\<close> what status an HTTP request gets (\<open>None\<close>: it fails), \<open>url_parse\<close> is
  \<^verbatim>\<open>url.Parse\<close>, \<open>errtext\<close> the text of a failure, which is only stored. The counters are Go \<^verbatim>\<open>int\<close>s, incremented once per check.
\<close>

subsection \<open>Probes\<close>

record URL =
  url_Scheme :: string
  url_Host :: string
  url_Hostname :: string
  url_Port :: string
  url_Path :: string
  url_RawQuery :: string

record request =
  rq_Scheme :: string
  rq_Address :: string
  rq_Path :: string
  rq_RawQuery :: string
  rq_Host :: string
  rq_ServerName :: string

record network =
  dial :: "string \<Rightarrow> bool"
  http :: "request \<Rightarrow> int option"
  url_parse :: "string \<Rightarrow> URL option"
  errtext :: "HealthCheck \<Rightarrow> GSLBMember \<Rightarrow> string"

definition defaultHTTPPort :: "string \<Rightarrow> string" where
  "defaultHTTPPort scheme = (if scheme = ''https'' then ''443'' else ''80'')"

definition hostWithoutPort :: "string \<Rightarrow> string" where
  "hostWithoutPort address = (case SplitHostPort address of None \<Rightarrow> address | Some (h, _) \<Rightarrow> h)"

definition memberAddressWithPort :: "string \<Rightarrow> string \<Rightarrow> string" where
  "memberAddressWithPort address port =
     (case SplitHostPort address of Some _ \<Rightarrow> address | None \<Rightarrow> JoinHostPort address port)"

definition parseHealthCheckTargetURL ::
  "network \<Rightarrow> HealthCheck \<Rightarrow> GSLBMember \<Rightarrow> (URL \<times> bool) option" where
  "parseHealthCheckTargetURL net check member =
     (if HasPrefix (hc_Target check) ''http://'' \<or> HasPrefix (hc_Target check) ''https://'' then
        map_option (\<lambda>u. (u, True)) (url_parse net (hc_Target check))
      else
        let path = (if HasPrefix (hc_Target check) ''/'' then hc_Target check else ''/'' @ hc_Target check)
        in map_option
             (\<lambda>u. (\<lparr>url_Scheme = hc_CheckType check, url_Host = mb_Address member, url_Hostname = [],
                     url_Port = [], url_Path = url_Path u, url_RawQuery = url_RawQuery u\<rparr>, False))
             (url_parse net path))"

definition healthCheckRequestPort :: "URL \<Rightarrow> bool \<Rightarrow> string \<Rightarrow> string" where
  "healthCheckRequestPort u fullURLTarget memberAddress =
     (if fullURLTarget then (if url_Port u \<noteq> [] then url_Port u else defaultHTTPPort (url_Scheme u))
      else (case SplitHostPort memberAddress of
              Some (_, port) \<Rightarrow> port
            | None \<Rightarrow> defaultHTTPPort (url_Scheme u)))"

definition buildHealthCheckRequestURL :: "network \<Rightarrow> HealthCheck \<Rightarrow> GSLBMember \<Rightarrow> request option" where
  "buildHealthCheckRequestURL net check member =
     (case parseHealthCheckTargetURL net check member of
        None \<Rightarrow> None
      | Some (u, fullURLTarget) \<Rightarrow>
          let port = healthCheckRequestPort u fullURLTarget (mb_Address member)
          in Some \<lparr>rq_Scheme = url_Scheme u, rq_Address = memberAddressWithPort (mb_Address member) port,
               rq_Path = url_Path u, rq_RawQuery = url_RawQuery u,
               rq_Host = (if fullURLTarget then url_Host u else mb_Address member),
               rq_ServerName = (if fullURLTarget then url_Hostname u else hostWithoutPort (mb_Address member))\<rparr>)"

definition expectedHTTPStatusCodes :: "int list \<Rightarrow> int list" where
  "expectedHTTPStatusCodes codes = (if codes = [] then [200] else codes)"

definition probeHTTP :: "network \<Rightarrow> HealthCheck \<Rightarrow> GSLBMember \<Rightarrow> bool" where
  "probeHTTP net check member =
     (case buildHealthCheckRequestURL net check member of
        None \<Rightarrow> False
      | Some rq \<Rightarrow>
          (case http net rq of
             None \<Rightarrow> False
           | Some code \<Rightarrow> List.member (expectedHTTPStatusCodes (hc_ExpectedCodes check)) code))"

definition probeTCP :: "network \<Rightarrow> string \<Rightarrow> string \<Rightarrow> bool" where
  "probeTCP net target memberAddress =
     (if CHR '':'' \<in> set target then
        (case SplitHostPort target of
           None \<Rightarrow> False
         | Some (_, port) \<Rightarrow> dial net (JoinHostPort memberAddress port))
      else dial net (JoinHostPort memberAddress target))"

text \<open>\<open>True\<close> for a probe without an error.\<close>

definition probe :: "network \<Rightarrow> HealthCheck \<Rightarrow> GSLBMember \<Rightarrow> bool" where
  "probe net check member =
     (if hc_CheckType check = ''http'' \<or> hc_CheckType check = ''https'' then probeHTTP net check member
      else probeTCP net (hc_Target check) (mb_Address member))"

subsection \<open>Counting results\<close>

definition getStatus :: "health_map \<Rightarrow> rowid \<Rightarrow> HealthStatus" where
  "getStatus hs i =
     (case hs i of
        Some st \<Rightarrow> st
      | None \<Rightarrow> \<lparr>Healthy = True, ConsecutiveFails = 0, ConsecutiveOKs = 0, LastCheck = 0, LastError = []\<rparr>)"

definition recordResult :: "instant \<Rightarrow> HealthCheck \<Rightarrow> string option \<Rightarrow> HealthStatus \<Rightarrow> HealthStatus" where
  "recordResult now check err st =
     (case err of
        None \<Rightarrow>
          let oks = ConsecutiveOKs st + 1
          in st\<lparr>LastCheck := now, ConsecutiveOKs := oks, ConsecutiveFails := 0, LastError := [],
               Healthy := (if oks \<ge> hc_HealthyThreshold check then True else Healthy st)\<rparr>
      | Some e \<Rightarrow>
          let fails = ConsecutiveFails st + 1
          in st\<lparr>LastCheck := now, ConsecutiveFails := fails, ConsecutiveOKs := 0, LastError := e,
               Healthy := (if fails \<ge> hc_UnhealthyThreshold check then False else Healthy st)\<rparr>)"

definition runCheck ::
  "instant \<Rightarrow> network \<Rightarrow> HealthCheck \<Rightarrow> GSLBMember \<Rightarrow> health_map \<Rightarrow> health_map" where
  "runCheck now net check member hs =
     (let err = (if probe net check member then None else Some (errtext net check member))
      in hs(mb_ID member \<mapsto> recordResult now check err (getStatus hs (mb_ID member))))"

subsection \<open>One round of a policy\<close>

text \<open>
  The members a round probes: the enabled members of the pools that could be read. The members
  run in goroutines of their own; \<open>order\<close> is the order in which they record their results.
\<close>

fun roundMembers ::
  "instant \<Rightarrow> GSLBPool list \<Rightarrow> db \<Rightarrow> PoolCache \<Rightarrow> GSLBMember list \<times> db \<times> PoolCache" where
  "roundMembers now [] d c = ([], d, c)"
| "roundMembers now (pool # rest) d c =
     (case GetMembersByPool now (pl_ID pool) d c of
        (Inl _, (d1, c1)) \<Rightarrow> roundMembers now rest d1 c1
      | (Inr ms, (d1, c1)) \<Rightarrow>
          (case roundMembers now rest d1 c1 of (others, s) \<Rightarrow> (filter mb_Enabled ms @ others, s)))"

definition runPolicyCheck ::
  "instant \<Rightarrow> network \<Rightarrow> (GSLBMember list \<Rightarrow> GSLBMember list)
     \<Rightarrow> HealthCheck \<Rightarrow> rowid set \<Rightarrow> db \<Rightarrow> PoolCache \<Rightarrow> health_map \<Rightarrow> health_map \<times> db \<times> PoolCache" where
  "runPolicyCheck now net order check running d c hs =
     (if hc_ID check \<in> running then (hs, d, c)
      else (case GetPoolsByPolicy now (hc_PolicyID check) d c of
              (Inl _, s) \<Rightarrow> (hs, s)
            | (Inr ps, (d1, c1)) \<Rightarrow>
                (case roundMembers now ps d1 c1 of (ms, s) \<Rightarrow>
                   (fold (runCheck now net check) (order ms) hs, s))))"

subsection \<open>The goroutines\<close>

text \<open>
  \<open>runners\<close> maps a check to the stop channel of its loop. \<open>loops\<close> are the goroutines of
  \<^verbatim>\<open>runCheckLoop\<close> that have not returned, \<open>closed\<close> the stop channels that are closed, \<open>stopped\<close>
  whether the worker's own channel is. Channels are numbered as they are made. \<open>ranged\<close> holds the keys
  and values that the \<^verbatim>\<open>Range\<close> of a running \<^verbatim>\<open>Restart\<close> has handed to its callback and that the callback
  has not dealt with yet; \<open>crashed\<close> says that a closed channel was closed again, a panic in Go.
\<close>

record HealthCheckWorker =
  runners :: "rowid \<rightharpoonup> nat"
  loops :: "(nat \<times> HealthCheck) list"
  closed :: "nat list"
  nextChan :: nat
  stopped :: bool
  ranged :: "(rowid \<times> nat) list"
  crashed :: bool

definition NewHealthCheckWorker :: HealthCheckWorker where
  "NewHealthCheckWorker = \<lparr>runners = Map.empty, loops = [], closed = [], nextChan = 0, stopped = False,
     ranged = [], crashed = False\<rparr>"

definition closeChan :: "nat \<Rightarrow> HealthCheckWorker \<Rightarrow> HealthCheckWorker" where
  "closeChan ch w = (if ch \<in> set (closed w) then w\<lparr>crashed := True\<rparr> else w\<lparr>closed := ch # closed w\<rparr>)"

definition startCheck :: "HealthCheck \<Rightarrow> HealthCheckWorker \<Rightarrow> HealthCheckWorker" where
  "startCheck check w =
     (let ch = nextChan w; w1 = w\<lparr>nextChan := Suc ch\<rparr>
      in case runners w (hc_ID check) of
           Some _ \<Rightarrow> w1
         | None \<Rightarrow> w1\<lparr>runners := (runners w)(hc_ID check \<mapsto> ch), loops := (ch, check) # loops w\<rparr>)"

fun startChecks :: "HealthCheck list \<Rightarrow> HealthCheckWorker \<Rightarrow> HealthCheckWorker" where
  "startChecks [] w = w"
| "startChecks (check # rest) w = startChecks rest (if hc_Enabled check then startCheck check w else w)"

definition Start :: "db \<Rightarrow> HealthCheckWorker \<Rightarrow> HealthCheckWorker \<times> db" where
  "Start d w =
     (case ListHealthChecks d of
        (Inl _, d') \<Rightarrow> (w, d')
      | (Inr checks, d') \<Rightarrow> (startChecks checks w, d'))"

definition AddCheck :: "HealthCheck \<Rightarrow> HealthCheckWorker \<Rightarrow> HealthCheckWorker" where
  "AddCheck check w = (if hc_Enabled check then startCheck check w else w)"

definition RemoveCheck :: "rowid \<Rightarrow> HealthCheckWorker \<Rightarrow> HealthCheckWorker" where
  "RemoveCheck i w =
     (case runners w i of
        None \<Rightarrow> w
      | Some ch \<Rightarrow> closeChan ch (w\<lparr>runners := (runners w)(i := None)\<rparr>))"

definition UpdateCheck :: "HealthCheck \<Rightarrow> HealthCheckWorker \<Rightarrow> HealthCheckWorker" where
  "UpdateCheck check w = AddCheck check (RemoveCheck (hc_ID check) w)"

text \<open>\<^verbatim>\<open>Stop\<close> closes the worker's channel once; its return waits for the loops, see \<open>worker_step\<close>.\<close>

definition Stop :: "HealthCheckWorker \<Rightarrow> HealthCheckWorker" where
  "Stop w = w\<lparr>stopped := True\<rparr>"

text \<open>
  \<^verbatim>\<open>Restart\<close> closes every runner (first phase), waits, and starts the checks (second phase). In the first
  phase \<^verbatim>\<open>Range\<close> reads a key with its value (\<open>restartRange\<close>) and then calls the callback (\<open>restartVisit\<close>),
  which removes whatever channel the key has by then and closes the one that was read. Other callers may
  come between the two; \<open>restartClose\<close> is the phase when none does, over the keys \<open>ids\<close> it visits.
\<close>

definition restartRange :: "rowid \<Rightarrow> HealthCheckWorker \<Rightarrow> HealthCheckWorker" where
  "restartRange i w = (case runners w i of None \<Rightarrow> w | Some ch \<Rightarrow> w\<lparr>ranged := (i, ch) # ranged w\<rparr>)"

definition restartVisit :: "rowid \<times> nat \<Rightarrow> HealthCheckWorker \<Rightarrow> HealthCheckWorker" where
  "restartVisit kv w =
     (let w1 = w\<lparr>ranged := remove1 kv (ranged w)\<rparr>
      in case runners w (fst kv) of
           None \<Rightarrow> w1
         | Some _ \<Rightarrow> closeChan (snd kv) (w1\<lparr>runners := (runners w)(fst kv := None)\<rparr>))"

fun restartClose :: "rowid list \<Rightarrow> HealthCheckWorker \<Rightarrow> HealthCheckWorker" where
  "restartClose [] w = w"
| "restartClose (i # ids) w =
     restartClose ids (case runners w i of None \<Rightarrow> w | Some ch \<Rightarrow> restartVisit (i, ch) (restartRange i w))"

text \<open>A loop returns: its deferred \<^verbatim>\<open>CompareAndDelete\<close> only removes its own channel.\<close>

definition loopReturn :: "nat \<times> HealthCheck \<Rightarrow> HealthCheckWorker \<Rightarrow> HealthCheckWorker" where
  "loopReturn l w =
     w\<lparr>loops := remove1 l (loops w),
       runners := (if runners w (hc_ID (snd l)) = Some (fst l) then (runners w)(hc_ID (snd l) := None)
                   else runners w)\<rparr>"

text \<open>
  \<open>Restart\<close> as a whole, when no other caller comes between: \<open>ids\<close> are the keys \<^verbatim>\<open>Range\<close> visits, and
  every loop returns during the wait.
\<close>

definition Restart :: "rowid list \<Rightarrow> db \<Rightarrow> HealthCheckWorker \<Rightarrow> HealthCheckWorker \<times> db" where
  "Restart ids d w =
     (let closing = restartClose ids w
      in Start d (fold loopReturn (loops closing) closing))"

text \<open>
  The steps. Callers take turns between operations and, for \<^verbatim>\<open>Restart\<close>, between each reading, each callback,
  the wait and the second phase; the \<^verbatim>\<open>LoadAndDelete\<close> and the \<^verbatim>\<open>close\<close> of one call are together one step.
\<close>

inductive worker_step :: "HealthCheckWorker \<Rightarrow> HealthCheckWorker \<Rightarrow> bool" where
  w_start: "worker_step w (startCheck check w)"
| w_add: "worker_step w (AddCheck check w)"
| w_remove: "worker_step w (RemoveCheck i w)"
| w_update: "worker_step w (UpdateCheck check w)"
| w_stop: "worker_step w (Stop w)"
| w_range: "worker_step w (restartRange i w)"
| w_visit: "kv \<in> set (ranged w) \<Longrightarrow> worker_step w (restartVisit kv w)"
| w_restart: "loops w = [] \<Longrightarrow> worker_step w (startChecks checks w)"
| w_return: "l \<in> set (loops w) \<Longrightarrow> fst l \<in> set (closed w) \<or> stopped w \<Longrightarrow> worker_step w (loopReturn l w)"

inductive worker_reach :: "HealthCheckWorker \<Rightarrow> bool" where
  w_init: "worker_reach NewHealthCheckWorker"
| w_step: "worker_reach w \<Longrightarrow> \<not> crashed w \<Longrightarrow> worker_step w w' \<Longrightarrow> worker_reach w'"

text \<open>When no other caller comes between, the first phase of \<^verbatim>\<open>Restart\<close> removes the checks one by one.\<close>

lemma restartVisit_range: "runners w i = Some ch \<Longrightarrow> restartVisit (i, ch) (restartRange i w) = RemoveCheck i w"
  by (simp add: restartVisit_def restartRange_def RemoveCheck_def)

lemma restartClose_removes: "restartClose ids w = fold RemoveCheck ids w"
proof (induction ids w rule: restartClose.induct)
  case (2 i ids w)
  then show ?case by (cases "runners w i") (simp_all add: restartVisit_range RemoveCheck_def)
qed simp


subsection \<open>Hysteresis\<close>

text \<open>
  A history of one member's checks, oldest first: when each ran, and the network it saw. Its
  results are the errors of the probes, and \<open>trailing\<close> counts the last results of one kind.
\<close>

definition history :: "HealthCheck \<Rightarrow> GSLBMember \<Rightarrow> (instant \<times> network) list \<Rightarrow> health_map \<Rightarrow> health_map" where
  "history check m h hs = fold (\<lambda>(now, net). runCheck now net check m) h hs"

definition probes :: "HealthCheck \<Rightarrow> GSLBMember \<Rightarrow> (instant \<times> network) list \<Rightarrow> bool list" where
  "probes check m h = map (\<lambda>(now, net). probe net check m) h"

definition trailing :: "bool \<Rightarrow> bool list \<Rightarrow> nat" where
  "trailing ok rs = length (takeWhile (\<lambda>r. r = ok) (rev rs))"

lemma trailing_simps [simp]:
  "trailing ok [] = 0" "trailing ok (rs @ [r]) = (if r = ok then Suc (trailing ok rs) else 0)"
  by (simp_all add: trailing_def)

lemma history_simps [simp]:
  "history check m [] hs = hs"
  "history check m (h @ [(now, net)]) hs = runCheck now net check m (history check m h hs)"
  "probes check m [] = []" "probes check m (h @ [(now, net)]) = probes check m h @ [probe net check m]"
  by (simp_all add: history_def probes_def)

lemma getStatus_runCheck [simp]:
  "getStatus (runCheck now net check m hs) (mb_ID m) =
     recordResult now check (if probe net check m then None else Some (errtext net check m)) (getStatus hs (mb_ID m))"
  by (simp add: runCheck_def Let_def getStatus_def)

lemma recordResult_simps [simp]:
  "ConsecutiveOKs (recordResult now check None st) = ConsecutiveOKs st + 1"
  "ConsecutiveFails (recordResult now check None st) = 0"
  "Healthy (recordResult now check None st) = (hc_HealthyThreshold check \<le> ConsecutiveOKs st + 1 \<or> Healthy st)"
  "ConsecutiveOKs (recordResult now check (Some e) st) = 0"
  "ConsecutiveFails (recordResult now check (Some e) st) = ConsecutiveFails st + 1"
  "Healthy (recordResult now check (Some e) st) = (\<not> hc_UnhealthyThreshold check \<le> ConsecutiveFails st + 1 \<and> Healthy st)"
  by (auto simp: recordResult_def Let_def)

lemma history_counters:
  assumes "hs (mb_ID m) = None"
  shows "ConsecutiveOKs (getStatus (history check m h hs) (mb_ID m)) = int (trailing True (probes check m h))
       \<and> ConsecutiveFails (getStatus (history check m h hs) (mb_ID m)) = int (trailing False (probes check m h))"
  using assms
proof (induction h rule: rev_induct)
  case Nil
  then show ?case by (simp add: getStatus_def)
next
  case (snoc x h)
  then show ?case by (cases x) auto
qed

text \<open>
  C24: Health states change by thresholds only. For a member that starts without a status and any
  history of checks, after one more check: a success that completes at least \<^verbatim>\<open>healthy_threshold\<close>
  successes in a row makes it healthy, a failure that completes at least \<^verbatim>\<open>unhealthy_threshold\<close>
  failures in a row makes it unhealthy, and any other result leaves it as it was.
\<close>

theorem health_hysteresis:
  assumes "hs (mb_ID m) = None"
  shows "Healthy (getStatus (history check m (h @ [(now, net)]) hs) (mb_ID m)) =
    (let rs = probes check m (h @ [(now, net)])
     in if probe net check m \<and> hc_HealthyThreshold check \<le> int (trailing True rs) then True
        else if \<not> probe net check m \<and> hc_UnhealthyThreshold check \<le> int (trailing False rs) then False
        else Healthy (getStatus (history check m h hs) (mb_ID m)))"
  using history_counters [of hs m check h] assms
  by (cases "probe net check m") (auto simp: add.commute)

definition sample_check :: HealthCheck where
  "sample_check = \<lparr>hc_ID = 1, hc_PolicyID = 1, hc_CheckType = ''tcp'', hc_Target = ''443'', hc_IntervalSec = 10,
     hc_TimeoutSec = 5, hc_HealthyThreshold = 3, hc_UnhealthyThreshold = 2, hc_ExpectedCodes = [], hc_Enabled = True\<rparr>"

definition dead_network :: network where
  "dead_network = \<lparr>dial = (\<lambda>_. False), http = (\<lambda>_. None), url_parse = (\<lambda>_. None), errtext = (\<lambda>_ _. ''refused'')\<rparr>"

theorem health_hysteresis_witness:
  "Healthy (getStatus (history sample_check (sample_member 1 ''10.0.0.1'' 1) [(1, dead_network)] Map.empty) 1)
   \<and> \<not> Healthy (getStatus (history sample_check (sample_member 1 ''10.0.0.1'' 1)
           ([(1, dead_network)] @ [(2, dead_network)]) Map.empty) 1)"
proof -
  let ?m = "sample_member 1 ''10.0.0.1'' 1"
  have down: "\<not> probe dead_network sample_check ?m" "mb_ID ?m = 1"
    by (simp_all add: probe_def probeTCP_def sample_check_def dead_network_def sample_member_def)
  show ?thesis
    using health_hysteresis [of Map.empty ?m sample_check "[]" 1 dead_network]
      health_hysteresis [of Map.empty ?m sample_check "[(1, dead_network)]" 2 dead_network] down
      history_simps(4) [of sample_check ?m "[]" 1 dead_network]
      history_simps(4) [of sample_check ?m "[(1, dead_network)]" 2 dead_network]
      trailing_simps(2) [of False "[]" False] trailing_simps(2) [of False "[False]" False]
    by (simp add: sample_check_def getStatus_def)
qed

subsection \<open>A round does not depend on the order of its goroutines\<close>

lemma runCheck_other: "i \<noteq> mb_ID m \<Longrightarrow> runCheck now net check m hs i = hs i"
  by (simp add: runCheck_def Let_def)

lemma runCheck_commute:
  "mb_ID m \<noteq> mb_ID n \<Longrightarrow>
     runCheck now net check m (runCheck now net check n hs) = runCheck now net check n (runCheck now net check m hs)"
  by (auto simp: runCheck_def Let_def getStatus_def fun_upd_twist)

lemma fold_runCheck_perm:
  assumes "mset ms = mset ns" and "distinct (map mb_ID ms)"
  shows "fold (runCheck now net check) ms = fold (runCheck now net check) ns"
proof (rule fold_multiset_equiv [OF _ assms(1)])
  fix x y
  assume "x \<in> set ms" "y \<in> set ms"
  with assms(2) have "x = y \<or> mb_ID x \<noteq> mb_ID y" by (auto simp: distinct_map dest: inj_onD)
  then show "runCheck now net check x \<circ> runCheck now net check y = runCheck now net check y \<circ> runCheck now net check x"
    by (auto simp: fun_eq_iff runCheck_commute)
qed

subsection \<open>The runners\<close>

definition worker_inv :: "HealthCheckWorker \<Rightarrow> bool" where
  "worker_inv w \<longleftrightarrow>
     distinct (map fst (loops w))
     \<and> (\<forall>l \<in> set (loops w). fst l < nextChan w)
     \<and> (\<forall>ch \<in> set (closed w). ch < nextChan w)
     \<and> (\<forall>i ch. runners w i = Some ch \<longrightarrow> ch \<notin> set (closed w) \<and> (\<exists>check. (ch, check) \<in> set (loops w) \<and> hc_ID check = i))
     \<and> (stopped w \<or> (\<forall>l \<in> set (loops w). fst l \<notin> set (closed w) \<longrightarrow> runners w (hc_ID (snd l)) = Some (fst l)))
     \<and> (\<forall>i ch. (i, ch) \<in> set (ranged w) \<longrightarrow>
          ch < nextChan w \<and> (stopped w \<or> ch \<in> set (closed w) \<or> runners w i = Some ch)
          \<and> (\<forall>j. runners w j = Some ch \<longrightarrow> j = i))"

lemma worker_invI:
  assumes "distinct (map fst (loops w))" and "\<And>l. l \<in> set (loops w) \<Longrightarrow> fst l < nextChan w"
    and "\<And>ch. ch \<in> set (closed w) \<Longrightarrow> ch < nextChan w"
    and "\<And>i ch. runners w i = Some ch \<Longrightarrow> ch \<notin> set (closed w)"
    and "\<And>i ch. runners w i = Some ch \<Longrightarrow> \<exists>check. (ch, check) \<in> set (loops w) \<and> hc_ID check = i"
    and "\<And>l. \<not> stopped w \<Longrightarrow> l \<in> set (loops w) \<Longrightarrow> fst l \<notin> set (closed w) \<Longrightarrow> runners w (hc_ID (snd l)) = Some (fst l)"
    and "\<And>i ch. (i, ch) \<in> set (ranged w) \<Longrightarrow> ch < nextChan w"
    and "\<And>i ch. (i, ch) \<in> set (ranged w) \<Longrightarrow> \<not> stopped w \<Longrightarrow> ch \<notin> set (closed w) \<Longrightarrow> runners w i = Some ch"
    and "\<And>i j ch. (i, ch) \<in> set (ranged w) \<Longrightarrow> runners w j = Some ch \<Longrightarrow> j = i"
  shows "worker_inv w"
  unfolding worker_inv_def
proof (intro conjI)
  show "stopped w \<or> (\<forall>l \<in> set (loops w). fst l \<notin> set (closed w) \<longrightarrow> runners w (hc_ID (snd l)) = Some (fst l))"
    using assms(6) by blast
qed (use assms(1-5,7-9) in blast)+

lemma worker_invD:
  assumes "worker_inv w"
  shows "distinct (map fst (loops w))" and "\<And>l. l \<in> set (loops w) \<Longrightarrow> fst l < nextChan w"
    and "\<And>ch. ch \<in> set (closed w) \<Longrightarrow> ch < nextChan w"
    and "\<And>i ch. runners w i = Some ch \<Longrightarrow> ch \<notin> set (closed w)"
    and "\<And>i ch. runners w i = Some ch \<Longrightarrow> \<exists>check. (ch, check) \<in> set (loops w) \<and> hc_ID check = i"
    and "\<And>l. \<not> stopped w \<Longrightarrow> l \<in> set (loops w) \<Longrightarrow> fst l \<notin> set (closed w) \<Longrightarrow> runners w (hc_ID (snd l)) = Some (fst l)"
    and "\<And>i ch. (i, ch) \<in> set (ranged w) \<Longrightarrow> ch < nextChan w"
    and "\<And>i ch. (i, ch) \<in> set (ranged w) \<Longrightarrow> \<not> stopped w \<Longrightarrow> ch \<notin> set (closed w) \<Longrightarrow> runners w i = Some ch"
    and "\<And>i j ch. (i, ch) \<in> set (ranged w) \<Longrightarrow> runners w j = Some ch \<Longrightarrow> j = i"
  using assms unfolding worker_inv_def by blast+

lemma worker_inv_new: "worker_inv NewHealthCheckWorker"
  by (rule worker_invI) (simp_all add: NewHealthCheckWorker_def)

lemma worker_inv_nextChan: "worker_inv w \<Longrightarrow> worker_inv (w\<lparr>nextChan := Suc (nextChan w)\<rparr>)"
  by (rule worker_invI) (auto dest: worker_invD less_SucI)

lemma worker_inv_start:
  assumes inv: "worker_inv w"
  shows "worker_inv (startCheck check w)"
proof (cases "runners w (hc_ID check)")
  case (Some ch)
  with worker_inv_nextChan [OF inv] show ?thesis by (simp add: startCheck_def Let_def)
next
  case None
  note D = worker_invD [OF inv]
  have fresh: "nextChan w \<notin> set (closed w)" "nextChan w \<notin> fst ` set (loops w)" using D(2,3) by fastforce+
  show ?thesis unfolding startCheck_def Let_def using None
  proof (simp, intro worker_invI, goal_cases)
    case 1
    with fresh D(1) show ?case by simp
  next
    case (2 l)
    with D(2) [of l] show ?case by auto
  next
    case (3 ch)
    with D(3) [of ch] show ?case by auto
  next
    case (4 i ch)
    with fresh D(4) show ?case by (auto split: if_splits)
  next
    case (5 i ch)
    with D(5) show ?case by (auto split: if_splits)
  next
    case (6 l)
    show ?case
    proof (cases "l = (nextChan w, check)")
      case True
      then show ?thesis by simp
    next
      case False
      with 6 D(6) [of l] None show ?thesis by auto
    qed
  next
    case (7 i ch)
    with D(7) [of i ch] show ?case by simp
  next
    case (8 i ch)
    with D(8) [of i ch] None show ?case by auto
  next
    case (9 i j ch)
    with D(7) [of i ch] D(9) [of i ch j] show ?case by (auto split: if_splits)
  qed
qed

lemma worker_inv_starts: "worker_inv w \<Longrightarrow> worker_inv (startChecks checks w)"
  by (induction checks w rule: startChecks.induct) (auto simp: worker_inv_start)

lemma runner_injective:
  assumes "worker_inv w" and "runners w i = Some ch" and "runners w j = Some ch"
  shows "j = i"
proof -
  note D = worker_invD [OF assms(1)]
  from D(5) [OF assms(2)] D(5) [OF assms(3)] obtain c c'
    where "(ch, c) \<in> set (loops w)" "hc_ID c = i" "(ch, c') \<in> set (loops w)" "hc_ID c' = j" by blast
  with D(1) show ?thesis by (metis eq_key_imp_eq_value)
qed

text \<open>
  A registered channel leaves the map and a channel of the same check is closed: the two are one
  for \<^verbatim>\<open>RemoveCheck\<close>, and may differ for the callback of \<^verbatim>\<open>Restart\<close> once the worker is stopped.
\<close>

lemma worker_inv_unregister:
  assumes inv: "worker_inv w" and run: "runners w i = Some c" and sub: "set rs \<subseteq> set (ranged w)"
    and ch: "ch \<notin> set (closed w)" "ch < nextChan w" "stopped w \<or> ch = c" "\<And>j. runners w j = Some ch \<Longrightarrow> j = i"
  shows "worker_inv (w\<lparr>ranged := rs, runners := (runners w)(i := None), closed := ch # closed w\<rparr>)"
proof -
  note D = worker_invD [OF inv]
  show ?thesis
  proof (intro worker_invI, goal_cases)
    case 1
    show ?case using D(1) by simp
  next
    case (2 l)
    then show ?case using D(2) [of l] by simp
  next
    case (3 x)
    then show ?case using D(3) [of x] ch(2) by auto
  next
    case (4 j x)
    then have j: "j \<noteq> i" "runners w j = Some x" by (auto split: if_splits)
    with ch(4) have "x \<noteq> ch" by blast
    with D(4) [OF j(2)] show ?case by simp
  next
    case (5 j x)
    then show ?case using D(5) [of j x] by (simp split: if_splits)
  next
    case (6 l)
    then show ?case using D(6) [of l] run ch(3) by auto
  next
    case (7 j x)
    then show ?case using D(7) [of j x] sub by auto
  next
    case (8 j x)
    then show ?case using D(8) [of j x] sub run ch(3) by auto
  next
    case (9 j k x)
    then show ?case using D(9) [of j x k] sub by (auto split: if_splits)
  qed
qed

lemma worker_inv_remove:
  assumes inv: "worker_inv w"
  shows "worker_inv (RemoveCheck i w) \<and> crashed (RemoveCheck i w) = crashed w"
proof (cases "runners w i")
  case None
  with inv show ?thesis by (simp add: RemoveCheck_def)
next
  case (Some ch)
  note D = worker_invD [OF inv]
  from D(5) [OF Some] D(2) have "ch < nextChan w" by fastforce
  from worker_inv_unregister [OF inv Some order_refl D(4) [OF Some] this _ runner_injective [OF inv Some]]
  have "worker_inv (w\<lparr>ranged := ranged w, runners := (runners w)(i := None), closed := ch # closed w\<rparr>)" by blast
  then show ?thesis using D(4) [OF Some] Some by (simp add: RemoveCheck_def closeChan_def)
qed

text \<open>Steps that keep the loops and the runners: a new reading is of a registered channel.\<close>

lemma worker_inv_frame:
  assumes inv: "worker_inv w"
    and same: "loops v = loops w" "nextChan v = nextChan w" "closed v = closed w" "runners v = runners w"
      "stopped w \<Longrightarrow> stopped v"
    and new: "\<And>i ch. (i, ch) \<in> set (ranged v) \<Longrightarrow> (i, ch) \<in> set (ranged w) \<or> runners w i = Some ch"
  shows "worker_inv v"
proof -
  note D = worker_invD [OF inv]
  have lt: "ch < nextChan w" if "runners w i = Some ch" for i ch using D(5) [OF that] D(2) by fastforce
  show ?thesis
  proof (intro worker_invI, unfold same(1-4), goal_cases)
    case 1
    show ?case by (rule D(1))
  next
    case (2 l)
    then show ?case by (rule D(2))
  next
    case (3 x)
    then show ?case by (rule D(3))
  next
    case (4 j x)
    then show ?case by (rule D(4))
  next
    case (5 j x)
    then show ?case by (rule D(5))
  next
    case (6 l)
    with same(5) show ?case by (intro D(6)) blast+
  next
    case (7 j x)
    with new [of j x] D(7) [of j x] lt [of j x] show ?case by blast
  next
    case (8 j x)
    with new [of j x] same(5) D(8) [of j x] show ?case by blast
  next
    case (9 j k x)
    with new [of j x] D(9) [of j x k] runner_injective [OF inv, of j x k] show ?case by blast
  qed
qed

lemma worker_inv_range: "worker_inv w \<Longrightarrow> worker_inv (restartRange i w)"
  by (erule worker_inv_frame) (auto simp: restartRange_def split: option.splits)

lemma worker_inv_stop: "worker_inv w \<Longrightarrow> worker_inv (Stop w)"
  by (erule worker_inv_frame) (auto simp: Stop_def)

lemma worker_inv_visit:
  assumes inv: "worker_inv w" and kv: "(i, ch) \<in> set (ranged w)" and up: "\<not> crashed (restartVisit (i, ch) w)"
  shows "worker_inv (restartVisit (i, ch) w)"
proof -
  note D = worker_invD [OF inv]
  have sub: "set (remove1 (i, ch) (ranged w)) \<subseteq> set (ranged w)" by (rule set_remove1_subset)
  show ?thesis
  proof (cases "runners w i")
    case None
    show ?thesis
      by (rule worker_inv_frame [OF inv]) (use None sub in \<open>auto simp: restartVisit_def\<close>)
  next
    case (Some c)
    with up have fresh: "ch \<notin> set (closed w)" by (auto simp: restartVisit_def closeChan_def)
    with D(8) [OF kv] Some have "stopped w \<or> ch = c" by auto
    with fresh worker_inv_unregister [OF inv Some sub fresh D(7) [OF kv] _ D(9) [OF kv]] Some
    show ?thesis by (simp add: restartVisit_def closeChan_def)
  qed
qed

lemma worker_inv_return:
  assumes inv: "worker_inv w" and l: "l \<in> set (loops w)" and ended: "fst l \<in> set (closed w) \<or> stopped w"
  shows "worker_inv (loopReturn l w)"
proof -
  note D = worker_invD [OF inv]
  have d: "distinct (loops w)" using D(1) by (simp add: distinct_map)
  have rest: "set (remove1 l (loops w)) = set (loops w) - {l}" using d by simp
  have fst_inj: "k = l" if "k \<in> set (loops w)" "fst k = fst l" for k
    using that l D(1) by (metis eq_key_imp_eq_value prod.collapse)
  show ?thesis unfolding loopReturn_def
  proof (intro worker_invI, goal_cases)
    case 1
    from D(1) d show ?case by (simp add: distinct_map rest inj_on_diff)
  next
    case (5 i ch)
    then have run: "runners w i = Some ch" and ne: "i \<noteq> hc_ID (snd l) \<or> ch \<noteq> fst l" by (auto split: if_splits)
    from D(5) [OF run] obtain check where c: "(ch, check) \<in> set (loops w)" "hc_ID check = i" by blast
    with ne have "(ch, check) \<noteq> l" by auto
    with c rest show ?case by auto
  next
    case (6 k)
    with rest have k: "k \<in> set (loops w)" "k \<noteq> l" by auto
    with 6 D(6) [of k] fst_inj [of k] show ?case by (auto split: if_splits)
  next
    case (2 k)
    with rest D(2) [of k] show ?case by simp
  next
    case (3 ch)
    with D(3) [of ch] show ?case by simp
  next
    case (4 i ch)
    with D(4) [of i ch] show ?case by (simp split: if_splits)
  next
    case (7 i ch)
    with D(7) [of i ch] show ?case by simp
  next
    case (8 i ch)
    with D(8) [of i ch] ended show ?case by auto
  next
    case (9 i j ch)
    with D(9) [of i ch j] show ?case by (simp split: if_splits)
  qed
qed

lemma worker_inv_add:
  assumes "worker_inv w"
  shows "worker_inv (AddCheck check w) \<and> crashed (AddCheck check w) = crashed w"
  using worker_inv_start [OF assms] assms by (simp add: AddCheck_def startCheck_def Let_def split: option.split)

lemma crashed_starts [simp]: "crashed (startChecks checks w) = crashed w"
  by (induction checks w rule: startChecks.induct) (auto simp: startCheck_def Let_def split: option.split)

text \<open>
  A step keeps the invariant, or it is the callback of a \<^verbatim>\<open>Restart\<close> that was overtaken: between the
  reading of a channel and the callback the check was started again.
\<close>

lemma worker_step_cases:
  assumes "worker_step w w'" and inv: "worker_inv w" and up: "\<not> crashed w"
  shows "worker_inv w' \<and> \<not> crashed w'
       \<or> (\<exists>i ch c. (i, ch) \<in> set (ranged w) \<and> runners w i = Some c \<and> c \<noteq> ch \<and> w' = restartVisit (i, ch) w)"
  using assms(1)
proof cases
  case (w_start check)
  with up worker_inv_start [OF inv, of check] show ?thesis by (simp add: startCheck_def Let_def split: option.split)
next
  case (w_visit kv)
  obtain i ch where kv: "kv = (i, ch)" by fastforce
  note D = worker_invD [OF inv]
  consider "runners w i = None" | "runners w i = Some ch" | c where "runners w i = Some c" "c \<noteq> ch" by fastforce
  then show ?thesis
  proof cases
    case 3
    with w_visit kv show ?thesis by blast
  qed (use w_visit kv up worker_inv_visit [OF inv, of i ch] D(4) in \<open>auto simp: restartVisit_def closeChan_def\<close>)
next
  case (w_range i)
  with up worker_inv_range [OF inv, of i] show ?thesis by (simp add: restartRange_def split: option.split)
qed (use inv up worker_inv_add worker_inv_remove worker_inv_stop [OF inv] worker_inv_starts worker_inv_return [OF inv]
  in \<open>auto simp: UpdateCheck_def Stop_def loopReturn_def\<close>)

lemma worker_reach_inv: "worker_reach w \<Longrightarrow> crashed w \<or> worker_inv w"
proof (induction rule: worker_reach.induct)
  case (w_step w w')
  then have inv: "worker_inv w" by simp
  from worker_step_cases [OF w_step.hyps(3) inv w_step.hyps(2)] worker_inv_visit [OF inv] show ?case by blast
qed (simp add: worker_inv_new)

text \<open>
  C30: One running loop per check, up to a race of \<^verbatim>\<open>Restart\<close>. Take any state the worker reaches by starting,
  adding, removing, updating and stopping checks while loops return in any order and any number of
  \<^verbatim>\<open>Restart\<close>s read the runners and call their callbacks with other callers in between, where each operation, each reading
  and each callback is one step (the removal of a runner and the closing of its channel are not taken apart). Unless the process
  has panicked, every registered runner has an open stop channel and a loop of its check; and until \<^verbatim>\<open>Stop\<close>
  every loop whose stop channel is open is the registered runner of its check, so that two such loops run
  different checks. From a state that has not panicked, one step panics only in one way: it is the callback of a \<^verbatim>\<open>Restart\<close> that
  finds another channel registered than the one it was handed, and it then closes the old channel again.
\<close>

theorem one_loop_per_check:
  assumes "worker_reach w" and "\<not> crashed w"
  shows "(\<forall>i ch. runners w i = Some ch \<longrightarrow> ch \<notin> set (closed w) \<and> (\<exists>check. (ch, check) \<in> set (loops w) \<and> hc_ID check = i))
       \<and> (stopped w \<or>
          (\<forall>l \<in> set (loops w). fst l \<notin> set (closed w) \<longrightarrow> runners w (hc_ID (snd l)) = Some (fst l))
          \<and> (\<forall>l \<in> set (loops w). \<forall>l' \<in> set (loops w). fst l \<notin> set (closed w) \<longrightarrow> fst l' \<notin> set (closed w) \<longrightarrow>
               hc_ID (snd l) = hc_ID (snd l') \<longrightarrow> l = l'))
       \<and> (\<forall>w'. worker_step w w' \<longrightarrow> crashed w' \<longrightarrow>
            (\<exists>i ch c. (i, ch) \<in> set (ranged w) \<and> runners w i = Some c \<and> c \<noteq> ch \<and> ch \<in> set (closed w)
                   \<and> w' = restartVisit (i, ch) w))"
proof -
  from worker_reach_inv [OF assms(1)] assms(2) have inv: "worker_inv w" by simp
  note D = worker_invD [OF inv]
  have "l = l'" if "\<not> stopped w" "l \<in> set (loops w)" "l' \<in> set (loops w)" "fst l \<notin> set (closed w)" "fst l' \<notin> set (closed w)"
    "hc_ID (snd l) = hc_ID (snd l')" for l l'
  proof -
    from D(6) [of l] D(6) [of l'] that have "fst l = fst l'" by simp
    with that D(1) show ?thesis by (metis eq_key_imp_eq_value prod.collapse)
  qed
  moreover have "\<exists>i ch c. (i, ch) \<in> set (ranged w) \<and> runners w i = Some c \<and> c \<noteq> ch \<and> ch \<in> set (closed w)
      \<and> w' = restartVisit (i, ch) w" if w': "worker_step w w'" "crashed w'" for w'
  proof -
    from worker_step_cases [OF w'(1) inv assms(2)] w'(2) obtain i ch c
      where o: "(i, ch) \<in> set (ranged w)" "runners w i = Some c" "c \<noteq> ch" "w' = restartVisit (i, ch) w" by auto
    with w'(2) assms(2) have "ch \<in> set (closed w)" by (auto simp: restartVisit_def closeChan_def Let_def split: if_splits)
    with o show ?thesis by blast
  qed
  ultimately show ?thesis using D(4,5,6) by blast
qed

theorem one_loop_per_check_witness:
  "runners (UpdateCheck sample_check (AddCheck sample_check NewHealthCheckWorker)) 1 = Some 1
   \<and> length (loops (UpdateCheck sample_check (AddCheck sample_check NewHealthCheckWorker))) = 2
   \<and> 1 \<notin> set (closed (UpdateCheck sample_check (AddCheck sample_check NewHealthCheckWorker)))"
proof -
  let ?w = "UpdateCheck sample_check (AddCheck sample_check NewHealthCheckWorker)"
  note ev = UpdateCheck_def AddCheck_def RemoveCheck_def startCheck_def NewHealthCheckWorker_def closeChan_def
    sample_check_def Let_def
  have "worker_reach ?w" by (intro w_step [OF w_step [OF w_init _ w_add] _ w_update]) (simp_all add: ev)
  moreover have run: "runners ?w 1 = Some 1" "length (loops ?w) = 2" "\<not> crashed ?w" by (simp_all add: ev)
  ultimately show ?thesis using one_loop_per_check [of ?w] by blast
qed

text \<open>
  The race exists: an \<^verbatim>\<open>UpdateCheck\<close> between the reading and the callback makes \<^verbatim>\<open>Restart\<close> close the old
  channel a second time. Without one, the first phase of \<^verbatim>\<open>Restart\<close> does not panic.
\<close>

lemma restart_race_panics:
  "\<exists>w. worker_reach w \<and> crashed w"
proof -
  note ev = UpdateCheck_def AddCheck_def RemoveCheck_def startCheck_def NewHealthCheckWorker_def closeChan_def
    restartRange_def restartVisit_def sample_check_def Let_def
  let ?w = "UpdateCheck sample_check (restartRange 1 (AddCheck sample_check NewHealthCheckWorker))"
  have "worker_reach ?w"
    by (intro w_step [OF w_step [OF w_step [OF w_init _ w_add] _ w_range] _ w_update]) (simp_all add: ev)
  moreover have "(1, 0) \<in> set (ranged ?w)" "\<not> crashed ?w" "crashed (restartVisit (1, 0) ?w)" by (simp_all add: ev)
  ultimately show ?thesis by (blast intro: w_step w_visit)
qed

lemma restart_alone_safe: "worker_inv w \<Longrightarrow> worker_inv (restartClose ids w) \<and> crashed (restartClose ids w) = crashed w"
  unfolding restartClose_removes by (induction ids arbitrary: w) (auto simp: worker_inv_remove)

lemma roundMembers_eq:
  assumes "gslb_coherent d pc c" and "0 < now"
  obtains c' where "roundMembers now ps d c
    = (concat (map (\<lambda>p. filter mb_Enabled (membersByPool (pl_ID p) (tables d))) ps), d, c')" and "gslb_coherent d pc c'"
  using assms
proof (induction ps arbitrary: c thesis)
  case Nil
  then show ?case by simp
next
  case (Cons p ps)
  obtain c1 where 1: "GetMembersByPool now (pl_ID p) d c = (Inr (membersByPool (pl_ID p) (tables d)), d, c1)"
    "gslb_coherent d pc c1" using members_lookup [OF Cons.prems(2,3)] by blast
  obtain c2 where "roundMembers now ps d c1
    = (concat (map (\<lambda>p. filter mb_Enabled (membersByPool (pl_ID p) (tables d))) ps), d, c2)" "gslb_coherent d pc c2"
    using Cons.IH [OF _ 1(2) Cons.prems(3)] by blast
  with 1 Cons.prems(1) show ?case by simp
qed

lemma round_ids_distinct:
  assumes "gslb_ok t" and "distinct (map pl_ID ps)"
  shows "distinct (map mb_ID (concat (map (\<lambda>p. filter mb_Enabled (membersByPool (pl_ID p) t)) ps)))"
  using assms(2)
proof (induction ps)
  case (Cons p ps)
  have inj: "inj_on mb_ID (set (t_members t))" and d: "distinct (t_members t)"
    using assms(1) by (simp_all add: gslb_ok_def keyed_def distinct_map)
  have sub: "set (membersByPool i t) = {m \<in> set (t_members t). mb_PoolID m = i}" for i
    by (auto simp: membersByPool_def)
  have "distinct (membersByPool i t)" for i using d by (simp add: membersByPool_def)
  then have "distinct (map mb_ID (filter mb_Enabled (membersByPool (pl_ID p) t)))"
    using inj sub by (auto simp: distinct_map intro: inj_on_subset)
  moreover have "mb_ID x \<noteq> mb_ID y" if "x \<in> set (membersByPool (pl_ID p) t)" "q \<in> set ps" "y \<in> set (membersByPool (pl_ID q) t)" for x y q
  proof
    assume "mb_ID x = mb_ID y"
    with that sub inj have "x = y" by (auto dest: inj_onD)
    with that sub Cons.prems show False by auto
  qed
  ultimately have "mb_ID ` set (filter mb_Enabled (membersByPool (pl_ID p) t))
      \<inter> mb_ID ` set (concat (map (\<lambda>p. filter mb_Enabled (membersByPool (pl_ID p) t)) ps)) = {}"
    by fastforce
  with \<open>distinct (map mb_ID (filter mb_Enabled (membersByPool (pl_ID p) t)))\<close> Cons
  show ?case by (simp only: list.map concat.simps map_append distinct_append set_map) simp
qed simp

text \<open>
  C31: A health-check round does not depend on the order of its goroutines. The members of a round are
  probed concurrently; on a well-formed, working database, whatever order their results arrive
  in, the health map after the round is the same.
\<close>

theorem round_order_irrelevant:
  assumes "gslb_coherent d pc c" and "0 < now" and "gslb_ok (tables d)" and "\<forall>ms. mset (order ms) = mset ms"
  shows "runPolicyCheck now net order check running d c hs = runPolicyCheck now net (\<lambda>ms. ms) check running d c hs"
proof -
  obtain c1 where 1: "GetPoolsByPolicy now (hc_PolicyID check) d c = (Inr (poolsByPolicy (hc_PolicyID check) (tables d)), d, c1)"
    "gslb_coherent d pc c1" using pools_lookup [OF assms(1,2)] by blast
  let ?ps = "poolsByPolicy (hc_PolicyID check) (tables d)"
  let ?ms = "concat (map (\<lambda>p. filter mb_Enabled (membersByPool (pl_ID p) (tables d))) ?ps)"
  obtain c2 where 2: "roundMembers now ?ps d c1 = (?ms, d, c2)" using roundMembers_eq [OF 1(2) assms(2)] by blast
  have "distinct (map pl_ID ?ps)"
    using assms(3) by (auto simp: gslb_ok_def keyed_def poolsByPolicy_def poolsOf_def distinct_map intro: inj_on_subset)
  from fold_runCheck_perm [of ?ms "order ?ms" now net check] round_ids_distinct [OF assms(3) this] assms(4)
  have "fold (runCheck now net check) (order ?ms) hs = fold (runCheck now net check) ?ms hs" by simp
  then show ?thesis by (simp add: runPolicyCheck_def 1 2)
qed

theorem round_order_irrelevant_witness:
  "runPolicyCheck 5 dead_network rev sample_check {} sample_gslb NewPoolStorage Map.empty
     = runPolicyCheck 5 dead_network (\<lambda>ms. ms) sample_check {} sample_gslb NewPoolStorage Map.empty"
proof -
  have "gslb_ok (tables sample_gslb)"
    by (simp add: gslb_ok_def sample_gslb_def keyed_def refers_def sample_member_def sample_policy_def Migrate_def)
  from round_order_irrelevant [OF sample_gslb_coherent _ this, of 5 rev] show ?thesis by simp
qed

end
