(* ===== verification/SyncExport.thy ===== *)
theory SyncExport
  imports HandlerOps HealthWorker
begin

section \<open>Export and the sync API of the primary (storage/sync\_version.go, web/api\_sync.go)\<close>

text \<open>
  What a primary hands to its secondaries: one query per table, in key order. An exported row is
  a \<^verbatim>\<open>map[string]interface{}\<close> with the columns the query selects, here the row of the model with a
  neutral value in a column that is not selected: \<^verbatim>\<open>last_query_at\<close> of a record and
  \<^verbatim>\<open>expected_codes\<close> of a health check are not exported; of a stored rule only the text and the
  source are.

  A request runs its queries one after another and other goroutines may commit in between:
  \<open>primary\<close> is the database as one request sees it, with the changes \<open>pr_others\<close> that are
  committed before each of its queries. \<open>digest\<close> stands for SHA-256 over the JSON text of the
  export, in hexadecimal.
\<close>

record export =
  x_zones :: "Zone list"
  x_records :: "Record list"
  x_upstreams :: "UpstreamServer list"
  x_policies :: "GSLBPolicy list"
  x_pools :: "GSLBPool list"
  x_members :: "GSLBMember list"
  x_checks :: "HealthCheck list"
  x_sources :: "AdblockSource list"
  x_domains :: "(string \<times> rowid) list"

definition exportRecord :: "Record \<Rightarrow> Record" where
  "exportRecord r = r\<lparr>r_LastQueryAt := None\<rparr>"

definition exportCheck :: "HealthCheck \<Rightarrow> HealthCheck" where
  "exportCheck h = h\<lparr>hc_ExpectedCodes := []\<rparr>"

definition GetAllZones :: "db \<Rightarrow> (db_error + Zone list) \<times> db" where
  "GetAllZones = reader (\<lambda>t. sort_key z_ID (t_zones t))"

definition GetAllRecords :: "db \<Rightarrow> (db_error + Record list) \<times> db" where
  "GetAllRecords = reader (\<lambda>t. sort_key r_ID (map exportRecord (t_records t)))"

definition GetAllUpstreams :: "db \<Rightarrow> (db_error + UpstreamServer list) \<times> db" where
  "GetAllUpstreams = reader (\<lambda>t. sort_key u_ID (t_upstreams t))"

definition GetAllGSLBPolicies :: "db \<Rightarrow> (db_error + GSLBPolicy list) \<times> db" where
  "GetAllGSLBPolicies = reader (\<lambda>t. sort_key p_ID (t_policies t))"

definition GetAllGSLBPools :: "db \<Rightarrow> (db_error + GSLBPool list) \<times> db" where
  "GetAllGSLBPools = reader (\<lambda>t. sort_key pl_ID (t_pools t))"

definition GetAllGSLBMembers :: "db \<Rightarrow> (db_error + GSLBMember list) \<times> db" where
  "GetAllGSLBMembers = reader (\<lambda>t. sort_key mb_ID (t_members t))"

definition GetAllHealthChecks :: "db \<Rightarrow> (db_error + HealthCheck list) \<times> db" where
  "GetAllHealthChecks = reader (\<lambda>t. sort_key hc_ID (map exportCheck (t_checks t)))"

definition GetAllAdblockSources :: "db \<Rightarrow> (db_error + AdblockSource list) \<times> db" where
  "GetAllAdblockSources = reader (\<lambda>t. sort_key as_ID (t_sources t))"

definition GetAllAdblockDomains :: "db \<Rightarrow> (db_error + (string \<times> rowid) list) \<times> db" where
  "GetAllAdblockDomains =
     reader (\<lambda>t. sort_key fst (map (\<lambda>r. (ad_Domain r, ad_SourceID r)) (t_domains t)))"

definition GetSyncState :: "db \<Rightarrow> (db_error + int \<times> string \<times> instant option) \<times> db" where
  "GetSyncState =
     reader (\<lambda>t. (last_sync_version t, case data_checksum t of None \<Rightarrow> '''' | Some s \<Rightarrow> s, last_sync_at t))"

subsection \<open>A request of several queries\<close>

record primary =
  pr_db :: db
  pr_others :: "(tables \<Rightarrow> tables) list"

type_synonym 'a request = "primary \<Rightarrow> (db_error + 'a) \<times> primary"

definition interleave :: "primary \<Rightarrow> primary" where
  "interleave p =
     (case pr_others p of
        [] \<Rightarrow> p
      | f # fs \<Rightarrow> \<lparr>pr_db = (pr_db p)\<lparr>tables := f (tables (pr_db p))\<rparr>, pr_others = fs\<rparr>)"

definition observe :: "(db \<Rightarrow> (db_error + 'a) \<times> db) \<Rightarrow> 'a request" where
  "observe query p =
     (let p' = interleave p in case query (pr_db p') of (r, d) \<Rightarrow> (r, p'\<lparr>pr_db := d\<rparr>))"

definition rq_bind :: "'a request \<Rightarrow> ('a \<Rightarrow> 'b request) \<Rightarrow> 'b request" where
  "rq_bind m k p = (case m p of (Inl e, p') \<Rightarrow> (Inl e, p') | (Inr a, p') \<Rightarrow> k a p')"

definition rq_return :: "'a \<Rightarrow> 'a request" where
  "rq_return a p = (Inr a, p)"

text \<open>The nine queries in the order of \<^verbatim>\<open>CalculateChecksum\<close>, which is also the order of \<^verbatim>\<open>GetFull\<close>.\<close>

definition exportAll :: "export request" where
  "exportAll =
     rq_bind (observe GetAllZones) (\<lambda>zs.
     rq_bind (observe GetAllRecords) (\<lambda>rs.
     rq_bind (observe GetAllUpstreams) (\<lambda>us.
     rq_bind (observe GetAllGSLBPolicies) (\<lambda>ps.
     rq_bind (observe GetAllGSLBPools) (\<lambda>pls.
     rq_bind (observe GetAllGSLBMembers) (\<lambda>ms.
     rq_bind (observe GetAllHealthChecks) (\<lambda>hs.
     rq_bind (observe GetAllAdblockSources) (\<lambda>ss.
     rq_bind (observe GetAllAdblockDomains) (\<lambda>ds.
       rq_return \<lparr>x_zones = zs, x_records = rs, x_upstreams = us, x_policies = ps, x_pools = pls,
                  x_members = ms, x_checks = hs, x_sources = ss, x_domains = ds\<rparr>)))))))))"

definition CalculateChecksum :: "(export \<Rightarrow> string) \<Rightarrow> string request" where
  "CalculateChecksum digest = rq_bind exportAll (\<lambda>x. rq_return (digest x))"

definition UpdateChecksum :: "(export \<Rightarrow> string) \<Rightarrow> unit request" where
  "UpdateChecksum digest =
     rq_bind (CalculateChecksum digest) (\<lambda>s.
       observe (autocommit (tx_call ExecFailed (\<lambda>t. Inr ((), t\<lparr>data_checksum := Some s\<rparr>)))))"

subsection \<open>The API\<close>

text \<open>What a request is answered with: status 200 and a body, 400, or 500.\<close>

datatype 'a reply = Ok 'a | BadRequest | InternalError

definition replyOf :: "db_error + 'a \<Rightarrow> 'a reply" where
  "replyOf r = (case r of Inl _ \<Rightarrow> InternalError | Inr a \<Rightarrow> Ok a)"

record fullBody =
  b_version :: int
  b_checksum :: string
  b_data :: export

definition GetMetadata :: "db \<Rightarrow> (int \<times> string) reply \<times> db" where
  "GetMetadata d =
     (case GetSyncState d of (r, d') \<Rightarrow> (replyOf (map_sum id (\<lambda>(v, s, _). (v, s)) r), d'))"

definition fullExport :: "(export \<Rightarrow> string) \<Rightarrow> fullBody request" where
  "fullExport digest =
     rq_bind (observe GetVersion) (\<lambda>v.
     rq_bind (CalculateChecksum digest) (\<lambda>s.
     rq_bind exportAll (\<lambda>x. rq_return \<lparr>b_version = v, b_checksum = s, b_data = x\<rparr>)))"

definition GetFull :: "(export \<Rightarrow> string) \<Rightarrow> primary \<Rightarrow> fullBody reply \<times> primary" where
  "GetFull digest p = (case fullExport digest p of (r, p') \<Rightarrow> (replyOf r, p'))"

text \<open>The body is the current version and whether there are changes.\<close>

definition GetChanges :: "string \<Rightarrow> db \<Rightarrow> (int \<times> bool) reply \<times> db" where
  "GetChanges since d =
     (case (if since = [] then Some 0 else Atoi since) of
        None \<Rightarrow> (BadRequest, d)
      | Some v \<Rightarrow>
          (case GetVersion d of
             (Inl _, d') \<Rightarrow> (InternalError, d')
           | (Inr current, d') \<Rightarrow>
               if v \<ge> current then (Ok (current, False), d') else (Ok (current, True), d')))"

subsection \<open>What the queries see\<close>

text \<open>The export of one state of the tables.\<close>

definition exportOf :: "tables \<Rightarrow> export" where
  "exportOf t =
     \<lparr>x_zones = sort_key z_ID (t_zones t), x_records = sort_key r_ID (map exportRecord (t_records t)),
      x_upstreams = sort_key u_ID (t_upstreams t), x_policies = sort_key p_ID (t_policies t),
      x_pools = sort_key pl_ID (t_pools t), x_members = sort_key mb_ID (t_members t),
      x_checks = sort_key hc_ID (map exportCheck (t_checks t)), x_sources = sort_key as_ID (t_sources t),
      x_domains = sort_key fst (map (\<lambda>r. (ad_Domain r, ad_SourceID r)) (t_domains t))\<rparr>"

lemmas export_queries =
  GetAllZones_def GetAllRecords_def GetAllUpstreams_def GetAllGSLBPolicies_def GetAllGSLBPools_def
  GetAllGSLBMembers_def GetAllHealthChecks_def GetAllAdblockSources_def GetAllAdblockDomains_def GetVersion_def

definition calm :: "primary \<Rightarrow> bool" where
  "calm p \<longleftrightarrow> pr_others p = [] \<and> faults (pr_db p) = []"

lemma observe_calm: "calm p \<Longrightarrow> observe (reader q) p = (Inr (q (tables (pr_db p))), p)"
  by (simp add: calm_def observe_def interleave_def Let_def)

lemma rq_bind_Inr:
  "rq_bind m k p = (Inr b, p'') \<longleftrightarrow> (\<exists>a p'. m p = (Inr a, p') \<and> k a p' = (Inr b, p''))"
  by (auto simp: rq_bind_def split: prod.splits sum.splits)

lemma exportAll_calm: "calm p \<Longrightarrow> exportAll p = (Inr (exportOf (tables (pr_db p))), p)"
  by (simp add: exportAll_def rq_bind_def rq_return_def export_queries observe_calm exportOf_def)

lemma GetFull_calm:
  "calm p \<Longrightarrow> GetFull digest p =
     (Ok \<lparr>b_version = last_sync_version (tables (pr_db p)), b_checksum = digest (exportOf (tables (pr_db p))),
          b_data = exportOf (tables (pr_db p))\<rparr>, p)"
  by (simp add: GetFull_def fullExport_def CalculateChecksum_def rq_bind_def rq_return_def exportAll_calm
      GetVersion_def observe_calm replyOf_def)

text \<open>
  An observation lands in a state that the request's start leads to, for any reflexive relation
  that contains the commits in between, and answers with what it finds there.
\<close>

lemma observe_moves:
  assumes "observe (reader q) p = (r, p')"
    and "\<And>f u. f \<in> set (pr_others p) \<Longrightarrow> R u (f u)" and "\<And>u. R u u"
  shows "R (tables (pr_db p)) (tables (pr_db p')) \<and> set (pr_others p') \<subseteq> set (pr_others p)
       \<and> (\<forall>a. r = Inr a \<longrightarrow> a = q (tables (pr_db p')))"
proof -
  obtain g d where g: "reader q (pr_db (interleave p)) = (g, d)" by fastforce
  with assms(1) have p': "p' = (interleave p)\<lparr>pr_db := d\<rparr>" "r = g" by (auto simp: observe_def Let_def)
  from g have t: "tables d = tables (pr_db (interleave p))" by (rule reader_tables)
  have "R (tables (pr_db p)) (tables (pr_db (interleave p))) \<and> set (pr_others (interleave p)) \<subseteq> set (pr_others p)"
    using assms(2,3) by (cases "pr_others p") (auto simp: interleave_def)
  with p' t reader_result [OF g] show ?thesis by auto
qed

end
