(* ===== verification/SyncWorker.thy ===== *)
theory SyncWorker
  imports SyncExport "HOL-Library.Log_Nat"
begin

section \<open>The sync worker of a secondary (sync/worker.go)\<close>

text \<open>
  A full sync fetches the export of the primary, replaces the local tables in one transaction and
  runs the callback that \<^verbatim>\<open>main.go\<close> sets; an incremental sync compares versions first. What the HTTP
  client returns is an argument: a failure at one of its stages or the decoded body.

  The body is decoded into \<^verbatim>\<open>interface{}\<close> values, so every number of a row becomes a \<^verbatim>\<open>float64\<close>
  before it is bound to an integer column (\<open>float64\<close>, \<open>wireZone\<close> and so on); the version is
  decoded as \<^verbatim>\<open>int64\<close> and stays exact. A time is its RFC 3339 text, which the column reads back
  as the same instant.
\<close>

subsection \<open>Numbers that went through JSON\<close>

text \<open>
  Rounding of an integer to the nearest \<^verbatim>\<open>float64\<close>, ties to even: 53 bits of significand. (Close to
  \<open>2 ^ 63\<close> the result leaves the range of an integer column; such keys do not arise.)
\<close>

definition float64 :: "int \<Rightarrow> int" where
  "float64 n =
     (let e = bitlen \<bar>n\<bar> - 53
      in if e \<le> 0 then n
         else let m = 2 ^ nat e; q = \<bar>n\<bar> div m; r = \<bar>n\<bar> mod m;
                  q' = (if m < 2 * r \<or> (2 * r = m \<and> odd q) then q + 1 else q)
              in sgn n * q' * m)"

definition exact64 :: "int \<Rightarrow> bool" where
  "exact64 n \<longleftrightarrow> \<bar>n\<bar> < 2 ^ 53"

lemma float64_exact [simp]: "exact64 n \<Longrightarrow> float64 n = n"
proof -
  assume "exact64 n"
  then have "bitlen \<bar>n\<bar> \<le> 53"
    using bitlen_le_iff_power [of "\<bar>n\<bar>" 53] by (simp add: exact64_def)
  then show ?thesis by (simp add: float64_def)
qed

definition wireZone :: "Zone \<Rightarrow> Zone" where
  "wireZone z = z\<lparr>z_ID := float64 (z_ID z), z_SOASerial := float64 (z_SOASerial z),
     z_SOARefresh := float64 (z_SOARefresh z), z_SOARetry := float64 (z_SOARetry z),
     z_SOAExpire := float64 (z_SOAExpire z), z_SOAMinimum := float64 (z_SOAMinimum z)\<rparr>"

definition wireRecord :: "Record \<Rightarrow> Record" where
  "wireRecord r = r\<lparr>r_ID := float64 (r_ID r), r_ZoneID := float64 (r_ZoneID r), r_TTL := float64 (r_TTL r),
     r_Priority := float64 (r_Priority r), r_LastQueryAt := None\<rparr>"

definition wirePolicy :: "GSLBPolicy \<Rightarrow> GSLBPolicy" where
  "wirePolicy p = p\<lparr>p_ID := float64 (p_ID p), p_TTL := float64 (p_TTL p)\<rparr>"

definition wirePool :: "GSLBPool \<Rightarrow> GSLBPool" where
  "wirePool p = p\<lparr>pl_ID := float64 (pl_ID p), pl_PolicyID := float64 (pl_PolicyID p),
     pl_Priority := float64 (pl_Priority p)\<rparr>"

definition wireMember :: "GSLBMember \<Rightarrow> GSLBMember" where
  "wireMember m = m\<lparr>mb_ID := float64 (mb_ID m), mb_PoolID := float64 (mb_PoolID m),
     mb_Weight := float64 (mb_Weight m)\<rparr>"

text \<open>The column \<^verbatim>\<open>expected_codes\<close> is not written and gets its default \<^verbatim>\<open>'[200]'\<close>.\<close>

definition wireCheck :: "HealthCheck \<Rightarrow> HealthCheck" where
  "wireCheck h = h\<lparr>hc_ID := float64 (hc_ID h), hc_PolicyID := float64 (hc_PolicyID h),
     hc_IntervalSec := float64 (hc_IntervalSec h), hc_TimeoutSec := float64 (hc_TimeoutSec h),
     hc_HealthyThreshold := float64 (hc_HealthyThreshold h),
     hc_UnhealthyThreshold := float64 (hc_UnhealthyThreshold h), hc_ExpectedCodes := [200]\<rparr>"

definition wireSource :: "AdblockSource \<Rightarrow> AdblockSource" where
  "wireSource s = s\<lparr>as_ID := float64 (as_ID s), as_RuleCount := float64 (as_RuleCount s)\<rparr>"

subsection \<open>Insertions under a given key\<close>

text \<open>
  \<^verbatim>\<open>INSERT\<close> with an explicit id: refused when the id or a \<^verbatim>\<open>UNIQUE\<close> column is taken or the row a
  foreign key names is missing; the row takes its place in key order and the \<^verbatim>\<open>AUTOINCREMENT\<close>
  counter is raised to its id if that is larger.
\<close>

definition raise_seq :: "table \<Rightarrow> rowid \<Rightarrow> tables \<Rightarrow> tables" where
  "raise_seq tb i t = t\<lparr>t_seq := (t_seq t)(tb := max (t_seq t tb) i)\<rparr>"

definition syncInsertZone :: "Zone \<Rightarrow> tables \<Rightarrow> db_error + unit \<times> tables" where
  "syncInsertZone z0 t =
     (let z = wireZone z0
      in if list_ex (\<lambda>y. z_ID y = z_ID z \<or> z_Name y = z_Name z) (t_zones t) then Inl ConstraintFailed
         else Inr ((), (raise_seq TZones (z_ID z) t)\<lparr>t_zones := insort_key z_ID z (t_zones t)\<rparr>))"

definition syncInsertRecord :: "Record \<Rightarrow> tables \<Rightarrow> db_error + unit \<times> tables" where
  "syncInsertRecord r0 t =
     (let r = wireRecord r0
      in if list_ex (\<lambda>y. r_ID y = r_ID r) (t_records t) \<or> \<not> list_ex (\<lambda>z. z_ID z = r_ZoneID r) (t_zones t)
         then Inl ConstraintFailed
         else Inr ((), (raise_seq TRecords (r_ID r) t)\<lparr>t_records := insort_key r_ID r (t_records t)\<rparr>))"

definition syncInsertPolicy :: "GSLBPolicy \<Rightarrow> tables \<Rightarrow> db_error + unit \<times> tables" where
  "syncInsertPolicy p0 t =
     (let p = wirePolicy p0
      in if list_ex (\<lambda>y. p_ID y = p_ID p) (t_policies t) then Inl ConstraintFailed
         else Inr ((), (raise_seq TPolicies (p_ID p) t)\<lparr>t_policies := insort_key p_ID p (t_policies t)\<rparr>))"

definition syncInsertPool :: "GSLBPool \<Rightarrow> tables \<Rightarrow> db_error + unit \<times> tables" where
  "syncInsertPool p0 t =
     (let p = wirePool p0
      in if list_ex (\<lambda>y. pl_ID y = pl_ID p) (t_pools t)
            \<or> \<not> list_ex (\<lambda>y. p_ID y = pl_PolicyID p) (t_policies t)
         then Inl ConstraintFailed
         else Inr ((), (raise_seq TPools (pl_ID p) t)\<lparr>t_pools := insort_key pl_ID p (t_pools t)\<rparr>))"

definition syncInsertMember :: "GSLBMember \<Rightarrow> tables \<Rightarrow> db_error + unit \<times> tables" where
  "syncInsertMember m0 t =
     (let m = wireMember m0
      in if list_ex (\<lambda>y. mb_ID y = mb_ID m) (t_members t)
            \<or> \<not> list_ex (\<lambda>y. pl_ID y = mb_PoolID m) (t_pools t)
         then Inl ConstraintFailed
         else Inr ((), (raise_seq TMembers (mb_ID m) t)\<lparr>t_members := insort_key mb_ID m (t_members t)\<rparr>))"

definition syncInsertCheck :: "HealthCheck \<Rightarrow> tables \<Rightarrow> db_error + unit \<times> tables" where
  "syncInsertCheck h0 t =
     (let h = wireCheck h0
      in if list_ex (\<lambda>y. hc_ID y = hc_ID h) (t_checks t)
            \<or> \<not> list_ex (\<lambda>y. p_ID y = hc_PolicyID h) (t_policies t)
         then Inl ConstraintFailed
         else Inr ((), (raise_seq TChecks (hc_ID h) t)\<lparr>t_checks := insort_key hc_ID h (t_checks t)\<rparr>))"

definition syncInsertSource :: "AdblockSource \<Rightarrow> tables \<Rightarrow> db_error + unit \<times> tables" where
  "syncInsertSource s0 t =
     (let s = wireSource s0
      in if list_ex (\<lambda>y. as_ID y = as_ID s \<or> as_URL y = as_URL s) (t_sources t) then Inl ConstraintFailed
         else Inr ((), (raise_seq TSources (as_ID s) t)\<lparr>t_sources := insort_key as_ID s (t_sources t)\<rparr>))"

definition syncInsertDomain :: "instant \<Rightarrow> string \<times> rowid \<Rightarrow> tables \<Rightarrow> db_error + unit \<times> tables" where
  "syncInsertDomain now p = insertDomain now (float64 (snd p)) (fst p)"

fun insertAll :: "('r \<Rightarrow> tables \<Rightarrow> db_error + unit \<times> tables) \<Rightarrow> 'r list \<Rightarrow> unit tx" where
  "insertAll ins [] = tx_return ()"
| "insertAll ins (x # xs) = tx_bind (tx_call ExecFailed (ins x)) (\<lambda>_. insertAll ins xs)"

definition insertAdblockDomainsBatch :: "instant \<Rightarrow> (string \<times> rowid) list \<Rightarrow> unit tx" where
  "insertAdblockDomainsBatch now ds =
     tx_bind (tx_ok ExecFailed) (\<lambda>_. insertAll (syncInsertDomain now) ds)"

definition syncInsertUpstream :: "UpstreamServer \<Rightarrow> tables \<Rightarrow> db_error + unit \<times> tables" where
  "syncInsertUpstream u0 t =
     (let u = u0\<lparr>u_ID := float64 (u_ID u0), u_Priority := float64 (u_Priority u0)\<rparr>
      in if list_ex (\<lambda>y. u_ID y = u_ID u) (t_upstreams t) then Inl ConstraintFailed
         else Inr ((), (raise_seq TUpstreams (u_ID u) t)\<lparr>t_upstreams := insort_key u_ID u (t_upstreams t)\<rparr>))"

subsection \<open>A full sync\<close>

text \<open>A \<^verbatim>\<open>DELETE FROM\<close> of a whole table, with the cascade to the tables that refer to it.\<close>

definition clear :: "(tables \<Rightarrow> tables) \<Rightarrow> unit tx" where
  "clear f = tx_call ExecFailed (\<lambda>t. Inr ((), f t))"

definition deleteTables :: "unit tx" where
  "deleteTables =
     tx_bind (clear (\<lambda>t. t\<lparr>t_records := []\<rparr>)) (\<lambda>_.
     tx_bind (clear (\<lambda>t. t\<lparr>t_zones := [], t_records := []\<rparr>)) (\<lambda>_.
     tx_bind (clear (\<lambda>t. t\<lparr>t_checks := []\<rparr>)) (\<lambda>_.
     tx_bind (clear (\<lambda>t. t\<lparr>t_members := []\<rparr>)) (\<lambda>_.
     tx_bind (clear (\<lambda>t. t\<lparr>t_pools := [], t_members := []\<rparr>)) (\<lambda>_.
     tx_bind (clear (\<lambda>t. t\<lparr>t_policies := [], t_pools := [], t_members := [], t_checks := []\<rparr>)) (\<lambda>_.
     tx_bind (clear (\<lambda>t. t\<lparr>t_domains := []\<rparr>)) (\<lambda>_.
       clear (\<lambda>t. t\<lparr>t_sources := [], t_domains := []\<rparr>))))))))"

definition insertTables :: "instant \<Rightarrow> export \<Rightarrow> unit tx" where
  "insertTables now x =
     tx_bind (insertAll syncInsertZone (x_zones x)) (\<lambda>_.
     tx_bind (insertAll syncInsertRecord (x_records x)) (\<lambda>_.
     tx_bind (insertAll syncInsertPolicy (x_policies x)) (\<lambda>_.
     tx_bind (insertAll syncInsertPool (x_pools x)) (\<lambda>_.
     tx_bind (insertAll syncInsertMember (x_members x)) (\<lambda>_.
     tx_bind (insertAll syncInsertCheck (x_checks x)) (\<lambda>_.
     tx_bind (insertAll syncInsertSource (x_sources x)) (\<lambda>_.
       if x_domains x \<noteq> [] then insertAdblockDomainsBatch now (x_domains x) else tx_return ())))))))"

definition updateSyncState :: "instant \<Rightarrow> fullBody \<Rightarrow> unit tx" where
  "updateSyncState now b =
     tx_call ExecFailed (\<lambda>t. Inr ((), t\<lparr>last_sync_version := b_version b, data_checksum := Some (b_checksum b),
                                        last_sync_at := Some now\<rparr>))"

definition fullSyncTx :: "instant \<Rightarrow> fullBody \<Rightarrow> unit tx" where
  "fullSyncTx now b =
     tx_bind deleteTables (\<lambda>_.
     tx_bind (insertTables now (b_data b)) (\<lambda>_. updateSyncState now b))"

datatype 'a fetched = Unreachable | BadStatus int | Unreadable | Unparsable | Fetched 'a

datatype sync_failure = PrimaryFailed | ReplicaFailed db_error

text \<open>The secondary: its handler, with the database behind it, and its health-check worker.\<close>

record secondary =
  sd_handler :: Handler
  sd_health :: HealthCheckWorker

definition sdb :: "secondary \<Rightarrow> db" where
  "sdb s = hn_db (sd_handler s)"

definition with_sdb :: "db \<Rightarrow> secondary \<Rightarrow> secondary" where
  "with_sdb d s = s\<lparr>sd_handler := (sd_handler s)\<lparr>hn_db := d\<rparr>\<rparr>"

definition fullSync ::
  "(secondary \<Rightarrow> secondary) option \<Rightarrow> instant \<Rightarrow> fullBody fetched \<Rightarrow> secondary
     \<Rightarrow> (sync_failure + unit) \<times> secondary" where
  "fullSync onSyncComplete now resp s =
     (case resp of
        Unreachable \<Rightarrow> (Inl PrimaryFailed, s)
      | BadStatus _ \<Rightarrow> (Inl PrimaryFailed, s)
      | Unreadable \<Rightarrow> (Inl PrimaryFailed, s)
      | Unparsable \<Rightarrow> (Inl PrimaryFailed, s)
      | Fetched b \<Rightarrow>
          (case transaction (fullSyncTx now b) (sdb s) of
             (Inl e, d) \<Rightarrow> (Inl (ReplicaFailed e), with_sdb d s)
           | (Inr _, d) \<Rightarrow>
               (Inr (), (case onSyncComplete of None \<Rightarrow> with_sdb d s | Some callback \<Rightarrow> callback (with_sdb d s)))))"

text \<open>
  A failed read of the local version leaves the variable at zero, so it starts a full sync as a
  zero version does.
\<close>

definition incrementalSync ::
  "(secondary \<Rightarrow> secondary) option \<Rightarrow> instant \<Rightarrow> (int \<times> string) fetched \<Rightarrow> fullBody fetched \<Rightarrow> secondary
     \<Rightarrow> (sync_failure + unit) \<times> secondary" where
  "incrementalSync onSyncComplete now meta full s =
     (case reader last_sync_version (sdb s) of
        (Inl _, d) \<Rightarrow> fullSync onSyncComplete now full (with_sdb d s)
      | (Inr localVersion, d) \<Rightarrow>
          if localVersion = 0 then fullSync onSyncComplete now full (with_sdb d s)
          else (case meta of
                  Unreachable \<Rightarrow> (Inl PrimaryFailed, with_sdb d s)
                | BadStatus _ \<Rightarrow> (Inl PrimaryFailed, with_sdb d s)
                | Unreadable \<Rightarrow> (Inl PrimaryFailed, with_sdb d s)
                | Unparsable \<Rightarrow> (Inl PrimaryFailed, with_sdb d s)
                | Fetched (version, _) \<Rightarrow>
                    if version = localVersion then (Inr (), with_sdb d s)
                    else fullSync onSyncComplete now full (with_sdb d s)))"

text \<open>
  The callback that \<^verbatim>\<open>main.go\<close> sets in secondary mode: health checks restart on the new tables, the
  filter is rebuilt (a failure is only logged) and the handler's caches are cleared.
\<close>

definition rebuildFilter :: "regexp \<Rightarrow> Handler \<Rightarrow> Handler" where
  "rebuildFilter rx h =
     (case hn_filter h of
        None \<Rightarrow> h
      | Some f \<Rightarrow> (case Rebuild rx (hn_db h) f of (_, d, f') \<Rightarrow> h\<lparr>hn_db := d, hn_filter := Some f'\<rparr>))"

definition syncComplete :: "rowid list \<Rightarrow> regexp \<Rightarrow> secondary \<Rightarrow> secondary" where
  "syncComplete ids rx s =
     (case Restart ids (sdb s) (sd_health s) of
        (w, d) \<Rightarrow> \<lparr>sd_handler = ClearCache (rebuildFilter rx ((sd_handler s)\<lparr>hn_db := d\<rparr>)), sd_health = w\<rparr>)"

subsection \<open>The worker's goroutines\<close>

text \<open>
  \<open>Start\<close> launches two goroutines: one waits two seconds and runs the first full sync, one runs
  an incremental sync at every tick; \<open>Stop\<close> ends both. An event carries what the primary answers
  to the requests it causes.
\<close>

record Worker =
  sw_initial :: bool
  sw_ticking :: bool

definition syncStart :: Worker where
  "syncStart = \<lparr>sw_initial = True, sw_ticking = True\<rparr>"

datatype sync_event =
    InitialTimer instant "fullBody fetched"
  | Tick instant "(int \<times> string) fetched" "fullBody fetched"
  | StopSync

definition syncStop :: "Worker \<Rightarrow> Worker" where
  "syncStop w = \<lparr>sw_initial = False, sw_ticking = False\<rparr>"

definition syncEvent ::
  "(secondary \<Rightarrow> secondary) option \<Rightarrow> sync_event \<Rightarrow> Worker \<times> secondary \<Rightarrow> Worker \<times> secondary" where
  "syncEvent cb ev ws =
     (case ev of
        InitialTimer now full \<Rightarrow>
          if sw_initial (fst ws) then ((fst ws)\<lparr>sw_initial := False\<rparr>, snd (fullSync cb now full (snd ws))) else ws
      | Tick now meta full \<Rightarrow>
          if sw_ticking (fst ws) then (fst ws, snd (incrementalSync cb now meta full (snd ws))) else ws
      | StopSync \<Rightarrow> (syncStop (fst ws), snd ws))"

end
