(* ===== verification/SyncPair.thy ===== *)
theory SyncPair
  imports SyncWorker
begin

section \<open>Replication: what a sync leaves on the secondary\<close>

text \<open>
  The import of one table as a locale, interpreted on the seven tables that are inserted under
  given keys; from it the effect of a whole full sync, its round trip, its atomicity, and the
  invariant of a primary and a secondary that run side by side.
\<close>

subsection \<open>Importing one table\<close>

text \<open>The tables without their key counters, which only grow on a secondary.\<close>

definition bare :: "tables \<Rightarrow> tables" where
  "bare t = t\<lparr>t_seq := (\<lambda>_. 0)\<rparr>"

lemma bare_simps [simp]:
  "t_zones (bare t) = t_zones t" "t_records (bare t) = t_records t" "t_policies (bare t) = t_policies t"
  "t_pools (bare t) = t_pools t" "t_members (bare t) = t_members t" "t_checks (bare t) = t_checks t"
  "t_sources (bare t) = t_sources t" "t_domains (bare t) = t_domains t" "t_upstreams (bare t) = t_upstreams t"
  "last_sync_version (bare t) = last_sync_version t"
  by (simp_all add: bare_def)

lemma list_ex_or: "list_ex (\<lambda>y. P y \<or> Q y) xs \<longleftrightarrow> list_ex P xs \<or> list_ex Q xs"
  by (induction xs) auto

text \<open>
  \<open>rows\<close> reads the table and \<open>put\<close> replaces it. The laws: an insertion that succeeds puts the
  decoded row in its place in key order, under a key that was free, and changes nothing else but
  the counters; it succeeds when the key and the unique column \<open>col\<close> are free and the foreign
  key is satisfied (\<open>fits\<close>), which depends on other tables only.
\<close>

locale table_import =
  fixes rows :: "tables \<Rightarrow> 'r list" and put :: "'r list \<Rightarrow> tables \<Rightarrow> tables" and key :: "'r \<Rightarrow> rowid"
    and col :: "'r \<Rightarrow> 'u" and wire :: "'r \<Rightarrow> 'r" and fits :: "'r \<Rightarrow> tables \<Rightarrow> bool"
    and ins :: "'r \<Rightarrow> tables \<Rightarrow> db_error + unit \<times> tables"
  assumes ins_Inr: "ins x t = Inr (u, t') \<Longrightarrow>
      rows t' = insort_key key (wire x) (rows t) \<and> key (wire x) \<notin> key ` set (rows t)
      \<and> bare t' = put (rows t') (bare t)"
    and ins_fits: "key (wire x) \<notin> key ` set (rows t) \<Longrightarrow> col (wire x) \<notin> col ` set (rows t) \<Longrightarrow>
      fits (wire x) (bare t) \<Longrightarrow> \<exists>t'. ins x t = Inr ((), t')"
    and put_rows: "put (rows t) (bare t) = bare t" and put_put: "put xs (put ys t) = put xs t"
    and fits_put: "fits x (put ys t) = fits x t"
begin

lemma insertAll_Inr:
  assumes "insertAll ins xs t fs = (Inr (u, t'), fs')"
    and "sorted (map key (rows t))" and "distinct (map key (rows t))"
  shows "mset (rows t') = mset (rows t) + mset (map wire xs) \<and> sorted (map key (rows t'))
       \<and> distinct (map key (rows t')) \<and> bare t' = put (rows t') (bare t)"
  using assms
proof (induction xs arbitrary: t fs)
  case (Cons x xs)
  from Cons.prems(1) obtain t1 fs1 where 1: "ins x t = Inr ((), t1)"
    and 2: "insertAll ins xs t1 fs1 = (Inr (u, t'), fs')"
    by (auto simp: tx_bind_Inr dest!: tx_call_Inr)
  from ins_Inr [OF 1] Cons.prems(2,3)
  have "sorted (map key (rows t1))" "distinct (map key (rows t1))"
    by (auto simp: sorted_insort_key distinct_map distinct_insort set_insort_key)
  from Cons.IH [OF 2 this] ins_Inr [OF 1] show ?case by (simp add: put_put)
qed (simp add: tx_return_Inr put_rows)

lemma import_Inr:
  assumes "insertAll ins xs t fs = (Inr (u, t'), fs')" and "rows t = []"
  shows "bare t' = put (sort_key key (map wire xs)) (bare t)" and "distinct (map key (map wire xs))"
proof -
  from insertAll_Inr [OF assms(1)] assms(2)
  have m: "mset (rows t') = mset (map wire xs)" "sorted (map key (rows t'))" "distinct (map key (rows t'))"
    and r: "bare t' = put (rows t') (bare t)" by simp_all
  from m(1) have s: "set (map wire xs) = set (rows t')" by (rule mset_eq_setD [symmetric])
  with m(3) have "inj_on key (set (map wire xs))" by (metis distinct_map)
  from sort_key_inj_key_eq [OF m(1) [symmetric] this m(2)] r
  show "bare t' = put (sort_key key (map wire xs)) (bare t)" by simp
  show "distinct (map key (map wire xs))"
    using m(3) mset_eq_imp_distinct_iff [of "map key (map wire xs)" "map key (rows t')"] m(1)
    by (metis mset_map)
qed

lemma import_works:
  assumes "distinct (map key (rows t @ map wire xs))" and "distinct (map col (rows t @ map wire xs))"
    and "\<forall>x \<in> set xs. fits (wire x) (bare t)"
  shows "\<exists>t'. insertAll ins xs t [] = (Inr ((), t'), [])"
  using assms
proof (induction xs arbitrary: t)
  case (Cons x xs)
  then obtain t1 where 1: "ins x t = Inr ((), t1)" using ins_fits [of x t] by auto
  have eq: "mset (rows t1) = mset (rows t) + {# wire x #}" "bare t1 = put (rows t1) (bare t)"
    using ins_Inr [OF 1] by simp_all
  have "distinct (map key (rows t1 @ map wire xs))"
    using Cons.prems(1) mset_eq_imp_distinct_iff [of "map key (rows t1 @ map wire xs)" "map key (rows t @ map wire (x # xs))"]
    by (simp add: eq(1))
  moreover have "distinct (map col (rows t1 @ map wire xs))"
    using Cons.prems(2) mset_eq_imp_distinct_iff [of "map col (rows t1 @ map wire xs)" "map col (rows t @ map wire (x # xs))"]
    by (simp add: eq(1))
  moreover have "\<forall>y \<in> set xs. fits (wire y) (bare t1)" using Cons.prems(3) by (simp add: eq(2) fits_put)
  ultimately obtain t' where "insertAll ins xs t1 [] = (Inr ((), t'), [])" using Cons.IH [of t1] by blast
  with 1 show ?case by (simp add: tx_bind_def tx_call_def)
qed (simp add: tx_return_def)

lemma import_run:
  assumes "rows t = []" and "distinct (map key (map wire xs))" and "distinct (map col (map wire xs))"
    and "\<forall>x \<in> set xs. fits (wire x) (bare t)"
  shows "\<exists>t'. insertAll ins xs t [] = (Inr ((), t'), []) \<and> bare t' = put (sort_key key (map wire xs)) (bare t)"
  using import_works [of t xs] import_Inr(1) [OF _ assms(1)] assms by fastforce

end

lemmas import_simps = Let_def list_ex_key list_ex_or bare_def raise_seq_def

interpretation import_zones: table_import t_zones "\<lambda>xs t. t\<lparr>t_zones := xs\<rparr>" z_ID z_Name wireZone
  "\<lambda>_ _. True" syncInsertZone
  by unfold_locales (auto simp: syncInsertZone_def import_simps split: if_splits)

interpretation import_records: table_import t_records "\<lambda>xs t. t\<lparr>t_records := xs\<rparr>" r_ID r_ID wireRecord
  "\<lambda>r t. r_ZoneID r \<in> z_ID ` set (t_zones t)" syncInsertRecord
  by unfold_locales (auto simp: syncInsertRecord_def import_simps split: if_splits)

interpretation import_policies: table_import t_policies "\<lambda>xs t. t\<lparr>t_policies := xs\<rparr>" p_ID p_ID wirePolicy
  "\<lambda>_ _. True" syncInsertPolicy
  by unfold_locales (auto simp: syncInsertPolicy_def import_simps split: if_splits)

interpretation import_pools: table_import t_pools "\<lambda>xs t. t\<lparr>t_pools := xs\<rparr>" pl_ID pl_ID wirePool
  "\<lambda>p t. pl_PolicyID p \<in> p_ID ` set (t_policies t)" syncInsertPool
  by unfold_locales (auto simp: syncInsertPool_def import_simps split: if_splits)

interpretation import_members: table_import t_members "\<lambda>xs t. t\<lparr>t_members := xs\<rparr>" mb_ID mb_ID wireMember
  "\<lambda>m t. mb_PoolID m \<in> pl_ID ` set (t_pools t)" syncInsertMember
  by unfold_locales (auto simp: syncInsertMember_def import_simps split: if_splits)

interpretation import_checks: table_import t_checks "\<lambda>xs t. t\<lparr>t_checks := xs\<rparr>" hc_ID hc_ID wireCheck
  "\<lambda>h t. hc_PolicyID h \<in> p_ID ` set (t_policies t)" syncInsertCheck
  by unfold_locales (auto simp: syncInsertCheck_def import_simps split: if_splits)

interpretation import_sources: table_import t_sources "\<lambda>xs t. t\<lparr>t_sources := xs\<rparr>" as_ID as_URL wireSource
  "\<lambda>_ _. True" syncInsertSource
  by unfold_locales (auto simp: syncInsertSource_def import_simps split: if_splits)

text \<open>Stored rules get new keys; a rule that is already there is skipped.\<close>

definition rulePair :: "AdblockDomain \<Rightarrow> string \<times> rowid" where
  "rulePair r = (ad_Domain r, ad_SourceID r)"

definition wirePair :: "string \<times> rowid \<Rightarrow> string \<times> rowid" where
  "wirePair p = (fst p, float64 (snd p))"

lemma rules_Inr:
  "insertAll (syncInsertDomain now) ds t fs = (Inr (u, t'), fs') \<Longrightarrow> bare t' = bare t\<lparr>t_domains := t_domains t'\<rparr>"
proof (induction ds arbitrary: t fs)
  case (Cons x ds)
  from Cons.prems obtain t1 fs1 where 1: "syncInsertDomain now x t = Inr ((), t1)"
    and 2: "insertAll (syncInsertDomain now) ds t1 fs1 = (Inr (u, t'), fs')"
    by (auto simp: tx_bind_Inr dest!: tx_call_Inr)
  from 1 have "bare t1 = bare t\<lparr>t_domains := t_domains t1\<rparr>"
    by (auto simp: syncInsertDomain_def insertDomain_def take_id_def bare_def split: if_splits)
  with Cons.IH [OF 2] show ?case by simp
qed (simp add: tx_return_Inr bare_def)

lemma rules_work:
  assumes "distinct (map fst (map rulePair (t_domains t) @ ds))"
    and "\<forall>p \<in> set ds. float64 (snd p) \<in> as_ID ` set (t_sources t)"
  shows "\<exists>t'. insertAll (syncInsertDomain now) ds t [] = (Inr ((), t'), [])
           \<and> map rulePair (t_domains t') = map rulePair (t_domains t) @ map wirePair ds"
  using assms
proof (induction ds arbitrary: t)
  case (Cons p ds)
  then have new: "\<not> list_ex (\<lambda>r. ad_Domain r = fst p) (t_domains t)"
    and src: "list_ex (\<lambda>s. as_ID s = float64 (snd p)) (t_sources t)"
    by (auto simp: list_ex_key rulePair_def image_iff)
  let ?t1 = "(take_id TDomains t)\<lparr>t_domains := t_domains t @ [\<lparr>ad_ID = next_id TDomains t, ad_Domain = fst p,
      ad_SourceID = float64 (snd p), ad_AddedAt = now\<rparr>]\<rparr>"
  have 1: "syncInsertDomain now p t = Inr ((), ?t1)" using new src by (simp add: syncInsertDomain_def insertDomain_def)
  have "\<exists>t'. insertAll (syncInsertDomain now) ds ?t1 [] = (Inr ((), t'), [])
      \<and> map rulePair (t_domains t') = map rulePair (t_domains ?t1) @ map wirePair ds"
    by (rule Cons.IH) (use Cons.prems in \<open>auto simp: rulePair_def take_id_def\<close>)
  moreover have "rulePair \<lparr>ad_ID = i, ad_Domain = fst p, ad_SourceID = float64 (snd p), ad_AddedAt = now\<rparr> = wirePair p" for i
    by (simp add: rulePair_def wirePair_def)
  ultimately show ?case using 1 by (auto simp: tx_bind_def tx_call_def)
qed (simp add: tx_return_def)


subsection \<open>A whole full sync\<close>

text \<open>
  What the tables hold after the import of \<open>x\<close> into \<open>t\<close>, apart from the stored rules: the
  decoded rows in key order; the secondary's own upstream servers, settings and statistics stay.
\<close>

definition imported :: "export \<Rightarrow> tables \<Rightarrow> tables" where
  "imported x t = t
     \<lparr>t_zones := sort_key z_ID (map wireZone (x_zones x)),
      t_records := sort_key r_ID (map wireRecord (x_records x)),
      t_policies := sort_key p_ID (map wirePolicy (x_policies x)),
      t_pools := sort_key pl_ID (map wirePool (x_pools x)),
      t_members := sort_key mb_ID (map wireMember (x_members x)),
      t_checks := sort_key hc_ID (map wireCheck (x_checks x)),
      t_sources := sort_key as_ID (map wireSource (x_sources x)),
      t_domains := []\<rparr>"

lemma clear_Inr: "clear f t fs = (Inr (u, t'), fs') \<Longrightarrow> t' = f t"
  by (auto simp: clear_def dest: tx_call_Inr)

lemma deleteTables_Inr:
  "deleteTables t fs = (Inr (u, t'), fs') \<Longrightarrow>
     t' = t\<lparr>t_zones := [], t_records := [], t_policies := [], t_pools := [], t_members := [], t_checks := [],
            t_sources := [], t_domains := []\<rparr>"
  by (auto simp: deleteTables_def tx_bind_Inr dest!: clear_Inr)

lemma bare_rows:
  assumes "bare t = u"
  shows "t_zones t = t_zones u" "t_records t = t_records u" "t_policies t = t_policies u" "t_pools t = t_pools u"
    "t_members t = t_members u" "t_checks t = t_checks u" "t_sources t = t_sources u" "t_domains t = t_domains u"
  using assms by auto

lemma insertTables_Inr:
  assumes "insertTables now x t fs = (Inr (u, t'), fs')"
    and "t_zones t = []" "t_records t = []" "t_policies t = []" "t_pools t = []" "t_members t = []"
      "t_checks t = []" "t_sources t = []" "t_domains t = []"
  shows "bare t' = (imported x (bare t))\<lparr>t_domains := t_domains t'\<rparr>"
proof -
  from assms(1) obtain t1 f1 t2 f2 t3 f3 t4 f4 t5 f5 t6 f6 t7 f7 where
      1: "insertAll syncInsertZone (x_zones x) t fs = (Inr ((), t1), f1)"
    and 2: "insertAll syncInsertRecord (x_records x) t1 f1 = (Inr ((), t2), f2)"
    and 3: "insertAll syncInsertPolicy (x_policies x) t2 f2 = (Inr ((), t3), f3)"
    and 4: "insertAll syncInsertPool (x_pools x) t3 f3 = (Inr ((), t4), f4)"
    and 5: "insertAll syncInsertMember (x_members x) t4 f4 = (Inr ((), t5), f5)"
    and 6: "insertAll syncInsertCheck (x_checks x) t5 f5 = (Inr ((), t6), f6)"
    and 7: "insertAll syncInsertSource (x_sources x) t6 f6 = (Inr ((), t7), f7)"
    and 8: "(if x_domains x \<noteq> [] then insertAdblockDomainsBatch now (x_domains x) else tx_return ()) t7 f7
              = (Inr (u, t'), fs')"
    by (auto simp: insertTables_def tx_bind_Inr)
  note b1 = import_zones.import_Inr(1) [OF 1 assms(2)]
  have b2: "bare t2 = bare t1\<lparr>t_records := sort_key r_ID (map wireRecord (x_records x))\<rparr>"
    by (rule import_records.import_Inr(1) [OF 2]) (simp add: bare_rows [OF b1] assms)
  have b3: "bare t3 = bare t2\<lparr>t_policies := sort_key p_ID (map wirePolicy (x_policies x))\<rparr>"
    by (rule import_policies.import_Inr(1) [OF 3]) (simp add: bare_rows [OF b2] bare_rows [OF b1] assms)
  have b4: "bare t4 = bare t3\<lparr>t_pools := sort_key pl_ID (map wirePool (x_pools x))\<rparr>"
    by (rule import_pools.import_Inr(1) [OF 4]) (simp add: bare_rows [OF b3] bare_rows [OF b2] bare_rows [OF b1] assms)
  have b5: "bare t5 = bare t4\<lparr>t_members := sort_key mb_ID (map wireMember (x_members x))\<rparr>"
    by (rule import_members.import_Inr(1) [OF 5])
      (simp add: bare_rows [OF b4] bare_rows [OF b3] bare_rows [OF b2] bare_rows [OF b1] assms)
  have b6: "bare t6 = bare t5\<lparr>t_checks := sort_key hc_ID (map wireCheck (x_checks x))\<rparr>"
    by (rule import_checks.import_Inr(1) [OF 6])
      (simp add: bare_rows [OF b5] bare_rows [OF b4] bare_rows [OF b3] bare_rows [OF b2] bare_rows [OF b1] assms)
  have b7: "bare t7 = bare t6\<lparr>t_sources := sort_key as_ID (map wireSource (x_sources x))\<rparr>"
    by (rule import_sources.import_Inr(1) [OF 7])
      (simp add: bare_rows [OF b6] bare_rows [OF b5] bare_rows [OF b4] bare_rows [OF b3] bare_rows [OF b2]
        bare_rows [OF b1] assms)
  have "bare t' = bare t7\<lparr>t_domains := t_domains t'\<rparr>"
    using 8 by (auto simp: insertAdblockDomainsBatch_def tx_bind_Inr tx_return_Inr bare_def split: if_splits
        dest!: tx_ok_Inr dest: rules_Inr [unfolded bare_def])
  then show ?thesis by (simp add: b7 b6 b5 b4 b3 b2 b1 imported_def)
qed

lemma fullSyncTx_Inr:
  assumes "fullSyncTx now b t fs = (Inr (u, t'), fs')"
  shows "bare t' = (imported (b_data b) (bare t))\<lparr>t_domains := t_domains t', last_sync_version := b_version b,
           data_checksum := Some (b_checksum b), last_sync_at := Some now\<rparr>"
proof -
  from assms obtain t1 f1 t2 f2 where 1: "deleteTables t fs = (Inr ((), t1), f1)"
    and 2: "insertTables now (b_data b) t1 f1 = (Inr ((), t2), f2)"
    and 3: "updateSyncState now b t2 f2 = (Inr (u, t'), fs')"
    by (auto simp: fullSyncTx_def tx_bind_Inr)
  from deleteTables_Inr [OF 1] insertTables_Inr [OF 2]
  have "bare t2 = (imported (b_data b) (bare t))\<lparr>t_domains := t_domains t2\<rparr>"
    by (simp add: imported_def bare_def)
  moreover from 3 have "t' = t2\<lparr>last_sync_version := b_version b, data_checksum := Some (b_checksum b),
      last_sync_at := Some now\<rparr>"
    by (auto simp: updateSyncState_def dest!: tx_call_Inr)
  then have "bare t' = bare t2\<lparr>last_sync_version := b_version b, data_checksum := Some (b_checksum b),
      last_sync_at := Some now\<rparr>" and "t_domains t' = t_domains t2" by (simp_all add: bare_def)
  ultimately show ?thesis by simp
qed



subsection \<open>A full sync of a well-formed primary succeeds\<close>

definition adblock_ok :: "tables \<Rightarrow> bool" where
  "adblock_ok t \<longleftrightarrow> distinct (map as_ID (t_sources t)) \<and> distinct (map as_URL (t_sources t))
     \<and> distinct (map ad_Domain (t_domains t)) \<and> refers (map ad_SourceID (t_domains t)) (map as_ID (t_sources t))"

text \<open>Every number of every exported row is below \<open>2 ^ 53\<close> in size.\<close>

definition exact_rows :: "tables \<Rightarrow> bool" where
  "exact_rows t \<longleftrightarrow>
     (\<forall>z \<in> set (t_zones t). list_all exact64 [z_ID z, z_SOASerial z, z_SOARefresh z, z_SOARetry z, z_SOAExpire z, z_SOAMinimum z])
   \<and> (\<forall>r \<in> set (t_records t). list_all exact64 [r_ID r, r_ZoneID r, r_TTL r, r_Priority r])
   \<and> (\<forall>p \<in> set (t_policies t). list_all exact64 [p_ID p, p_TTL p])
   \<and> (\<forall>p \<in> set (t_pools t). list_all exact64 [pl_ID p, pl_PolicyID p, pl_Priority p])
   \<and> (\<forall>m \<in> set (t_members t). list_all exact64 [mb_ID m, mb_PoolID m, mb_Weight m])
   \<and> (\<forall>h \<in> set (t_checks t). list_all exact64 [hc_ID h, hc_PolicyID h, hc_IntervalSec h, hc_TimeoutSec h,
        hc_HealthyThreshold h, hc_UnhealthyThreshold h])
   \<and> (\<forall>s \<in> set (t_sources t). list_all exact64 [as_ID s, as_RuleCount s])
   \<and> (\<forall>r \<in> set (t_domains t). exact64 (ad_SourceID r))"

definition exportable :: "tables \<Rightarrow> bool" where
  "exportable t \<longleftrightarrow> zones_ok t \<and> records_ok t \<and> gslb_ok t \<and> adblock_ok t \<and> exact_rows t"

definition defaultCodes :: "HealthCheck \<Rightarrow> HealthCheck" where
  "defaultCodes h = h\<lparr>hc_ExpectedCodes := [200]\<rparr>"

lemma wire_exact:
  assumes "exact_rows t"
  shows "map wireZone (x_zones (exportOf t)) = x_zones (exportOf t)"
    and "map wireRecord (x_records (exportOf t)) = x_records (exportOf t)"
    and "map wirePolicy (x_policies (exportOf t)) = x_policies (exportOf t)"
    and "map wirePool (x_pools (exportOf t)) = x_pools (exportOf t)"
    and "map wireMember (x_members (exportOf t)) = x_members (exportOf t)"
    and "map wireCheck (x_checks (exportOf t)) = map defaultCodes (x_checks (exportOf t))"
    and "map wireSource (x_sources (exportOf t)) = x_sources (exportOf t)"
    and "map wirePair (x_domains (exportOf t)) = x_domains (exportOf t)"
  using assms
  by (auto simp: exact_rows_def exportOf_def wireZone_def wireRecord_def wirePolicy_def wirePool_def wireMember_def
      wireCheck_def wireSource_def wirePair_def exportRecord_def exportCheck_def defaultCodes_def intro!: map_idI)

lemma distinct_sort_key: "distinct (map g (sort_key f xs)) = distinct (map g xs)"
  by (rule mset_eq_imp_distinct_iff) simp



lemma export_keys:
  assumes "exportable t"
  defines "x \<equiv> exportOf t"
  shows "distinct (map z_ID (x_zones x))" "distinct (map z_Name (x_zones x))" "distinct (map r_ID (x_records x))"
    "distinct (map p_ID (x_policies x))" "distinct (map pl_ID (x_pools x))" "distinct (map mb_ID (x_members x))"
    "distinct (map hc_ID (map defaultCodes (x_checks x)))" "distinct (map as_ID (x_sources x))"
    "distinct (map as_URL (x_sources x))" "distinct (map fst (x_domains x))"
  using assms
  by (auto simp: exportable_def x_def exportOf_def zones_ok_def records_ok_def gslb_ok_def adblock_ok_def keyed_def
      distinct_sort_key exportRecord_def exportCheck_def defaultCodes_def comp_def)

lemma export_refers:
  assumes "exportable t"
  defines "x \<equiv> exportOf t"
  shows "\<forall>r \<in> set (x_records x). r_ZoneID r \<in> z_ID ` set (x_zones x)"
    "\<forall>p \<in> set (x_pools x). pl_PolicyID p \<in> p_ID ` set (x_policies x)"
    "\<forall>m \<in> set (x_members x). mb_PoolID m \<in> pl_ID ` set (x_pools x)"
    "\<forall>h \<in> set (x_checks x). hc_PolicyID h \<in> p_ID ` set (x_policies x)"
    "\<forall>p \<in> set (x_domains x). snd p \<in> as_ID ` set (x_sources x)"
  using assms
  by (auto simp: exportable_def x_def exportOf_def records_ok_def gslb_ok_def adblock_ok_def refers_def
      exportRecord_def exportCheck_def)

lemma forall_wire: "map w xs = map g xs \<Longrightarrow> (\<forall>y \<in> set xs. P (g y)) \<Longrightarrow> \<forall>y \<in> set xs. P (w y)"
  by auto

lemma forall_wire_id: "map w xs = xs \<Longrightarrow> (\<forall>y \<in> set xs. P y) \<Longrightarrow> \<forall>y \<in> set xs. P (w y)"
  by (metis map_idI map_eq_conv list.map_ident)

lemma insertTables_works:
  assumes "exportable t"
    and "t_zones u = []" "t_records u = []" "t_policies u = []" "t_pools u = []" "t_members u = []"
      "t_checks u = []" "t_sources u = []" "t_domains u = []"
  defines "x \<equiv> exportOf t"
  shows "\<exists>u'. insertTables now x u [] = (Inr ((), u'), []) \<and> map rulePair (t_domains u') = x_domains x"
proof -
  from assms(1) have "exact_rows t" by (simp add: exportable_def)
  note w = wire_exact [OF this, folded x_def] and k = export_keys [OF assms(1), folded x_def]
    and r = export_refers [OF assms(1), folded x_def]
  from import_zones.import_run [of u "x_zones x"] assms(2) w(1) k(1,2)
  obtain u1 where 1: "insertAll syncInsertZone (x_zones x) u [] = (Inr ((), u1), [])"
    and b1: "bare u1 = bare u\<lparr>t_zones := sort_key z_ID (x_zones x)\<rparr>" by auto
  have "\<forall>y \<in> set (x_records x). r_ZoneID (wireRecord y) \<in> z_ID ` set (t_zones (bare u1))"
    using forall_wire_id [OF w(2), of "\<lambda>y. r_ZoneID y \<in> z_ID ` set (x_zones x)"] r(1) by (simp add: b1)
  with import_records.import_run [of u1 "x_records x"] assms(3) w(2) k(3) bare_rows [OF b1]
  obtain u2 where 2: "insertAll syncInsertRecord (x_records x) u1 [] = (Inr ((), u2), [])"
    and b2: "bare u2 = bare u1\<lparr>t_records := sort_key r_ID (x_records x)\<rparr>" by auto
  from import_policies.import_run [of u2 "x_policies x"] assms(4) w(3) k(4) bare_rows [OF b2] bare_rows [OF b1]
  obtain u3 where 3: "insertAll syncInsertPolicy (x_policies x) u2 [] = (Inr ((), u3), [])"
    and b3: "bare u3 = bare u2\<lparr>t_policies := sort_key p_ID (x_policies x)\<rparr>" by auto
  have "\<forall>y \<in> set (x_pools x). pl_PolicyID (wirePool y) \<in> p_ID ` set (t_policies (bare u3))"
    using forall_wire_id [OF w(4), of "\<lambda>y. pl_PolicyID y \<in> p_ID ` set (x_policies x)"] r(2) by (simp add: b3)
  with import_pools.import_run [of u3 "x_pools x"] assms(5) w(4) k(5) bare_rows [OF b3] bare_rows [OF b2] bare_rows [OF b1]
  obtain u4 where 4: "insertAll syncInsertPool (x_pools x) u3 [] = (Inr ((), u4), [])"
    and b4: "bare u4 = bare u3\<lparr>t_pools := sort_key pl_ID (x_pools x)\<rparr>" by auto
  note b = b4 [unfolded b3 b2 b1]
  have "\<forall>y \<in> set (x_members x). mb_PoolID (wireMember y) \<in> pl_ID ` set (t_pools (bare u4))"
    using forall_wire_id [OF w(5), of "\<lambda>y. mb_PoolID y \<in> pl_ID ` set (x_pools x)"] r(3) by (simp add: b4)
  with import_members.import_run [of u4 "x_members x"] assms(6) w(5) k(6) bare_rows [OF b]
  obtain u5 where 5: "insertAll syncInsertMember (x_members x) u4 [] = (Inr ((), u5), [])"
    and b5: "bare u5 = bare u4\<lparr>t_members := sort_key mb_ID (x_members x)\<rparr>" by auto
  note b' = b5 [unfolded b]
  have "\<forall>y \<in> set (x_checks x). hc_PolicyID (wireCheck y) \<in> p_ID ` set (t_policies (bare u5))"
    using forall_wire [OF w(6), of "\<lambda>y. hc_PolicyID y \<in> p_ID ` set (x_policies x)"] r(4)
    by (simp add: b' defaultCodes_def)
  with import_checks.import_run [of u5 "x_checks x"] assms(7) w(6) k(7) bare_rows [OF b']
  obtain u6 where 6: "insertAll syncInsertCheck (x_checks x) u5 [] = (Inr ((), u6), [])"
    and b6: "bare u6 = bare u5\<lparr>t_checks := sort_key hc_ID (map defaultCodes (x_checks x))\<rparr>" by auto
  from import_sources.import_run [of u6 "x_sources x"] assms(8) w(7) k(8,9) bare_rows [OF b6 [unfolded b']]
  obtain u7 where 7: "insertAll syncInsertSource (x_sources x) u6 [] = (Inr ((), u7), [])"
    and b7: "bare u7 = bare u6\<lparr>t_sources := sort_key as_ID (x_sources x)\<rparr>" by auto
  have "t_domains u7 = []" "set (t_sources u7) = set (x_sources x)"
    using bare_rows [OF b7 [unfolded b6 b']] assms(9) by simp_all
  moreover have "\<forall>p \<in> set (x_domains x). float64 (snd p) \<in> as_ID ` set (x_sources x)"
    using forall_wire_id [OF w(8), of "\<lambda>p. snd p \<in> as_ID ` set (x_sources x)"] r(5) by (simp add: wirePair_def)
  ultimately obtain u8 where 8: "insertAll (syncInsertDomain now) (x_domains x) u7 [] = (Inr ((), u8), [])"
    and d8: "map rulePair (t_domains u8) = x_domains x"
    using rules_work [of u7 "x_domains x" now] k(10) w(8) by auto
  from 8 d8 \<open>t_domains u7 = []\<close>
  have "\<exists>u'. (if x_domains x \<noteq> [] then insertAdblockDomainsBatch now (x_domains x) else tx_return ()) u7 []
      = (Inr ((), u'), []) \<and> map rulePair (t_domains u') = x_domains x"
    by (auto simp: insertAdblockDomainsBatch_def tx_bind_def tx_ok_def tx_call_def tx_return_def)
  then show ?thesis by (simp add: insertTables_def tx_bind_def 1 2 3 4 5 6 7)
qed



lemma fullSyncTx_works:
  assumes "exportable t" and "b_data b = exportOf t"
  shows "\<exists>u'. fullSyncTx now b u [] = (Inr ((), u'), []) \<and> map rulePair (t_domains u') = x_domains (exportOf t)"
proof -
  let ?u0 = "u\<lparr>t_zones := [], t_records := [], t_policies := [], t_pools := [], t_members := [], t_checks := [],
            t_sources := [], t_domains := []\<rparr>"
  have 0: "deleteTables u [] = (Inr ((), ?u0), [])"
    by (simp add: deleteTables_def clear_def tx_bind_def tx_call_def)
  obtain u1 where "insertTables now (exportOf t) ?u0 [] = (Inr ((), u1), [])"
    and "map rulePair (t_domains u1) = x_domains (exportOf t)"
    using insertTables_works [OF assms(1), of ?u0 now] by auto
  then show ?thesis by (simp add: fullSyncTx_def assms(2) tx_bind_def 0 updateSyncState_def tx_call_def)
qed

subsection \<open>The round trip\<close>

text \<open>
  \<open>replica t s\<close>: the tables \<open>s\<close> hold what the tables \<open>t\<close> hold: the same zones, records, policies,
  pools, members and sources, in key order, the health checks with the default status codes instead of
  their own (the export leaves the column out and the import does not set it), the records without the time of
  their last query, and the same stored rules under keys of their own.
\<close>

definition replica :: "tables \<Rightarrow> tables \<Rightarrow> bool" where
  "replica t s \<longleftrightarrow>
     t_zones s = sort_key z_ID (t_zones t)
   \<and> t_records s = sort_key r_ID (map exportRecord (t_records t))
   \<and> t_policies s = sort_key p_ID (t_policies t)
   \<and> t_pools s = sort_key pl_ID (t_pools t)
   \<and> t_members s = sort_key mb_ID (t_members t)
   \<and> t_checks s = sort_key hc_ID (map defaultCodes (t_checks t))
   \<and> t_sources s = sort_key as_ID (t_sources t)
   \<and> map rulePair (t_domains s) = sort_key fst (map rulePair (t_domains t))"

lemma sort_key_map: "(\<And>x. k (g x) = k x) \<Longrightarrow> sort_key k (map g xs) = map g (sort_key k xs)"
proof (induction xs)
  case (Cons x xs)
  have "insort_key k (g x) (map g ys) = map g (insort_key k x ys)" for ys
    by (induction ys) (auto simp: Cons.prems)
  with Cons show ?case by simp
qed simp

lemma sort_key_twice [simp]: "sort_key f (sort_key f xs) = sort_key f xs"
  by (rule sort_key_id_if_sorted) simp

lemma imported_replica:
  assumes "exact_rows t" and "bare s = (imported (exportOf t) (bare u))\<lparr>t_domains := ds, last_sync_version := v,
      data_checksum := k, last_sync_at := i\<rparr>"
    and "map rulePair ds = x_domains (exportOf t)"
  shows "replica t s \<and> last_sync_version s = v \<and> t_upstreams s = t_upstreams u \<and> t_cacheSettings s = t_cacheSettings u"
proof -
  note w = wire_exact [OF assms(1)]
  have c: "map defaultCodes (map exportCheck xs) = map defaultCodes xs" for xs
    by (induction xs) (simp_all add: defaultCodes_def exportCheck_def)
  have f: "t_cacheSettings s = t_cacheSettings (bare s)" "t_cacheSettings u = t_cacheSettings (bare u)"
    "last_sync_version s = last_sync_version (bare s)" "t_upstreams s = t_upstreams (bare s)"
    by (simp_all add: bare_def)
  have k: "sort_key hc_ID (map defaultCodes (sort_key hc_ID ys)) = sort_key hc_ID (map defaultCodes ys)" for ys
    by (simp add: sort_key_map [where g = defaultCodes] defaultCodes_def)
  from assms(3) have "map rulePair ds = sort_key fst (map rulePair (t_domains t))"
    by (simp add: exportOf_def rulePair_def [abs_def])
  then show ?thesis
    unfolding replica_def bare_rows [OF assms(2)] f assms(2) imported_def w
    by (simp add: exportOf_def k c del: map_map list.map_comp)
qed



text \<open>The reply of the primary as the HTTP client of the secondary gets it when nothing is lost.\<close>

definition arrives :: "'a reply \<Rightarrow> 'a fetched" where
  "arrives r = (case r of Ok b \<Rightarrow> Fetched b | BadRequest \<Rightarrow> BadStatus 400 | InternalError \<Rightarrow> BadStatus 500)"

lemma Restart_db: "Restart ids d w = (w', d') \<Longrightarrow> tables d' = tables d \<and> (faults d = [] \<longrightarrow> d' = d)"
  by (rule reader_cases [of "\<lambda>t. sort_key hc_ID (t_checks t)" d])
    (auto simp: Restart_def Start_def ListHealthChecks_def Let_def split: prod.splits sum.splits dest: reader_tables)

lemma rebuildFilter_db:
  "tables (hn_db (rebuildFilter rx h)) = tables (hn_db h) \<and> (faults (hn_db h) = [] \<longrightarrow> hn_db (rebuildFilter rx h) = hn_db h)"
  by (rule reader_cases [of "\<lambda>t. map ad_Domain (t_domains t)" "hn_db h"])
    (auto simp: rebuildFilter_def Rebuild_def ListBlockedDomains_def split: option.splits)

lemma with_sdb_simps [simp]: "sdb (with_sdb d s) = d" "with_sdb d (with_sdb d' s) = with_sdb d s"
  by (simp_all add: sdb_def with_sdb_def)

lemma syncComplete_db:
  "tables (sdb (syncComplete ids rx s)) = tables (sdb s)
   \<and> (faults (sdb s) = [] \<longrightarrow> sdb (syncComplete ids rx s) = sdb s)"
proof -
  obtain w d where r: "Restart ids (sdb s) (sd_health s) = (w, d)" by fastforce
  have "sdb (syncComplete ids rx s) = hn_db (rebuildFilter rx ((sd_handler s)\<lparr>hn_db := d\<rparr>))"
    by (simp add: syncComplete_def r [unfolded sdb_def] sdb_def ClearCache_def)
  with Restart_db [OF r] rebuildFilter_db [of rx "(sd_handler s)\<lparr>hn_db := d\<rparr>"] show ?thesis by auto
qed

lemma syncComplete_fresh:
  assumes "faults (sdb s) = []" and "0 < e_now e"
  shows "coherent_handler e (sd_handler (syncComplete ids rx s)) \<and> cache_misses e domain qtype (sd_handler (syncComplete ids rx s))"
proof -
  obtain w d where r: "Restart ids (sdb s) (sd_health s) = (w, d)" by fastforce
  let ?h = "rebuildFilter rx ((sd_handler s)\<lparr>hn_db := d\<rparr>)"
  have h: "sd_handler (syncComplete ids rx s) = ClearCache ?h" by (simp add: syncComplete_def r)
  have "faults (hn_db ?h) = []"
    using Restart_db [OF r] rebuildFilter_db [of rx "(sd_handler s)\<lparr>hn_db := d\<rparr>"] assms(1) by simp
  then show ?thesis
    using zone_cache.coherent_drop [of "tables (hn_db ?h)"] record_flush.coherent_drop [of "tables (hn_db ?h)"]
      assms(2) cache_inv_cacheClear
    unfolding h by (auto simp: coherent_handler_def ClearCache_def cache_misses_def GetCache_def)
qed

lemma fullSync_Fetched:
  assumes "fullSyncTx now b (tables (sdb s)) [] = (Inr ((), u'), [])" and "faults (sdb s) = []"
  shows "fullSync (Some callback) now (Fetched b) s = (Inr (), callback (with_sdb \<lparr>tables = u', faults = []\<rparr> s))"
  using assms by (simp add: fullSync_def transaction_def tx_bind_def tx_ok_def tx_call_def tx_return_def)

lemma fullSync_calm:
  assumes "calm p" and "exportable (tables (pr_db p))" and "faults (sdb s) = []"
  obtains u' where "fullSync (Some callback) now (arrives (fst (GetFull digest p))) s
      = (Inr (), callback (with_sdb \<lparr>tables = u', faults = []\<rparr> s))"
    and "replica (tables (pr_db p)) u'" and "last_sync_version u' = last_sync_version (tables (pr_db p))"
    and "t_upstreams u' = t_upstreams (tables (sdb s))" and "t_cacheSettings u' = t_cacheSettings (tables (sdb s))"
proof -
  let ?t = "tables (pr_db p)" and ?u = "tables (sdb s)"
  define b where "b = \<lparr>b_version = last_sync_version ?t, b_checksum = digest (exportOf ?t), b_data = exportOf ?t\<rparr>"
  have arr: "arrives (fst (GetFull digest p)) = Fetched b"
    by (simp add: GetFull_calm [OF assms(1)] arrives_def b_def)
  have b: "b_data b = exportOf ?t" "b_version b = last_sync_version ?t" by (simp_all add: b_def)
  obtain u' where tx: "fullSyncTx now b ?u [] = (Inr ((), u'), [])" and ds: "map rulePair (t_domains u') = x_domains (exportOf ?t)"
    using fullSyncTx_works [OF assms(2) b(1), of now ?u] by auto
  have "exact_rows ?t" using assms(2) by (simp add: exportable_def)
  from imported_replica [OF this fullSyncTx_Inr [OF tx, unfolded b] ds] fullSync_Fetched [OF tx assms(3), of callback] that
  show ?thesis by (simp add: arr)
qed

text \<open>
  C10: A full sync replicates the primary, up to the status codes of health checks. When the primary's tables satisfy the schema and their
  numbers are below \<open>2 ^ 53\<close>, nothing is committed while it exports and no call fails, the
  secondary's full sync succeeds. Afterwards it has, under the primary's version, the same zones, records (without
  the times of last queries), policies, pools, members, ad-block sources and stored rules; the same health checks except that
  each has the default status code 200, whatever codes it expects on the primary; and its own upstream servers
  and cache settings as before. Its response cache has no answer to any question, and its zone and record caches
  agree with the new tables; nothing is said of the caches of the load balancer, which the callback does not clear.
\<close>

theorem full_sync_replicates:
  assumes "calm p" and "exportable (tables (pr_db p))" and "faults (sdb s) = []" and "0 < e_now e"
  shows "\<exists>s'. fullSync (Some (syncComplete ids rx)) now (arrives (fst (GetFull digest p))) s = (Inr (), s')
           \<and> replica (tables (pr_db p)) (tables (sdb s'))
           \<and> last_sync_version (tables (sdb s')) = last_sync_version (tables (pr_db p))
           \<and> t_upstreams (tables (sdb s')) = t_upstreams (tables (sdb s))
           \<and> t_cacheSettings (tables (sdb s')) = t_cacheSettings (tables (sdb s))
           \<and> coherent_handler e (sd_handler s') \<and> cache_misses e domain qtype (sd_handler s')"
proof (rule fullSync_calm [OF assms(1-3), of "syncComplete ids rx" now digest], goal_cases)
  case (1 u')
  let ?s1 = "with_sdb \<lparr>tables = u', faults = []\<rparr> s"
  from 1 syncComplete_db [of ids rx ?s1] syncComplete_fresh [of ?s1 e ids rx domain qtype] assms(4) show ?case by simp
qed

text \<open>The status codes are lost: a check for status 204 becomes one for status 200.\<close>

lemma expected_codes_lost:
  assumes "replica t s" and "h \<in> set (t_checks s)"
  shows "hc_ExpectedCodes h = [200]"
  using assms by (auto simp: replica_def defaultCodes_def)

definition sample_secondary :: secondary where
  "sample_secondary = \<lparr>sd_handler = sample_handler, sd_health = NewHealthCheckWorker\<rparr>"

lemma sample_exportable: "exportable (tables sample_db)"
  using RecordStore.sample_ok
  by (simp add: exportable_def adblock_ok_def exact_rows_def exact64_def sample_defs gslb_ok_def keyed_def refers_def)

theorem full_sync_replicates_witness:
  "\<exists>s'. fullSync (Some (syncComplete [] plain_rx)) 9
            (arrives (fst (GetFull (\<lambda>_. ''d'') \<lparr>pr_db = sample_db, pr_others = []\<rparr>))) sample_secondary = (Inr (), s')
        \<and> replica (tables sample_db) (tables (sdb s'))"
proof -
  have "faults (sdb sample_secondary) = []"
    by (simp add: sdb_def sample_secondary_def sample_handler_def alias_db_def RecordStore.sample_ok)
  then show ?thesis
    using full_sync_replicates [of "\<lparr>pr_db = sample_db, pr_others = []\<rparr>" sample_secondary sample_env "[]" plain_rx 9
        "\<lambda>_. ''d''" "''www.example.com.''" "''A''"] sample_exportable
    by (auto simp: calm_def RecordStore.sample_ok sample_env_def)
qed

lemma fullSync_failed:
  assumes "fullSync cb now full s = (Inl e, s')"
  shows "\<exists>fs. s' = with_sdb ((sdb s)\<lparr>faults := fs\<rparr>) s"
proof (cases full)
  case (Fetched b)
  show ?thesis
    by (rule transaction_cases [of "fullSyncTx now b" "sdb s"]) (use assms Fetched in \<open>auto simp: fullSync_def\<close>)
qed (use assms in \<open>auto simp: fullSync_def with_sdb_def sdb_def intro!: exI [of _ "faults (hn_db (sd_handler s))"]\<close>)

text \<open>
  C23: A sync that fails changes nothing. Whatever goes wrong, on the way to the primary, in its
  answer, or at any statement of the transaction, the secondary keeps its tables, caches, filter
  and health checks exactly as they were; only when the new tables are committed does the
  callback run.
\<close>

theorem sync_failure_atomic:
  assumes "incrementalSync cb now meta full s = (Inl e, s')"
  shows "\<exists>fs. s' = with_sdb ((sdb s)\<lparr>faults := fs\<rparr>) s"
proof -
  obtain r g where r: "reader last_sync_version (sdb s) = (r, (sdb s)\<lparr>faults := g\<rparr>)"
    by (rule reader_cases [of last_sync_version "sdb s"]) auto
  from assms r consider "fullSync cb now full (with_sdb ((sdb s)\<lparr>faults := g\<rparr>) s) = (Inl e, s')"
    | "s' = with_sdb ((sdb s)\<lparr>faults := g\<rparr>) s"
    by (auto simp: incrementalSync_def split: sum.splits if_splits fetched.splits prod.splits)
  then show ?thesis
  proof cases
    case 1
    from fullSync_failed [OF 1] show ?thesis by (auto simp: with_sdb_def sdb_def)
  qed blast
qed


theorem sync_failure_atomic_witness:
  "\<exists>fs. snd (incrementalSync None 9 Unreachable (BadStatus 500) sample_secondary)
      = with_sdb ((sdb sample_secondary)\<lparr>faults := fs\<rparr>) sample_secondary"
proof -
  obtain s' where run: "incrementalSync None 9 Unreachable (BadStatus 500) sample_secondary = (Inl PrimaryFailed, s')"
    by (simp add: incrementalSync_def fullSync_def sdb_def sample_secondary_def sample_handler_def alias_db_def
        RecordStore.sample_ok)
  show ?thesis using sync_failure_atomic [OF run] unfolding run by simp
qed


end
