(* ===== verification/SyncHistory.thy ===== *)
theory SyncHistory
  imports SyncPair
begin

section \<open>A primary and a secondary side by side\<close>

text \<open>
  The histories of a pair: the primary commits through its storages, also while it answers a
  request of the secondary; the secondary syncs, with any call failing and any answer lost, and
  serves queries in between. What the comparison of versions in \<^verbatim>\<open>incrementalSync\<close> is worth is
  an invariant of these histories.
\<close>

subsection \<open>The replicated DNS data\<close>

type_synonym dns_rows =
  "Zone list \<times> Record list \<times> GSLBPolicy list \<times> GSLBPool list \<times> GSLBMember list \<times> HealthCheck list"

text \<open>
  The columns that are exported: of the rows of these six tables all but the times of last queries of
  the records and the expected status codes of the health checks. What becomes of the codes is part of the
  properties below.
\<close>

definition dnsPart :: "export \<Rightarrow> dns_rows" where
  "dnsPart x = (x_zones x, x_records x, x_policies x, x_pools x, x_members x, x_checks x)"

definition dnsData :: "tables \<Rightarrow> dns_rows" where
  "dnsData t = dnsPart (exportOf t)"

text \<open>What such rows become on a secondary: decoded numbers, default status codes.\<close>

definition decoded :: "dns_rows \<Rightarrow> dns_rows" where
  "decoded = (\<lambda>(zs, rs, ps, pls, ms, hs).
     (sort_key z_ID (map wireZone zs), sort_key r_ID (map wireRecord rs), sort_key p_ID (map wirePolicy ps),
      sort_key pl_ID (map wirePool pls), sort_key mb_ID (map wireMember ms),
      sort_key hc_ID (map (\<lambda>h. exportCheck (wireCheck h)) hs)))"

lemma dnsData_eq:
  "dnsData t = (sort_key z_ID (t_zones t), sort_key r_ID (map exportRecord (t_records t)), sort_key p_ID (t_policies t),
     sort_key pl_ID (t_pools t), sort_key mb_ID (t_members t), sort_key hc_ID (map exportCheck (t_checks t)))"
  by (simp add: dnsData_def dnsPart_def exportOf_def)

lemma sort_export [simp]:
  "sort_key r_ID (map exportRecord rs) = map exportRecord (sort_key r_ID rs)"
  "sort_key hc_ID (map exportCheck hs) = map exportCheck (sort_key hc_ID hs)"
  by (simp_all add: sort_key_map exportRecord_def exportCheck_def)

lemma dnsData_imported:
  assumes "bare s = (imported x (bare u))\<lparr>t_domains := ds, last_sync_version := v, data_checksum := k, last_sync_at := i\<rparr>"
  shows "dnsData s = decoded (dnsPart x)"
proof -
  have "map exportRecord (sort_key r_ID (map wireRecord rs)) = sort_key r_ID (map wireRecord rs)" for rs
    by (rule map_idI) (auto simp: exportRecord_def wireRecord_def)
  moreover have "sort_key hc_ID (map (\<lambda>h. exportCheck (wireCheck h)) hs) = map exportCheck (sort_key hc_ID (map wireCheck hs))" for hs
    using sort_export(2) [of "map wireCheck hs"] by (simp add: comp_def)
  ultimately show ?thesis
    using bare_rows [OF assms] by (simp add: dnsData_eq decoded_def dnsPart_def imported_def)
qed

lemma decoded_exact: "exact_rows t \<Longrightarrow> decoded (dnsData t) = dnsData t"
proof -
  assume "exact_rows t"
  note w = wire_exact [OF this]
  have "exportCheck (wireCheck h) = h" if "h \<in> set (x_checks (exportOf t))" for h
    using w(6) that by (auto simp: exportOf_def exportCheck_def defaultCodes_def)
  then have c: "map (\<lambda>h. exportCheck (wireCheck h)) (x_checks (exportOf t)) = x_checks (exportOf t)"
    by (intro map_idI) simp
  show ?thesis unfolding dnsData_def dnsPart_def decoded_def
    by (simp add: w c del: sort_export) (simp add: exportOf_def del: sort_export)
qed

subsection \<open>Commits of the primary\<close>

text \<open>
  A commit through the storages of zones, records and GSLB, an update of the times of last
  queries, a synchronisation of one or all ad-block lists, which raises the version when a list
  changed, or a change that leaves these tables and the version alone (upstream servers, ad-block
  sources, settings, statistics).
\<close>

inductive commit :: "tables \<Rightarrow> tables \<Rightarrow> bool" where
  zone_created: "CreateZone now z d c = (r, d', c') \<Longrightarrow> commit (tables d) (tables d')"
| zone_updated: "UpdateZone now z d c = (u, d', c') \<Longrightarrow> commit (tables d) (tables d')"
| zone_deleted: "DeleteZone i d c = (u, d', c') \<Longrightarrow> commit (tables d) (tables d')"
| record_created: "CreateRecord now x d rc = (r, d', rc') \<Longrightarrow> commit (tables d) (tables d')"
| record_updated: "UpdateRecord now x d rc = (u, d', rc') \<Longrightarrow> commit (tables d) (tables d')"
| record_deleted: "DeleteRecord i d rc = (u, d', rc') \<Longrightarrow> commit (tables d) (tables d')"
| queries_touched: "BatchUpdateLastQueryAt qs d = (u, d') \<Longrightarrow> commit (tables d) (tables d')"
| gslb_changed: "gslb_step (d, pc, m) (d', pc', m') \<Longrightarrow> commit (tables d) (tables d')"
| lists_synced: "SyncAll rx get primary now d ac f = (u, d', ac', f') \<Longrightarrow> commit (tables d) (tables d')"
| list_synced: "SyncSource rx get primary now i d ac f = (v, d', ac', f') \<Longrightarrow> commit (tables d) (tables d')"
| commit_other: "dnsData t' = dnsData t \<Longrightarrow> last_sync_version t' = last_sync_version t \<Longrightarrow> commit t t'"

text \<open>The versions announce every change of the DNS data.\<close>

definition announced :: "tables \<Rightarrow> tables \<Rightarrow> bool" where
  "announced t t' \<longleftrightarrow> last_sync_version t \<le> last_sync_version t'
     \<and> (last_sync_version t' = last_sync_version t \<longrightarrow> dnsData t' = dnsData t)"

lemma announced_refl [simp]: "announced t t"
  by (simp add: announced_def)

lemma announced_trans [trans]: "announced t u \<Longrightarrow> announced u w \<Longrightarrow> announced t w"
  by (auto simp: announced_def)

lemma announced_bump: "last_sync_version t' = last_sync_version t + 1 \<Longrightarrow> announced t t'"
  by (simp add: announced_def)

text \<open>\<open>touched\<close>: only the times of last queries differ.\<close>

definition touched :: "tables \<Rightarrow> tables \<Rightarrow> bool" where
  "touched t t' \<longleftrightarrow> (\<exists>rs. t' = t\<lparr>t_records := rs\<rparr> \<and> map exportRecord rs = map exportRecord (t_records t))"

lemma touched_refl [simp]: "touched t t"
  unfolding touched_def by (rule exI [of _ "t_records t"]) simp

lemma touched_trans [trans]: "touched t u \<Longrightarrow> touched u w \<Longrightarrow> touched t w"
  by (auto simp: touched_def)

lemma touched_dnsData: "touched t t' \<Longrightarrow> dnsData t' = dnsData t \<and> last_sync_version t' = last_sync_version t"
  by (auto simp: touched_def dnsData_eq simp del: sort_export)

lemma touchRows_touched: "touchRows b q name t = Inr (n, t') \<Longrightarrow> touched t t'"
  by (auto simp: touchRows_def Let_def touched_def exportRecord_def)

lemma touchCandidates_touched: "touchCandidates q cs t fs = (Inr (u, t'), fs') \<Longrightarrow> touched t t'"
proof (induction cs arbitrary: t fs)
  case (Cons c cs)
  then obtain n t1 fs1 where "touchRows True q c t = Inr (n, t1)"
    and "t' = t1 \<or> touchCandidates q cs t1 fs1 = (Inr (u, t'), fs')"
    by (auto simp: tx_bind_Inr tx_return_Inr split: if_splits dest!: tx_call_Inr tx_ok_Inr)
  with Cons.IH touchRows_touched touched_trans show ?case by metis
qed (simp add: tx_return_Inr)

lemma batchUpdateLoop_touched: "batchUpdateLoop qs t fs = (Inr (u, t'), fs') \<Longrightarrow> touched t t'"
proof (induction qs arbitrary: t fs)
  case (Cons x qs)
  obtain name q where x: "x = (name, q)" by fastforce
  show ?case
  proof (cases "name = []")
    case False
    with Cons.prems x obtain n t1 fs1 where t1: "touchRows False q name t = Inr (n, t1)"
      and rest: "(if 0 < n then batchUpdateLoop qs
          else tx_bind (touchCandidates q (wildcardQueryCandidates name)) (\<lambda>_. batchUpdateLoop qs)) t1 fs1 = (Inr (u, t'), fs')"
      by (auto simp: tx_bind_Inr [of "tx_call _ _"] tx_bind_Inr [of "tx_ok _"] dest!: tx_call_Inr tx_ok_Inr)
    consider "batchUpdateLoop qs t1 fs1 = (Inr (u, t'), fs')"
      | t2 fs2 where "touched t1 t2" "batchUpdateLoop qs t2 fs2 = (Inr (u, t'), fs')"
      using rest by (cases "0 < n") (auto simp: tx_bind_Inr dest: touchCandidates_touched)
    then show ?thesis
      by cases (use Cons.IH touchRows_touched [OF t1] in \<open>blast intro: touched_trans\<close>)+
  qed (use Cons x in simp)
qed (simp add: tx_return_Inr)

lemma BatchUpdateLastQueryAt_touched:
  assumes "BatchUpdateLastQueryAt qs d = (u, d')"
  shows "touched (tables d) (tables d')"
proof (cases "qs = []")
  case False
  let ?body = "tx_bind (tx_ok ExecFailed) (\<lambda>_. tx_bind (tx_ok ExecFailed) (\<lambda>_. batchUpdateLoop qs))"
  from assms False have run: "transaction ?body d = (u, d')" by (simp add: BatchUpdateLastQueryAt_def)
  have "touched t t'" if "?body t fs = (Inr (a, t'), fs')" for t fs a t' fs'
    using that by (auto simp: tx_bind_Inr dest!: tx_ok_Inr dest: batchUpdateLoop_touched)
  then show ?thesis by (cases rule: transaction_cases [of ?body d]) (use run in auto)
qed (use assms in \<open>simp add: BatchUpdateLastQueryAt_def\<close>)

lemma store_write_announced:
  assumes "store_write body ival d c = (r, d', c')"
    and "\<And>t fs a t' fs'. body t fs = (Inr (a, t'), fs') \<Longrightarrow> last_sync_version t' = last_sync_version t + 1"
  shows "announced (tables d) (tables d')"
  by (rule store_write_cases [of body ival d c]) (use assms announced_bump in auto)

text \<open>\<open>beside\<close>: the DNS data stays and the version does not go back, as for the ad-block lists.\<close>

definition beside :: "tables \<Rightarrow> tables \<Rightarrow> bool" where
  "beside t t' \<longleftrightarrow> dnsData t' = dnsData t \<and> last_sync_version t \<le> last_sync_version t'"

lemma beside_refl [simp]: "beside t t"
  by (simp add: beside_def)

lemma beside_trans [trans]: "beside t u \<Longrightarrow> beside u w \<Longrightarrow> beside t w"
  by (auto simp: beside_def)

lemma beside_announced: "beside t t' \<Longrightarrow> announced t t'"
  by (simp add: beside_def announced_def)

lemma beside_autocommit:
  assumes "autocommit stmt d = (v, d')" and "\<And>x t fs fs'. stmt (tables d) fs = (Inr (x, t), fs') \<Longrightarrow> beside (tables d) t"
  shows "beside (tables d) (tables d')"
  by (cases rule: autocommit_cases [of stmt d]) (use assms in auto)

lemma beside_insertDomain: "insertDomain now sid dn t = Inr (u, t') \<Longrightarrow> beside t t'"
  by (auto simp: insertDomain_def take_id_def beside_def dnsData_eq split: if_splits)

lemma beside_addDomains: "addDomains now sid dns t fs = (Inr (u, t'), fs') \<Longrightarrow> beside t t'"
proof (induction dns arbitrary: t fs)
  case (Cons dn dns)
  then obtain t1 fs1 where "insertDomain now sid (normalizeAdblockEntry dn) t = Inr ((), t1)"
    "addDomains now sid dns t1 fs1 = (Inr (u, t'), fs')" by (auto simp: tx_bind_Inr dest!: tx_call_Inr)
  with Cons.IH beside_insertDomain beside_trans show ?case by blast
qed (simp add: tx_return_Inr)

lemma beside_replaceRules:
  assumes "replaceRules now sid rules d = (r, d')"
  shows "beside (tables d) (tables d')"
proof -
  obtain r1 d1 where 1: "RemoveBlockedDomains sid d = (r1, d1)" by fastforce
  from 1 have b1: "beside (tables d) (tables d1)" unfolding RemoveBlockedDomains_def
    by (rule beside_autocommit) (auto simp: removeDomainRows_def beside_def dnsData_eq dest!: tx_call_Inr)
  let ?body = "tx_bind (tx_ok ExecFailed) (\<lambda>_. addDomains now sid rules)"
  have "beside t t'" if "?body t fs = (Inr (a, t'), fs')" for t fs a t' fs'
    using that by (auto simp: tx_bind_Inr dest!: tx_ok_Inr dest: beside_addDomains)
  then have "beside (tables d1) (tables d2)" if "transaction ?body d1 = (r2, d2)" for r2 d2
    by (cases rule: transaction_cases [of ?body d1]) (use that in auto)
  with assms 1 b1 show ?thesis
    by (auto simp: replaceRules_def AddBlockedDomainsBatch_def split: sum.splits intro: beside_trans)
qed

lemma beside_UpdateAdblockSource:
  assumes "UpdateAdblockSource now s d c = (r, d', c')"
  shows "beside (tables d) (tables d')"
proof -
  let ?stmt = "tx_call ExecFailed (updateSourceRow now s)"
  obtain r1 d1 where 1: "autocommit ?stmt d = (r1, d1)" by fastforce
  then have b1: "beside (tables d) (tables d1)"
    by (rule beside_autocommit) (auto simp: updateSourceRow_def beside_def dnsData_eq split: if_splits dest!: tx_call_Inr)
  have "beside (tables d1) (tables d2)" if "autocommit (tx_affected n) d1 = (r2, d2)" for n r2 d2
    by (rule beside_autocommit [OF that]) (auto dest!: tx_affected_Inr)
  with assms 1 b1 show ?thesis
    by (auto simp: UpdateAdblockSource_def exec_then_def split: sum.splits prod.splits intro: beside_trans)
qed

lemma beside_syncSource:
  assumes "syncSource rx get now shared src d c = (r, d', c')"
  shows "beside (tables d) (tables d')"
proof -
  have finish: "beside (tables d1) (tables d2)" if "finishSync now shared s lm upd d1 c1 = (r2, d2, c2)" for s lm upd d1 c1 r2 d2 c2
    using that by (auto simp: finishSync_def Let_def split: prod.splits sum.splits dest: beside_UpdateAdblockSource)
  show ?thesis using assms
    by (auto simp: syncSource_def Let_def split: sum.splits prod.splits option.splits
        dest!: beside_replaceRules finish intro: beside_trans)
qed

lemma beside_syncLoop: "syncLoop rx get now shared srcs changed d c = (ch, d', c') \<Longrightarrow> beside (tables d) (tables d')"
proof (induction srcs arbitrary: changed d c)
  case (Cons src srcs)
  obtain r d1 c1 where 1: "syncSource rx get now shared src d c = (r, d1, c1)" by (metis prod_cases3)
  from Cons.prems 1 obtain changed' where "syncLoop rx get now shared srcs changed' d1 c1 = (ch, d', c')"
    by (auto split: sum.splits)
  with Cons.IH beside_syncSource [OF 1] show ?case by (blast intro: beside_trans)
qed simp

lemma beside_bump_rebuild:
  assumes "Rebuild rx (bumpIf changed d) f = (r, d', f')"
  shows "beside (tables d) (tables d')"
proof -
  have "beside (tables d) (tables (snd (autocommit IncrementVersion d)))"
    by (rule beside_autocommit [OF prod.collapse [symmetric]])
      (auto simp: beside_def dnsData_eq bump_version_def dest!: IncrementVersion_Inr)
  then have "beside (tables d) (tables (bumpIf changed d))" by (simp add: bumpIf_def)
  moreover have "tables d' = tables (bumpIf changed d)"
    using assms by (auto simp: Rebuild_def ListBlockedDomains_def split: prod.splits sum.splits dest!: reader_tables)
  ultimately show ?thesis by simp
qed

lemma beside_SyncAll:
  assumes "SyncAll rx get primary now d c f = (r, d', c', f')"
  shows "beside (tables d) (tables d')"
proof -
  obtain g d1 where 1: "GetEnabledAdblockSources now d c = (g, d1)" by fastforce
  then have t1: "tables d1 = tables d" by (auto simp: GetEnabledAdblockSources_def split: option.splits dest: reader_tables)
  show ?thesis
  proof (cases g)
    case (Inl e)
    with assms 1 t1 show ?thesis by (simp add: SyncAll_def)
  next
    case (Inr sources)
    obtain ch d2 c2 where 2: "syncLoop rx get now (adblockCacheGet now c \<noteq> None) sources False d1 c = (ch, d2, c2)"
      by (metis prod_cases3)
    obtain r3 d3 f3 where 3: "Rebuild rx (bumpIf (ch \<and> primary) d2) f = (r3, d3, f3)" by (metis prod_cases3)
    from assms 1 2 3 Inr have "d' = d3" by (simp add: SyncAll_def)
    with beside_trans [OF beside_syncLoop [OF 2] beside_bump_rebuild [OF 3]] t1 show ?thesis by simp
  qed
qed

lemma beside_SyncSource:
  assumes "SyncSource rx get primary now i d c f = (r, d', c', f')"
  shows "beside (tables d) (tables d')"
proof -
  obtain g d1 where 1: "GetAdblockSource i d = (g, d1)" by fastforce
  then have t1: "tables d1 = tables d" by (auto simp: GetAdblockSource_def dest: reader_tables)
  show ?thesis
  proof (cases "\<exists>src. g = Inr (Some src) \<and> as_Enabled src")
    case False
    with assms 1 t1 show ?thesis by (auto simp: SyncSource_def split: sum.splits option.splits)
  next
    case True
    then obtain src where src: "g = Inr (Some src)" "as_Enabled src" by blast
    obtain r2 d2 c2 where 2: "syncSource rx get now False src d1 c = (r2, d2, c2)" by (metis prod_cases3)
    note b2 = beside_syncSource [OF 2]
    show ?thesis
    proof (cases r2)
      case (Inl e)
      with assms 1 2 src b2 t1 show ?thesis by (simp add: SyncSource_def)
    next
      case (Inr updated)
      obtain r3 d3 f3 where 3: "Rebuild rx (bumpIf (updated \<and> primary) d2) f = (r3, d3, f3)" by (metis prod_cases3)
      from assms 1 2 3 src Inr have "d' = d3" by (auto simp: SyncSource_def split: sum.splits)
      with beside_trans [OF b2 beside_bump_rebuild [OF 3]] t1 show ?thesis by simp
    qed
  qed
qed

lemma commit_announced: "commit t t' \<Longrightarrow> announced t t'"
proof (induction rule: commit.induct)
  case (record_deleted i d rc u d' rc')
  then consider "tables d' = tables d" | zid d1 where "tables d1 = tables d"
      "store_write (deleteRecordTx i) (\<lambda>_. recordCacheInvalidate zid) d1 rc = (u, d', rc')"
    by (auto simp: DeleteRecord_def GetRecord_def split: prod.splits sum.splits option.splits dest!: reader_tables)
  then show ?case
    by cases (auto dest!: store_write_announced [OF _ delete_record.body_version])
next
  case (queries_touched qs d u d')
  from touched_dnsData [OF BatchUpdateLastQueryAt_touched [OF this]] show ?case by (simp add: announced_def)
next
  case (gslb_changed d pc m d' pc' m')
  from gslb_step_counted [OF gslb_changed] show ?case by (auto simp: counted_def announced_bump)
next
  case (lists_synced rx get primary now d ac f u d' ac' f')
  then show ?case by (rule beside_announced [OF beside_SyncAll])
next
  case (list_synced rx get primary now i d ac f v d' ac' f')
  then show ?case by (rule beside_announced [OF beside_SyncSource])
next
  case (commit_other t' t)
  then show ?case by (simp add: announced_def)
qed (auto simp: CreateZone_def UpdateZone_def DeleteZone_def CreateRecord_def UpdateRecord_def
    intro: store_write_announced [OF _ create_zone.body_version] store_write_announced [OF _ update_zone.body_version]
      store_write_announced [OF _ delete_zone.body_version] store_write_announced [OF _ create_record.body_version]
      store_write_announced [OF _ update_record.body_version])

subsection \<open>A request while others commit\<close>

text \<open>Every state a request passes is announced by the next.\<close>

definition moves :: "'a request \<Rightarrow> bool" where
  "moves m \<longleftrightarrow> (\<forall>p r p'. m p = (r, p') \<longrightarrow> (\<forall>f \<in> set (pr_others p). \<forall>u. announced u (f u)) \<longrightarrow>
     announced (tables (pr_db p)) (tables (pr_db p')) \<and> set (pr_others p') \<subseteq> set (pr_others p))"

lemma moves_return [simp]: "moves (rq_return a)"
  by (simp add: moves_def rq_return_def)

lemma moves_observe [simp]: "moves (observe (reader q))"
  unfolding moves_def using observe_moves [where R = announced] by (metis announced_refl)

lemma moves_bind [simp]:
  assumes "moves m" and "\<And>a. moves (k a)"
  shows "moves (rq_bind m k)"
  unfolding moves_def
proof (intro allI impI)
  fix p r p'
  assume run: "rq_bind m k p = (r, p')" and others: "\<forall>f \<in> set (pr_others p). \<forall>u. announced u (f u)"
  obtain g p1 where m: "m p = (g, p1)" by fastforce
  with assms(1) others have 1: "announced (tables (pr_db p)) (tables (pr_db p1))" "set (pr_others p1) \<subseteq> set (pr_others p)"
    by (auto simp: moves_def)
  show "announced (tables (pr_db p)) (tables (pr_db p')) \<and> set (pr_others p') \<subseteq> set (pr_others p)"
  proof (cases g)
    case (Inl e)
    with run m 1 show ?thesis by (simp add: rq_bind_def)
  next
    case (Inr a)
    with run m have k: "k a p1 = (r, p')" by (simp add: rq_bind_def)
    have "\<forall>f \<in> set (pr_others p1). \<forall>u. announced u (f u)" using others 1(2) by blast
    with k assms(2) [of a] have "announced (tables (pr_db p1)) (tables (pr_db p'))" "set (pr_others p') \<subseteq> set (pr_others p1)"
      unfolding moves_def by blast+
    with 1 show ?thesis using announced_trans by blast
  qed
qed

lemma moves_export: "moves exportAll" "moves (fullExport digest)"
  by (simp_all add: exportAll_def fullExport_def CalculateChecksum_def export_queries)


text \<open>
  \<open>settled p p'\<close>: \<open>p\<close> is a state on the way to \<open>p'\<close> with the same version, so with the same DNS data.
\<close>

definition settled :: "primary \<Rightarrow> primary \<Rightarrow> bool" where
  "settled p p' \<longleftrightarrow> (\<forall>f \<in> set (pr_others p). \<forall>u. announced u (f u))
     \<and> last_sync_version (tables (pr_db p)) = last_sync_version (tables (pr_db p'))
     \<and> dnsData (tables (pr_db p)) = dnsData (tables (pr_db p'))"

lemma observe_settled:
  assumes "rq_bind (observe (reader q)) k p = (Inr b, p')" and "\<And>a. moves (k a)" and "settled p p'"
  obtains p1 where "k (q (tables (pr_db p1))) p1 = (Inr b, p')" and "settled p1 p'"
proof -
  from assms(1) obtain a p1 where o: "observe (reader q) p = (Inr a, p1)" and k: "k a p1 = (Inr b, p')"
    by (auto simp: rq_bind_Inr)
  have oth: "\<And>f u. f \<in> set (pr_others p) \<Longrightarrow> announced u (f u)" using assms(3) by (simp add: settled_def)
  from observe_moves [where R = announced, OF o] oth
  have 1: "announced (tables (pr_db p)) (tables (pr_db p1))" "set (pr_others p1) \<subseteq> set (pr_others p)"
    "a = q (tables (pr_db p1))" by simp_all
  moreover have "announced (tables (pr_db p1)) (tables (pr_db p'))"
    using assms(2) [of a] k oth 1(2) unfolding moves_def by blast
  ultimately have "settled p1 p'" using assms(3) oth by (auto simp: settled_def announced_def)
  with k 1(3) that show ?thesis by simp
qed

lemma observe_settled_dns:
  assumes "rq_bind (observe (reader q)) k p = (Inr b, p')" and "\<And>a. moves (k a)" and "settled p p'"
    and "\<And>t. q t = g (dnsData t)"
  obtains p1 where "k (q (tables (pr_db p'))) p1 = (Inr b, p')" and "settled p1 p'"
  using observe_settled [OF assms(1-3)] assms(4) by (metis settled_def)

lemma dnsData_sel:
  "sort_key z_ID (t_zones t) = fst (dnsData t)"
  "sort_key r_ID (map exportRecord (t_records t)) = fst (snd (dnsData t))"
  "sort_key p_ID (t_policies t) = fst (snd (snd (dnsData t)))"
  "sort_key pl_ID (t_pools t) = fst (snd (snd (snd (dnsData t))))"
  "sort_key mb_ID (t_members t) = fst (snd (snd (snd (snd (dnsData t)))))"
  "sort_key hc_ID (map exportCheck (t_checks t)) = snd (snd (snd (snd (snd (dnsData t)))))"
  by (simp_all add: dnsData_eq)

lemma exportAll_settled:
  assumes "exportAll p = (Inr x, p')" and "settled p p'"
  shows "dnsPart x = dnsData (tables (pr_db p'))"
  using assms unfolding exportAll_def export_queries
  apply -
  apply (erule observe_settled_dns, simp, assumption, rule dnsData_sel(1))
  apply (erule observe_settled_dns, simp, assumption, rule dnsData_sel(2))
  apply (erule observe_settled, simp, assumption)
  apply (erule observe_settled_dns, simp, assumption, rule dnsData_sel(3))
  apply (erule observe_settled_dns, simp, assumption, rule dnsData_sel(4))
  apply (erule observe_settled_dns, simp, assumption, rule dnsData_sel(5))
  apply (erule observe_settled_dns, simp, assumption, rule dnsData_sel(6))
  apply (erule observe_settled, simp, assumption)+
  apply (auto simp: rq_return_def dnsPart_def dnsData_eq simp del: sort_export)
  done


lemma movesD:
  assumes "moves m" and "m p = (r, p')" and "\<forall>f \<in> set (pr_others p). \<forall>u. announced u (f u)"
  shows "announced (tables (pr_db p)) (tables (pr_db p'))" and "\<forall>f \<in> set (pr_others p'). \<forall>u. announced u (f u)"
  using assms unfolding moves_def by blast+

text \<open>The version is read before the data, so an export is never labelled newer than it is.\<close>

lemma GetFull_Ok:
  assumes "GetFull digest p = (Ok b, p')" and oth: "\<forall>f \<in> set (pr_others p). \<forall>u. announced u (f u)"
  shows "last_sync_version (tables (pr_db p)) \<le> b_version b" and "b_version b \<le> last_sync_version (tables (pr_db p'))"
    and "b_version b = last_sync_version (tables (pr_db p')) \<Longrightarrow> dnsPart (b_data b) = dnsData (tables (pr_db p'))"
proof -
  from assms(1) have "fullExport digest p = (Inr b, p')"
    by (auto simp: GetFull_def replyOf_def split: prod.splits sum.splits)
  then obtain v p1 k p2 x where 1: "observe (reader last_sync_version) p = (Inr v, p1)"
    and 2: "CalculateChecksum digest p1 = (Inr k, p2)" and 3: "exportAll p2 = (Inr x, p')"
    and b: "b = \<lparr>b_version = v, b_checksum = k, b_data = x\<rparr>"
    by (auto simp: fullExport_def rq_bind_Inr rq_return_def GetVersion_def)
  have "moves (CalculateChecksum digest)" by (simp add: CalculateChecksum_def moves_export)
  note m1 = movesD [OF moves_observe 1 oth] and m2 = movesD [OF this 2]
  note m3 = movesD [OF moves_export(1) 3 m2(2) [OF m1(2)]]
  from observe_moves [where R = announced, OF 1] oth have v: "v = last_sync_version (tables (pr_db p1))" by simp
  show "last_sync_version (tables (pr_db p)) \<le> b_version b" "b_version b \<le> last_sync_version (tables (pr_db p'))"
    using m1(1) m2(1) [OF m1(2)] m3(1) by (auto simp: b v announced_def)
  assume "b_version b = last_sync_version (tables (pr_db p'))"
  with m2 [OF m1(2)] m3(1) have "settled p2 p'" by (auto simp: settled_def announced_def b v)
  from exportAll_settled [OF 3 this] show "dnsPart (b_data b) = dnsData (tables (pr_db p'))" by (simp add: b)
qed

subsection \<open>Histories of a pair\<close>

text \<open>
  A step is a commit of the primary; something the secondary does on its own that leaves its DNS
  data, health checks and version alone, as all it does in read-only mode; or a sync (the initial one or a periodic one), during which the primary
  may commit between the queries of its export. The answers may be lost (\<open>full\<close> is then some
  failure) and the metadata the worker compares with is arbitrary: it may be stale or wrong.
\<close>

inductive pair_step :: "tables \<times> secondary \<Rightarrow> tables \<times> secondary \<Rightarrow> bool" where
  pair_commit: "commit t t' \<Longrightarrow> pair_step (t, s) (t', s)"
| pair_local: "dnsData (tables (sdb s')) = dnsData (tables (sdb s)) \<Longrightarrow>
    t_checks (tables (sdb s')) = t_checks (tables (sdb s)) \<Longrightarrow>
    last_sync_version (tables (sdb s')) = last_sync_version (tables (sdb s)) \<Longrightarrow> pair_step (t, s) (t, s')"
| pair_sync: "GetFull digest \<lparr>pr_db = \<lparr>tables = t, faults = fs\<rparr>, pr_others = os\<rparr> = (r, p) \<Longrightarrow>
    \<forall>f \<in> set os. \<forall>u. commit u (f u) \<Longrightarrow>
    full = arrives r \<or> (\<forall>b. full \<noteq> Fetched b) \<Longrightarrow>
    cb = None \<or> cb = Some (syncComplete ids rx) \<Longrightarrow>
    fullSync cb now full s = (res, s') \<or> incrementalSync cb now meta full s = (res, s') \<Longrightarrow>
    pair_step (t, s) (tables (pr_db p), s')"

inductive pair_reach :: "tables \<times> secondary \<Rightarrow> bool" where
  pair_start: "0 \<le> last_sync_version t \<Longrightarrow> last_sync_version (tables (sdb s)) = 0 \<Longrightarrow> pair_reach (t, s)"
| pair_more: "pair_reach ps \<Longrightarrow> pair_step ps ps' \<Longrightarrow> pair_reach ps'"

definition plainCodes :: "tables \<Rightarrow> bool" where
  "plainCodes t \<longleftrightarrow> (\<forall>h \<in> set (t_checks t). hc_ExpectedCodes h = [200])"

definition pair_inv :: "tables \<times> secondary \<Rightarrow> bool" where
  "pair_inv = (\<lambda>(t, s). let v = last_sync_version (tables (sdb s))
     in 0 \<le> v \<and> v \<le> last_sync_version t \<and> (v \<noteq> 0 \<longrightarrow> plainCodes (tables (sdb s)))
        \<and> (v \<noteq> 0 \<and> v = last_sync_version t \<longrightarrow> dnsData (tables (sdb s)) = decoded (dnsData t)))"

lemma fullSync_result:
  assumes "fullSync cb now full s = (res, s')" and "cb = None \<or> cb = Some (syncComplete ids rx)"
  shows "tables (sdb s') = tables (sdb s) \<or>
    (\<exists>b. full = Fetched b \<and> last_sync_version (tables (sdb s')) = b_version b
         \<and> dnsData (tables (sdb s')) = decoded (dnsPart (b_data b)) \<and> plainCodes (tables (sdb s')))"
proof (cases full)
  case (Fetched b)
  show ?thesis
  proof (rule transaction_cases [of "fullSyncTx now b" "sdb s"])
    fix a t fs fs' fs''
    assume tx: "fullSyncTx now b (tables (sdb s)) fs = (Inr (a, t), fs')"
      and run: "transaction (fullSyncTx now b) (sdb s) = (Inr a, \<lparr>tables = t, faults = fs''\<rparr>)"
    from fullSyncTx_Inr [OF tx] dnsData_imported have "dnsData t = decoded (dnsPart (b_data b))" by blast
    moreover have "plainCodes t"
      using bare_rows(6) [OF fullSyncTx_Inr [OF tx]] by (auto simp: plainCodes_def imported_def wireCheck_def)
    moreover have "last_sync_version t = b_version b" 
      using arg_cong [OF fullSyncTx_Inr [OF tx], of last_sync_version] by simp
    moreover have "tables (sdb s') = t"
      using assms run Fetched syncComplete_db [of ids rx "with_sdb \<lparr>tables = t, faults = fs''\<rparr> s"]
      by (auto simp: fullSync_def)
    ultimately show ?thesis using Fetched by blast
  qed (use assms(1) Fetched in \<open>auto simp: fullSync_def\<close>)
qed (use assms in \<open>auto simp: fullSync_def\<close>)



lemma incrementalSync_result:
  assumes "incrementalSync cb now meta full s = (res, s')" and "cb = None \<or> cb = Some (syncComplete ids rx)"
  shows "tables (sdb s') = tables (sdb s) \<or>
    (\<exists>b. full = Fetched b \<and> last_sync_version (tables (sdb s')) = b_version b
         \<and> dnsData (tables (sdb s')) = decoded (dnsPart (b_data b)) \<and> plainCodes (tables (sdb s')))"
proof -
  obtain r d where r: "reader last_sync_version (sdb s) = (r, d)" and d: "tables d = tables (sdb s)"
    by (metis prod.collapse reader_tables)
  from assms(1) r consider "fullSync cb now full (with_sdb d s) = (res, s')" | "s' = with_sdb d s"
    by (auto simp: incrementalSync_def split: sum.splits if_splits fetched.splits prod.splits)
  then show ?thesis
  proof cases
    case 1
    from fullSync_result [OF 1 assms(2)] d show ?thesis by simp
  qed (simp add: d)
qed

lemma pair_inv_step: "pair_step ps ps' \<Longrightarrow> pair_inv ps \<Longrightarrow> pair_inv ps'"
proof (induction rule: pair_step.induct)
  case (pair_commit t t' s)
  from commit_announced [OF pair_commit(1)] pair_commit(2) show ?case
    by (auto simp: pair_inv_def announced_def Let_def)
next
  case (pair_local s' s t)
  then show ?case by (simp add: pair_inv_def plainCodes_def)
next
  case (pair_sync digest t fs os r p full cb ids rx now s res s' meta)
  let ?p0 = "\<lparr>pr_db = \<lparr>tables = t, faults = fs\<rparr>, pr_others = os\<rparr>"
  have oth: "\<forall>f \<in> set (pr_others ?p0). \<forall>u. announced u (f u)" using pair_sync(2) commit_announced by simp
  obtain r0 where "fullExport digest ?p0 = (r0, p)" using pair_sync(1) by (auto simp: GetFull_def split: prod.splits)
  from movesD(1) [OF moves_export(2) this oth] have t: "announced t (tables (pr_db p))" by simp
  from pair_sync(5) fullSync_result [OF _ pair_sync(4)] incrementalSync_result [OF _ pair_sync(4)]
  consider "tables (sdb s') = tables (sdb s)" | b where "full = Fetched b"
      "last_sync_version (tables (sdb s')) = b_version b" "dnsData (tables (sdb s')) = decoded (dnsPart (b_data b))"
      "plainCodes (tables (sdb s'))"
    by metis
  then show ?case
  proof cases
    case 1
    with t pair_sync.prems show ?thesis by (auto simp: pair_inv_def announced_def Let_def)
  next
    case 2
    with pair_sync(3) have "r = Ok b" by (auto simp: arrives_def split: reply.splits)
    note g = GetFull_Ok [OF pair_sync(1) [unfolded this] oth]
    with 2 pair_sync.prems show ?thesis by (auto simp: pair_inv_def Let_def)
  qed
qed

lemma pair_reach_inv: "pair_reach ps \<Longrightarrow> pair_inv ps"
proof (induction rule: pair_reach.induct)
  case (pair_more ps ps')
  then show ?case by (rule_tac pair_inv_step)
qed (simp add: pair_inv_def)

text \<open>
  C9: Equal versions mean equal exported data. In every history of a primary and a secondary that starts with
  an unsynced secondary, with commits of the primary at any point of an export (through the storages of zones, records and GSLB,
  or by synchronising ad-block lists), failures and lost or wrong answers, and with nothing written to the DNS tables
  of the secondary but by syncs (its read-only mode): when the secondary's version is not zero and equals the
  primary's, so that it does not ask for the data again, the exported columns of its zones, records, policies, pools, members and
  checks are the primary's (as decoded; the very same when their numbers are below \<open>2 ^ 53\<close>). Not exported are the times of last
  queries and the expected status codes: every check on the secondary expects status 200, whatever the primary's expects.
\<close>

theorem equal_version_equal_data:
  assumes "pair_reach (t, s)" and "last_sync_version (tables (sdb s)) \<noteq> 0"
    and "last_sync_version (tables (sdb s)) = last_sync_version t"
  shows "dnsData (tables (sdb s)) = decoded (dnsData t) \<and> (exact_rows t \<longrightarrow> dnsData (tables (sdb s)) = dnsData t)
       \<and> (\<forall>h \<in> set (t_checks (tables (sdb s))). hc_ExpectedCodes h = [200])"
  using pair_reach_inv [OF assms(1)] assms(2,3) decoded_exact by (auto simp: pair_inv_def plainCodes_def Let_def)



text \<open>A primary at version 7 and a secondary after its first sync.\<close>

definition sample_primary :: primary where
  "sample_primary = \<lparr>pr_db = sample_db\<lparr>tables := (tables sample_db)\<lparr>last_sync_version := 7\<rparr>\<rparr>, pr_others = []\<rparr>"

lemma sample_primary_ok:
  "calm sample_primary" "exportable (tables (pr_db sample_primary))" "exact_rows (tables (pr_db sample_primary))"
  "last_sync_version (tables (pr_db sample_primary)) = 7"
  using sample_exportable RecordStore.sample_ok
  by (simp_all add: sample_primary_def calm_def exportable_def zones_ok_def records_ok_def gslb_ok_def adblock_ok_def exact_rows_def)

lemma sample_secondary_new: "faults (sdb sample_secondary) = []" "last_sync_version (tables (sdb sample_secondary)) = 0"
  by (simp_all add: sdb_def sample_secondary_def sample_handler_def alias_db_def RecordStore.sample_ok)
    (simp add: sample_defs)

lemma sample_pair:
  obtains s' where "pair_reach (tables (pr_db sample_primary), s')" and "last_sync_version (tables (sdb s')) = 7"
proof (rule fullSync_calm [OF sample_primary_ok(1,2) sample_secondary_new(1), of "syncComplete [] plain_rx" 9 "\<lambda>_. ''d''"], goal_cases)
  case (1 u')
  let ?s = "syncComplete [] plain_rx (with_sdb \<lparr>tables = u', faults = []\<rparr> sample_secondary)"
  let ?t = "tables (pr_db sample_primary)"
  have p: "\<lparr>pr_db = \<lparr>tables = ?t, faults = []\<rparr>, pr_others = []\<rparr> = sample_primary"
    using RecordStore.sample_ok by (simp add: sample_primary_def)
  obtain r p' where g: "GetFull (\<lambda>_. ''d'') sample_primary = (r, p')" and p': "p' = sample_primary"
    using GetFull_calm [OF sample_primary_ok(1)] by blast
  have "fullSync (Some (syncComplete [] plain_rx)) 9 (arrives r) sample_secondary = (Inr (), ?s)"
    using 1(2) by (simp add: g)
  then have "pair_step (?t, sample_secondary) (tables (pr_db p'), ?s)"
    by (intro pair_sync [where digest = "\<lambda>_. ''d''" and fs = "[]" and os = "[]" and r = r and full = "arrives r"
        and cb = "Some (syncComplete [] plain_rx)" and now = 9 and res = "Inr ()"]) (simp_all add: p g)
  then have "pair_step (?t, sample_secondary) (?t, ?s)" by (simp add: p')
  moreover have "pair_reach (?t, sample_secondary)"
    using sample_primary_ok(4) sample_secondary_new(2) by (simp add: pair_start)
  ultimately show ?case
    using 1(1) [of ?s] 1(4) sample_primary_ok(4) syncComplete_db [of "[]" plain_rx "with_sdb \<lparr>tables = u', faults = []\<rparr> sample_secondary"]
    by (auto intro: pair_more)
qed

theorem equal_version_equal_data_witness:
  "\<exists>s. pair_reach (tables (pr_db sample_primary), s)
      \<and> dnsData (tables (sdb s)) = dnsData (tables (pr_db sample_primary))"
proof -
  obtain s' where s': "pair_reach (tables (pr_db sample_primary), s')" "last_sync_version (tables (sdb s')) = 7"
    by (rule sample_pair)
  from equal_version_equal_data [OF s'(1)] s' sample_primary_ok(3,4) show ?thesis by auto
qed



subsection \<open>One undisturbed sync is enough\<close>

lemma replica_dnsData: "replica t s \<Longrightarrow> dnsData s = dnsData t"
proof -
  assume r: "replica t s"
  have "map exportRecord (map exportRecord rs) = map exportRecord rs"
    and "map exportCheck (map defaultCodes hs) = map exportCheck hs" for rs hs
    by (induction rs, simp_all add: exportRecord_def) (induction hs, simp_all add: exportCheck_def defaultCodes_def)
  note e = this
  have "sort_key hc_ID (map exportCheck (sort_key hc_ID (map defaultCodes hs))) = sort_key hc_ID (map exportCheck hs)" for hs
    using e(2) [of "sort_key hc_ID hs"] by (simp add: sort_key_map [of hc_ID defaultCodes] defaultCodes_def del: map_map list.map_comp)
  with r e show ?thesis by (simp add: replica_def dnsData_eq del: map_map list.map_comp)
qed

text \<open>
  C11: One undisturbed periodic sync brings a secondary up to date, up to the status codes of health checks. In every state that a
  history of the pair can reach (commits of the primary also while it exports, failures, lost answers; no writes to the secondary's DNS tables but by syncs), when
  the primary's tables satisfy the schema and their numbers are below \<open>2 ^ 53\<close>, it commits nothing meanwhile and no call on either side fails,
  the next incremental sync succeeds and leaves the secondary with the primary's version and with the primary's zones, records,
  policies, pools, members and checks in all exported columns, whether it fetched the data or found the versions equal. Not exported
  are the times of last queries and the expected status codes: afterwards every check of the secondary expects status 200.
\<close>

theorem sync_converges:
  assumes "pair_reach (tables (pr_db p), s)" and "calm p" and "exportable (tables (pr_db p))" and "faults (sdb s) = []"
  shows "\<exists>s'. incrementalSync (Some (syncComplete ids rx)) now (arrives (fst (GetMetadata (pr_db p))))
                 (arrives (fst (GetFull digest p))) s = (Inr (), s')
           \<and> dnsData (tables (sdb s')) = dnsData (tables (pr_db p))
           \<and> last_sync_version (tables (sdb s')) = last_sync_version (tables (pr_db p))
           \<and> (\<forall>h \<in> set (t_checks (tables (sdb s'))). hc_ExpectedCodes h = [200])"
proof -
  let ?t = "tables (pr_db p)" and ?v = "last_sync_version (tables (sdb s))" and ?full = "arrives (fst (GetFull digest p))"
  have meta: "\<exists>k. arrives (fst (GetMetadata (pr_db p))) = Fetched (last_sync_version ?t, k)"
    using assms(2) by (simp add: GetMetadata_def GetSyncState_def calm_def arrives_def replyOf_def)
  have same: "with_sdb (sdb s) s = s" by (simp add: with_sdb_def sdb_def)
  show ?thesis
  proof (cases "?v \<noteq> 0 \<and> ?v = last_sync_version ?t")
    case True
    with pair_reach_inv [OF assms(1)] assms(3) have "dnsData (tables (sdb s)) = dnsData ?t"
      using decoded_exact [of ?t] by (auto simp: pair_inv_def exportable_def Let_def)
    moreover have "\<forall>h \<in> set (t_checks (tables (sdb s))). hc_ExpectedCodes h = [200]"
      using pair_reach_inv [OF assms(1)] True by (auto simp: pair_inv_def plainCodes_def Let_def)
    ultimately show ?thesis using True meta assms(4) same by (auto simp: incrementalSync_def)
  next
    case False
    obtain u' where run: "fullSync (Some (syncComplete ids rx)) now ?full s
        = (Inr (), syncComplete ids rx (with_sdb \<lparr>tables = u', faults = []\<rparr> s))"
      and u': "replica ?t u'" "last_sync_version u' = last_sync_version ?t"
      by (rule fullSync_calm [OF assms(2-4), of "syncComplete ids rx" now digest])
    have "incrementalSync (Some (syncComplete ids rx)) now (arrives (fst (GetMetadata (pr_db p)))) ?full s
        = fullSync (Some (syncComplete ids rx)) now ?full s"
      using False meta assms(4) same by (auto simp: incrementalSync_def)
    with run u' replica_dnsData [OF u'(1)] syncComplete_db [of ids rx "with_sdb \<lparr>tables = u', faults = []\<rparr> s"]
    show ?thesis using expected_codes_lost [OF u'(1)] by simp
  qed
qed

theorem sync_converges_witness:
  "\<exists>s'. incrementalSync (Some (syncComplete [] plain_rx)) 9 (arrives (fst (GetMetadata (pr_db sample_primary))))
            (arrives (fst (GetFull (\<lambda>_. ''d'') sample_primary))) sample_secondary = (Inr (), s')
        \<and> last_sync_version (tables (sdb s')) = 7"
proof -
  have "pair_reach (tables (pr_db sample_primary), sample_secondary)"
    using sample_primary_ok(4) sample_secondary_new(2) by (simp add: pair_start)
  from sync_converges [OF this sample_primary_ok(1,2) sample_secondary_new(1), of "[]" plain_rx 9 "\<lambda>_. ''d''"]
    sample_primary_ok(4) show ?thesis by auto
qed

subsection \<open>What versions do not announce\<close>

text \<open>
  Deleting an ad-block source on the primary removes its rules there but does not raise the
  version, so a secondary that compares versions keeps blocking by them.
\<close>

lemma source_deletion_unannounced:
  assumes "DeleteAdblockSource i d c = (r, d', c')"
    and "last_sync_version (tables (sdb s)) = last_sync_version (tables d)" "last_sync_version (tables d) \<noteq> 0"
    and "faults (sdb s) = []"
  shows "incrementalSync cb now (Fetched (last_sync_version (tables d'), k)) full s = (Inr (), s)"
proof -
  have "last_sync_version (tables d') = last_sync_version (tables d)"
    using assms(1) unfolding DeleteAdblockSource_def exec_then_def autocommit_def
    by (auto simp: tx_call_def tx_affected_def deleteSourceRow_def split: prod.splits sum.splits list.splits bool.splits if_splits)
  with assms(2-4) show ?thesis by (simp add: incrementalSync_def with_sdb_def sdb_def)
qed

end
