(* ===== verification/WebApi.thy ===== *)
theory WebApi
  imports SyncHistory
begin

section \<open>The web API: requests, zones and records (web/api.go, api\_zones.go, api\_records.go)\<close>

text \<open>
  A handler of the API is a computation on the API's state that may return early with an error
  response: \<open>'a handling\<close>, sequenced by \<open>hd_bind\<close> in the order of the code. A response is a
  status with the body's data, or a status with the error code of the body (the human-readable
  message is left out). A panic (the use of a nil pointer) is caught by gin's recovery and
  becomes status 500 without a body.

  The body of a request is an argument: \<open>None\<close> when \<^verbatim>\<open>ShouldBindJSON\<close> fails, else the decoded
  struct, with \<open>None\<close> for a nil pointer in it. A path parameter is a string.

  \<^verbatim>\<open>main.go\<close> hands one set of storages to the DNS handler and to the API, so the API's state holds
  the handler with the caches behind its pointers: \<open>hn_zones\<close>, \<open>hn_records\<close> and \<open>hn_gslb\<close> are the
  caches of \<^verbatim>\<open>zoneStorage\<close>, \<^verbatim>\<open>recordStorage\<close>, \<^verbatim>\<open>policyStorage\<close> and \<^verbatim>\<open>poolStorage\<close>, \<open>rs_cache\<close> of
  its resolver that of \<^verbatim>\<open>upstreamStorage\<close>, and \<open>hn_db\<close> is the database.
\<close>

record API =
  api_handler :: Handler
  api_dns :: bool
  api_adblock :: "AdblockCache option"
  api_syncer :: bool
  api_checks :: bool
  api_worker :: "HealthCheckWorker option"
  api_status :: "health_map option"
  api_readOnly :: bool

definition SetReadOnly :: "bool \<Rightarrow> API \<Rightarrow> API" where
  "SetReadOnly b a = a\<lparr>api_readOnly := b\<rparr>"

definition IsReadOnly :: "API \<Rightarrow> bool" where
  "IsReadOnly a = api_readOnly a"

definition adb :: "API \<Rightarrow> db" where
  "adb a = hn_db (api_handler a)"

subsection \<open>Responses and early returns\<close>

type_synonym 'a handling = "API \<Rightarrow> (int \<times> string + 'a) \<times> API"

definition hd_return :: "'a \<Rightarrow> 'a handling" where
  "hd_return x a = (Inr x, a)"

definition hd_bind :: "'a handling \<Rightarrow> ('a \<Rightarrow> 'b handling) \<Rightarrow> 'b handling" where
  "hd_bind m k a = (case m a of (Inl e, a') \<Rightarrow> (Inl e, a') | (Inr x, a') \<Rightarrow> k x a')"

definition respondError :: "int \<Rightarrow> string \<Rightarrow> 'a handling" where
  "respondError status code a = (Inl (status, code), a)"

definition respondBadRequest :: "'a handling" where
  "respondBadRequest = respondError 400 ''VALIDATION_ERROR''"

definition respondForbidden :: "'a handling" where
  "respondForbidden = respondError 403 ''FORBIDDEN''"

definition respondReadOnly :: "'a handling" where
  "respondReadOnly = respondForbidden"

definition respondNotFound :: "'a handling" where
  "respondNotFound = respondError 404 ''NOT_FOUND''"

definition respondInternalError :: "'a handling" where
  "respondInternalError = respondError 500 ''INTERNAL_ERROR''"

definition panicked :: "'a handling" where
  "panicked = respondError 500 ''''"

definition respondSuccess :: "int \<Rightarrow> 'a \<Rightarrow> (int \<times> 'a) handling" where
  "respondSuccess status data = hd_return (status, data)"

definition statusOf :: "int \<times> string + int \<times> 'a \<Rightarrow> int" where
  "statusOf r = (case r of Inl (s, _) \<Rightarrow> s | Inr (s, _) \<Rightarrow> s)"

text \<open>The first lines of every handler that writes, and the reading of parameters and bodies.\<close>

definition writable :: "unit handling" where
  "writable a = (if api_readOnly a then respondReadOnly a else hd_return () a)"

definition require :: "bool \<Rightarrow> unit handling" where
  "require ok = (if ok then hd_return () else respondBadRequest)"

definition idParam :: "string \<Rightarrow> rowid handling" where
  "idParam s = (case Atoi s of None \<Rightarrow> respondBadRequest | Some i \<Rightarrow> hd_return i)"

definition bindJSON :: "'r option \<Rightarrow> 'r handling" where
  "bindJSON b = (case b of None \<Rightarrow> respondBadRequest | Some r \<Rightarrow> hd_return r)"

definition found :: "'x option \<Rightarrow> 'x handling" where
  "found x = (case x of None \<Rightarrow> respondNotFound | Some y \<Rightarrow> hd_return y)"

definition nonNil :: "'x option \<Rightarrow> 'x handling" where
  "nonNil x = (case x of None \<Rightarrow> panicked | Some y \<Rightarrow> hd_return y)"

text \<open>\<open>if err != nil { respondInternalError }\<close>, and a call whose error is inspected by the caller.\<close>

definition ok500 :: "db_error + 'x \<Rightarrow> 'x handling" where
  "ok500 r = (case r of Inl _ \<Rightarrow> respondInternalError | Inr x \<Rightarrow> hd_return x)"

definition call :: "(API \<Rightarrow> (db_error + 'x) \<times> API) \<Rightarrow> (db_error + 'x) handling" where
  "call f a = (case f a of (r, a') \<Rightarrow> (Inr r, a'))"

definition run :: "(API \<Rightarrow> (db_error + 'x) \<times> API) \<Rightarrow> 'x handling" where
  "run f = hd_bind (call f) ok500"

subsection \<open>Calls into the storages\<close>

definition onDb :: "(db \<Rightarrow> (db_error + 'x) \<times> db) \<Rightarrow> API \<Rightarrow> (db_error + 'x) \<times> API" where
  "onDb f a =
     (case f (adb a) of (r, d) \<Rightarrow> (r, a\<lparr>api_handler := (api_handler a)\<lparr>hn_db := d\<rparr>\<rparr>))"

definition onZones :: "(db \<Rightarrow> ZoneCache \<Rightarrow> (db_error + 'x) \<times> db \<times> ZoneCache) \<Rightarrow> API \<Rightarrow> (db_error + 'x) \<times> API" where
  "onZones f a =
     (case f (adb a) (hn_zones (api_handler a)) of
        (r, d, c) \<Rightarrow> (r, a\<lparr>api_handler := (api_handler a)\<lparr>hn_db := d, hn_zones := c\<rparr>\<rparr>))"

definition onRecords :: "(db \<Rightarrow> RecordCache \<Rightarrow> (db_error + 'x) \<times> db \<times> RecordCache) \<Rightarrow> API \<Rightarrow> (db_error + 'x) \<times> API" where
  "onRecords f a =
     (case f (adb a) (hn_records (api_handler a)) of
        (r, d, c) \<Rightarrow> (r, a\<lparr>api_handler := (api_handler a)\<lparr>hn_db := d, hn_records := c\<rparr>\<rparr>))"

subsection \<open>Zones\<close>

definition normalizeFQDN :: "string \<Rightarrow> string" where
  "normalizeFQDN name0 =
     (let name = TrimSpace name0
      in if name = [] then [] else if \<not> HasSuffix name ''.'' then name @ ''.'' else name)"

definition removeFQDNDot :: "string \<Rightarrow> string" where
  "removeFQDNDot name = (if name = [] then [] else TrimSuffix name ''.'')"

record zoneRequest =
  zq_Name :: string
  zq_SOAMname :: string
  zq_SOARname :: string
  zq_SOASerial :: int
  zq_SOARefresh :: int
  zq_SOARetry :: int
  zq_SOAExpire :: int
  zq_SOAMinimum :: int
  zq_Enabled :: "bool option"
  zq_AllowFallback :: "bool option"

text \<open>\<open>zoneResponse\<close> has the fields of a zone.\<close>

type_synonym zoneResponse = Zone

definition toZoneResponse :: "Zone \<Rightarrow> zoneResponse" where
  "toZoneResponse z = z\<lparr>z_Name := removeFQDNDot (z_Name z), z_SOAMname := removeFQDNDot (z_SOAMname z),
     z_SOARname := removeFQDNDot (z_SOARname z)\<rparr>"

definition orElse :: "'x option \<Rightarrow> 'x \<Rightarrow> 'x" where
  "orElse x y = (case x of None \<Rightarrow> y | Some v \<Rightarrow> v)"

definition zoneOf :: "rowid \<Rightarrow> string \<Rightarrow> zoneRequest \<Rightarrow> Zone" where
  "zoneOf i name req =
     \<lparr>z_ID = i, z_Name = name, z_SOAMname = zq_SOAMname req, z_SOARname = zq_SOARname req,
      z_SOASerial = zq_SOASerial req, z_SOARefresh = zq_SOARefresh req, z_SOARetry = zq_SOARetry req,
      z_SOAExpire = zq_SOAExpire req, z_SOAMinimum = zq_SOAMinimum req, z_Enabled = orElse (zq_Enabled req) True,
      z_AllowFallback = orElse (zq_AllowFallback req) False, z_CreatedAt = 0, z_UpdatedAt = 0\<rparr>"

definition listZones :: "instant \<Rightarrow> (int \<times> zoneResponse list) handling" where
  "listZones now =
     hd_bind (run (onZones (ListZones now))) (\<lambda>zones. respondSuccess 200 (map toZoneResponse zones))"

definition getZone :: "string \<Rightarrow> (int \<times> zoneResponse) handling" where
  "getZone p =
     hd_bind (idParam p) (\<lambda>i.
     hd_bind (run (onDb (GetZone i))) (\<lambda>zone.
     hd_bind (found zone) (\<lambda>z. respondSuccess 200 (toZoneResponse z))))"

definition createZone :: "instant \<Rightarrow> zoneRequest option \<Rightarrow> (int \<times> zoneResponse) handling" where
  "createZone now body =
     hd_bind writable (\<lambda>_.
     hd_bind (bindJSON body) (\<lambda>req.
     let name = normalizeFQDN (zq_Name req)
     in hd_bind (require (name \<noteq> [])) (\<lambda>_.
        hd_bind (run (onZones (CreateZone now (zoneOf 0 name req)))) (\<lambda>i.
        hd_bind (run (onDb (GetZone i))) (\<lambda>created.
        hd_bind (nonNil created) (\<lambda>z. respondSuccess 201 (toZoneResponse z)))))))"

definition updateZone :: "instant \<Rightarrow> string \<Rightarrow> zoneRequest option \<Rightarrow> (int \<times> zoneResponse) handling" where
  "updateZone now p body =
     hd_bind writable (\<lambda>_.
     hd_bind (idParam p) (\<lambda>i.
     hd_bind (bindJSON body) (\<lambda>req.
     let name = normalizeFQDN (zq_Name req)
     in hd_bind (require (name \<noteq> [])) (\<lambda>_.
        hd_bind (run (onZones (UpdateZone now (zoneOf i name req)))) (\<lambda>_.
        hd_bind (run (onDb (GetZone i))) (\<lambda>updated.
        hd_bind (nonNil updated) (\<lambda>z. respondSuccess 200 (toZoneResponse z))))))))"

definition deleteZone :: "string \<Rightarrow> (int \<times> unit) handling" where
  "deleteZone p =
     hd_bind writable (\<lambda>_.
     hd_bind (idParam p) (\<lambda>i.
     hd_bind (run (onZones (DeleteZone i))) (\<lambda>_. respondSuccess 200 ())))"

subsection \<open>Records\<close>

definition validRecordTypes :: "string list" where
  "validRecordTypes = [''A'', ''AAAA'', ''CNAME'', ''MX'', ''TXT'', ''NS'', ''SOA'', ''SRV'', ''PTR'', ''CAA'']"

definition validateRecordType :: "string \<Rightarrow> bool" where
  "validateRecordType t \<longleftrightarrow> ToUpper t \<in> set validRecordTypes"

text \<open>The validators return a message; here, whether it is empty.\<close>

definition domainContent :: "string \<Rightarrow> bool" where
  "domainContent content \<longleftrightarrow> (let name = TrimSuffix content ''.'' in name \<noteq> [] \<and> CHR '' '' \<notin> set name)"

definition validSOA :: "string list \<Rightarrow> bool" where
  "validSOA parts \<longleftrightarrow> 7 \<le> length parts \<and> list_all (\<lambda>p. ParseUint 32 p \<noteq> None) (take 5 (drop 2 parts))"

definition validSRV :: "string list \<Rightarrow> bool" where
  "validSRV parts \<longleftrightarrow>
     (if length parts \<noteq> 3 \<and> length parts \<noteq> 4 then False
      else let n = (if length parts = 4 then 3 else 2)
           in list_all (\<lambda>p. ParseUint 16 p \<noteq> None) (take n parts) \<and> domainContent (parts ! n))"

definition validCAA :: "string list \<Rightarrow> bool" where
  "validCAA parts \<longleftrightarrow> (if length parts < 3 then False else ParseUint 8 (parts ! 0) \<noteq> None \<and> parts ! 1 \<noteq> [])"

definition validateRecordContent :: "string \<Rightarrow> string \<Rightarrow> bool" where
  "validateRecordContent recordType content =
     (let ty = ToUpper recordType
      in if ty = ''A'' then (case ParseIP content of None \<Rightarrow> False | Some a \<Rightarrow> is_v4 a)
         else if ty = ''AAAA'' then (case ParseIP content of None \<Rightarrow> False | Some a \<Rightarrow> \<not> is_v4 a)
         else if ty = ''CNAME'' \<or> ty = ''NS'' \<or> ty = ''PTR'' then domainContent content
         else if ty = ''MX'' then domainContent content
         else if ty = ''SOA'' then validSOA (Fields content)
         else if ty = ''SRV'' then validSRV (Fields content)
         else if ty = ''CAA'' then validCAA (Fields content)
         else True)"

definition validateRecordPriority :: "string \<Rightarrow> int \<Rightarrow> bool" where
  "validateRecordPriority recordType priority =
     (if priority < 0 then False
      else if ToUpper recordType = ''MX'' \<or> ToUpper recordType = ''SRV'' then priority \<le> 65535
      else True)"

record recordRequest =
  rq_Name :: string
  rq_Type :: string
  rq_Content :: string
  rq_TTL :: int
  rq_Priority :: int
  rq_Enabled :: "bool option"

type_synonym recordResponse = "Record \<times> zoneResponse option"

definition toRecordResponse :: "Record \<Rightarrow> Zone option \<Rightarrow> recordResponse" where
  "toRecordResponse r zone = (r\<lparr>r_Name := removeFQDNDot (r_Name r)\<rparr>, map_option toZoneResponse zone)"

definition recordOf :: "rowid \<Rightarrow> rowid \<Rightarrow> string \<Rightarrow> recordRequest \<Rightarrow> Record" where
  "recordOf i zid name req =
     \<lparr>r_ID = i, r_ZoneID = zid, r_Name = name, r_Type = ToUpper (rq_Type req), r_Content = rq_Content req,
      r_TTL = rq_TTL req, r_Priority = rq_Priority req, r_Enabled = orElse (rq_Enabled req) True,
      r_LastQueryAt = None, r_CreatedAt = 0, r_UpdatedAt = 0\<rparr>"

text \<open>The checks on a request that creating and updating share, in their order.\<close>

definition checkRecord :: "recordRequest \<Rightarrow> unit handling" where
  "checkRecord req =
     hd_bind (require (normalizeFQDN (rq_Name req) \<noteq> [])) (\<lambda>_.
     hd_bind (require (TrimSpace (rq_Type req) \<noteq> [])) (\<lambda>_.
     hd_bind (require (validateRecordType (rq_Type req))) (\<lambda>_.
     hd_bind (require (TrimSpace (rq_Content req) \<noteq> [])) (\<lambda>_.
     hd_bind (require (validateRecordContent (rq_Type req) (rq_Content req))) (\<lambda>_.
     hd_bind (require (0 \<le> rq_TTL req)) (\<lambda>_.
       require (validateRecordPriority (rq_Type req) (rq_Priority req))))))))"

text \<open>A failed look-up of the zone still returns the record, without the zone.\<close>

definition zoneOrNil :: "rowid \<Rightarrow> Zone option handling" where
  "zoneOrNil zid =
     hd_bind (call (onDb (GetZone zid))) (\<lambda>r. hd_return (case r of Inl _ \<Rightarrow> None | Inr zone \<Rightarrow> zone))"

fun recordResponses :: "Record list \<Rightarrow> (rowid \<rightharpoonup> Zone option) \<Rightarrow> recordResponse list handling" where
  "recordResponses [] seen = hd_return []"
| "recordResponses (r # rs) seen =
     hd_bind (case seen (r_ZoneID r) of Some zone \<Rightarrow> hd_return zone | None \<Rightarrow> zoneOrNil (r_ZoneID r)) (\<lambda>zone.
     hd_bind (recordResponses rs (seen(r_ZoneID r \<mapsto> zone))) (\<lambda>rest.
       hd_return (toRecordResponse r zone # rest)))"

definition listAllRecords :: "(int \<times> recordResponse list) handling" where
  "listAllRecords =
     hd_bind (run (onDb ListAllRecords)) (\<lambda>records.
     hd_bind (recordResponses records Map.empty) (\<lambda>responses. respondSuccess 200 responses))"

definition listRecords :: "instant \<Rightarrow> string \<Rightarrow> (int \<times> recordResponse list) handling" where
  "listRecords now p =
     hd_bind (idParam p) (\<lambda>zid.
     hd_bind (run (onRecords (GetRecordsByZone now zid))) (\<lambda>records.
     hd_bind (if records \<noteq> [] then zoneOrNil zid else hd_return None) (\<lambda>zone.
       respondSuccess 200 (map (\<lambda>r. toRecordResponse r zone) records))))"

definition createRecord :: "instant \<Rightarrow> string \<Rightarrow> recordRequest option \<Rightarrow> (int \<times> recordResponse) handling" where
  "createRecord now p body =
     hd_bind writable (\<lambda>_.
     hd_bind (idParam p) (\<lambda>zid.
     hd_bind (bindJSON body) (\<lambda>req.
     hd_bind (run (onDb (GetZone zid))) (\<lambda>zone.
     hd_bind (found zone) (\<lambda>z.
     hd_bind (checkRecord req) (\<lambda>_.
     hd_bind (run (onRecords (CreateRecord now (recordOf 0 zid (normalizeFQDN (rq_Name req)) req)))) (\<lambda>i.
     hd_bind (run (onDb (GetRecord i))) (\<lambda>created.
     hd_bind (nonNil created) (\<lambda>r. respondSuccess 201 (toRecordResponse r (Some z)))))))))))"

definition updateRecord :: "instant \<Rightarrow> string \<Rightarrow> recordRequest option \<Rightarrow> (int \<times> recordResponse) handling" where
  "updateRecord now p body =
     hd_bind writable (\<lambda>_.
     hd_bind (idParam p) (\<lambda>i.
     hd_bind (bindJSON body) (\<lambda>req.
     hd_bind (checkRecord req) (\<lambda>_.
     hd_bind (run (onDb (GetRecord i))) (\<lambda>stored.
     hd_bind (found stored) (\<lambda>existing.
     hd_bind (run (onRecords (UpdateRecord now (recordOf i (r_ZoneID existing) (normalizeFQDN (rq_Name req)) req)))) (\<lambda>_.
     hd_bind (run (onDb (GetRecord i))) (\<lambda>updated.
     hd_bind (nonNil updated) (\<lambda>r.
     hd_bind (zoneOrNil (r_ZoneID r)) (\<lambda>zone. respondSuccess 200 (toRecordResponse r zone)))))))))))"

definition deleteRecord :: "string \<Rightarrow> (int \<times> unit) handling" where
  "deleteRecord p =
     hd_bind writable (\<lambda>_.
     hd_bind (idParam p) (\<lambda>i.
     hd_bind (run (onRecords (DeleteRecord i))) (\<lambda>_. respondSuccess 200 ())))"

end
