(* ===== verification/WebGslb.thy ===== *)
theory WebGslb
  imports WebApi
begin

section \<open>The web API: GSLB and health checks (web/api\_gslb.go, api\_health.go)\<close>

text \<open>
  Policies, pools, members and health checks. The policy and pool storages are made together, so
  both are nil or neither (\<open>hn_gslb\<close>).
\<close>

definition gslbReady :: "unit handling" where
  "gslbReady a = (if hn_gslb (api_handler a) = None then respondInternalError a else hd_return () a)"

definition onPolicies ::
  "(db \<Rightarrow> PolicyCache \<Rightarrow> (db_error + 'x) \<times> db \<times> PolicyCache) \<Rightarrow> API \<Rightarrow> (db_error + 'x) \<times> API" where
  "onPolicies f a =
     (case hn_gslb (api_handler a) of
        None \<Rightarrow> (Inl QueryFailed, a)
      | Some (pc, m) \<Rightarrow>
          (case f (adb a) pc of
             (r, d, pc') \<Rightarrow> (r, a\<lparr>api_handler := (api_handler a)\<lparr>hn_db := d, hn_gslb := Some (pc', m)\<rparr>\<rparr>)))"

definition onPools ::
  "(db \<Rightarrow> PoolCache \<Rightarrow> (db_error + 'x) \<times> db \<times> PoolCache) \<Rightarrow> API \<Rightarrow> (db_error + 'x) \<times> API" where
  "onPools f a =
     (case hn_gslb (api_handler a) of
        None \<Rightarrow> (Inl QueryFailed, a)
      | Some (pc, m) \<Rightarrow>
          (case f (adb a) m of
             (r, d, m') \<Rightarrow> (r, a\<lparr>api_handler := (api_handler a)\<lparr>hn_db := d, hn_gslb := Some (pc, m')\<rparr>\<rparr>)))"

subsection \<open>Policies\<close>

record policyRequest =
  pq_Name :: string
  pq_Domain :: string
  pq_RecordType :: string
  pq_TTL :: int
  pq_Enabled :: "bool option"

definition policyType :: "policyRequest \<Rightarrow> string" where
  "policyType req = (let ty = ToUpper (TrimSpace (pq_RecordType req)) in if ty = [] then ''A'' else ty)"

definition checkPolicy :: "policyRequest \<Rightarrow> unit handling" where
  "checkPolicy req =
     hd_bind (require (TrimSpace (pq_Name req) \<noteq> [] \<and> TrimSpace (pq_Domain req) \<noteq> [])) (\<lambda>_.
     hd_bind (require (normalizeFQDN (pq_Domain req) \<noteq> [])) (\<lambda>_.
     hd_bind (require (policyType req = ''A'' \<or> policyType req = ''AAAA'')) (\<lambda>_.
       require (0 \<le> pq_TTL req))))"

definition policyOf :: "rowid \<Rightarrow> policyRequest \<Rightarrow> GSLBPolicy" where
  "policyOf i req =
     \<lparr>p_ID = i, p_Name = pq_Name req, p_Domain = normalizeFQDN (pq_Domain req), p_RecordType = policyType req,
      p_TTL = pq_TTL req, p_Enabled = orElse (pq_Enabled req) True, p_CreatedAt = 0\<rparr>"

definition listPolicies :: "instant \<Rightarrow> (int \<times> GSLBPolicy list) handling" where
  "listPolicies now =
     hd_bind gslbReady (\<lambda>_.
     hd_bind (run (onPolicies (ListPolicies now))) (\<lambda>ps. respondSuccess 200 ps))"

definition createPolicy :: "instant \<Rightarrow> policyRequest option \<Rightarrow> (int \<times> GSLBPolicy option) handling" where
  "createPolicy now body =
     hd_bind writable (\<lambda>_.
     hd_bind gslbReady (\<lambda>_.
     hd_bind (bindJSON body) (\<lambda>req.
     hd_bind (checkPolicy req) (\<lambda>_.
     hd_bind (run (onPolicies (CreatePolicy now (policyOf 0 req)))) (\<lambda>i.
     hd_bind (run (onDb (GetPolicy i))) (\<lambda>created. respondSuccess 201 created))))))"

definition updatePolicy :: "string \<Rightarrow> policyRequest option \<Rightarrow> (int \<times> GSLBPolicy option) handling" where
  "updatePolicy p body =
     hd_bind writable (\<lambda>_.
     hd_bind gslbReady (\<lambda>_.
     hd_bind (idParam p) (\<lambda>i.
     hd_bind (bindJSON body) (\<lambda>req.
     hd_bind (checkPolicy req) (\<lambda>_.
     hd_bind (run (onPolicies (UpdatePolicy (policyOf i req)))) (\<lambda>_.
     hd_bind (run (onDb (GetPolicy i))) (\<lambda>updated. respondSuccess 200 updated)))))))"

definition deletePolicy :: "string \<Rightarrow> (int \<times> unit) handling" where
  "deletePolicy p =
     hd_bind writable (\<lambda>_.
     hd_bind gslbReady (\<lambda>_.
     hd_bind (idParam p) (\<lambda>i.
     hd_bind (run (onPolicies (DeletePolicy i))) (\<lambda>_. respondSuccess 200 ()))))"

subsection \<open>Pools\<close>

record poolRequest =
  lq_Name :: string
  lq_MatchType :: string
  lq_MatchValue :: string
  lq_Priority :: int
  lq_FallbackPool :: bool

definition poolMatch :: "poolRequest \<Rightarrow> string" where
  "poolMatch req = ToLower (TrimSpace (lq_MatchType req))"

definition checkPool :: "poolRequest \<Rightarrow> unit handling" where
  "checkPool req =
     hd_bind (require (TrimSpace (lq_Name req) \<noteq> [] \<and> TrimSpace (lq_MatchType req) \<noteq> [])) (\<lambda>_.
     hd_bind (require (poolMatch req \<in> set [''cidr'', ''geo_country'', ''geo_continent'', ''default'', ''fallback''])) (\<lambda>_.
     hd_bind (require (poolMatch req = ''cidr'' \<longrightarrow> TrimSpace (lq_MatchValue req) \<noteq> [])) (\<lambda>_.
     hd_bind (require (poolMatch req = ''cidr'' \<longrightarrow> ParseCIDR (lq_MatchValue req) \<noteq> None)) (\<lambda>_.
       require (0 \<le> lq_Priority req)))))"

definition poolOf :: "rowid \<Rightarrow> rowid \<Rightarrow> poolRequest \<Rightarrow> GSLBPool" where
  "poolOf i policyID req =
     \<lparr>pl_ID = i, pl_PolicyID = policyID, pl_Name = lq_Name req, pl_MatchType = poolMatch req,
      pl_MatchValue = lq_MatchValue req, pl_Priority = lq_Priority req,
      pl_FallbackPool = (if poolMatch req = ''fallback'' then True else lq_FallbackPool req)\<rparr>"

definition listPools :: "instant \<Rightarrow> string \<Rightarrow> (int \<times> GSLBPool list) handling" where
  "listPools now p =
     hd_bind gslbReady (\<lambda>_.
     hd_bind (idParam p) (\<lambda>policyID.
     hd_bind (run (onPools (GetPoolsByPolicy now policyID))) (\<lambda>ps. respondSuccess 200 ps)))"

definition createPool :: "string \<Rightarrow> poolRequest option \<Rightarrow> (int \<times> GSLBPool option) handling" where
  "createPool p body =
     hd_bind writable (\<lambda>_.
     hd_bind gslbReady (\<lambda>_.
     hd_bind (idParam p) (\<lambda>policyID.
     hd_bind (bindJSON body) (\<lambda>req.
     hd_bind (checkPool req) (\<lambda>_.
     hd_bind (run (onPools (CreatePool (poolOf 0 policyID req)))) (\<lambda>i.
     hd_bind (run (onDb (GetPool i))) (\<lambda>created. respondSuccess 201 created)))))))"

definition updatePool :: "string \<Rightarrow> poolRequest option \<Rightarrow> (int \<times> GSLBPool option) handling" where
  "updatePool p body =
     hd_bind writable (\<lambda>_.
     hd_bind gslbReady (\<lambda>_.
     hd_bind (idParam p) (\<lambda>i.
     hd_bind (bindJSON body) (\<lambda>req.
     hd_bind (checkPool req) (\<lambda>_.
     hd_bind (run (onPools (UpdatePool (poolOf i 0 req)))) (\<lambda>_.
     hd_bind (run (onDb (GetPool i))) (\<lambda>updated. respondSuccess 200 updated)))))))"

definition deletePool :: "string \<Rightarrow> (int \<times> unit) handling" where
  "deletePool p =
     hd_bind writable (\<lambda>_.
     hd_bind gslbReady (\<lambda>_.
     hd_bind (idParam p) (\<lambda>i.
     hd_bind (run (onPools (DeletePool i))) (\<lambda>_. respondSuccess 200 ()))))"

subsection \<open>Members\<close>

record memberRequest =
  mq_Address :: string
  mq_Weight :: int
  mq_Enabled :: "bool option"

definition checkMember :: "memberRequest \<Rightarrow> unit handling" where
  "checkMember req =
     hd_bind (require (TrimSpace (mq_Address req) \<noteq> [])) (\<lambda>_.
     hd_bind (require (ParseIP (mq_Address req) \<noteq> None)) (\<lambda>_.
       require (\<not> (mq_Weight req < 0 \<or> mq_Weight req > 100))))"

definition memberOf :: "rowid \<Rightarrow> rowid \<Rightarrow> memberRequest \<Rightarrow> GSLBMember" where
  "memberOf i poolID req =
     \<lparr>mb_ID = i, mb_PoolID = poolID, mb_Address = mq_Address req, mb_Weight = mq_Weight req,
      mb_Enabled = orElse (mq_Enabled req) True\<rparr>"

definition listMembers :: "instant \<Rightarrow> string \<Rightarrow> (int \<times> GSLBMember list) handling" where
  "listMembers now p =
     hd_bind gslbReady (\<lambda>_.
     hd_bind (idParam p) (\<lambda>poolID.
     hd_bind (run (onPools (GetMembersByPool now poolID))) (\<lambda>ms. respondSuccess 200 ms)))"

definition createMember :: "string \<Rightarrow> memberRequest option \<Rightarrow> (int \<times> GSLBMember option) handling" where
  "createMember p body =
     hd_bind writable (\<lambda>_.
     hd_bind gslbReady (\<lambda>_.
     hd_bind (idParam p) (\<lambda>poolID.
     hd_bind (bindJSON body) (\<lambda>req.
     hd_bind (checkMember req) (\<lambda>_.
     hd_bind (run (onPools (CreateMember (memberOf 0 poolID req)))) (\<lambda>i.
     hd_bind (run (onDb (GetMember i))) (\<lambda>created. respondSuccess 201 created)))))))"

definition updateMember :: "string \<Rightarrow> memberRequest option \<Rightarrow> (int \<times> GSLBMember option) handling" where
  "updateMember p body =
     hd_bind writable (\<lambda>_.
     hd_bind gslbReady (\<lambda>_.
     hd_bind (idParam p) (\<lambda>i.
     hd_bind (bindJSON body) (\<lambda>req.
     hd_bind (checkMember req) (\<lambda>_.
     hd_bind (run (onDb (GetMember i))) (\<lambda>stored.
     hd_bind (found stored) (\<lambda>existing.
     hd_bind (run (onPools (UpdateMember (memberOf i (mb_PoolID existing) req)))) (\<lambda>_.
     hd_bind (run (onDb (GetMember i))) (\<lambda>updated. respondSuccess 200 updated)))))))))"

definition deleteMember :: "string \<Rightarrow> (int \<times> unit) handling" where
  "deleteMember p =
     hd_bind writable (\<lambda>_.
     hd_bind gslbReady (\<lambda>_.
     hd_bind (idParam p) (\<lambda>i.
     hd_bind (run (onPools (DeleteMember i))) (\<lambda>_. respondSuccess 200 ()))))"

subsection \<open>Health checks\<close>

record healthCheckRequest =
  hq_CheckType :: string
  hq_Target :: string
  hq_IntervalSec :: int
  hq_TimeoutSec :: int
  hq_HealthyThreshold :: int
  hq_UnhealthyThreshold :: int
  hq_ExpectedCodes :: "int list"
  hq_Enabled :: "bool option"

definition checksReady :: "unit handling" where
  "checksReady a = (if api_checks a then hd_return () a else respondInternalError a)"

definition requestType :: "healthCheckRequest \<Rightarrow> string" where
  "requestType req = ToLower (TrimSpace (hq_CheckType req))"

definition checkHealthCheck :: "healthCheckRequest \<Rightarrow> unit handling" where
  "checkHealthCheck req =
     hd_bind (require (requestType req \<noteq> [])) (\<lambda>_.
     hd_bind (require (requestType req \<in> set [''http'', ''https'', ''tcp''])) (\<lambda>_.
     hd_bind (require (TrimSpace (hq_Target req) \<noteq> [])) (\<lambda>_.
     hd_bind (require (\<not> hq_IntervalSec req \<le> 0)) (\<lambda>_.
     hd_bind (require (\<not> hq_TimeoutSec req \<le> 0)) (\<lambda>_.
     hd_bind (require (\<not> hq_TimeoutSec req \<ge> hq_IntervalSec req)) (\<lambda>_.
     hd_bind (require (\<not> hq_HealthyThreshold req \<le> 0)) (\<lambda>_.
     hd_bind (require (\<not> hq_UnhealthyThreshold req \<le> 0)) (\<lambda>_.
       require (requestType req = ''http'' \<or> requestType req = ''https'' \<longrightarrow>
                list_all (\<lambda>code. \<not> (code < 100 \<or> code > 599)) (hq_ExpectedCodes req))))))))))"

definition checkOf :: "rowid \<Rightarrow> rowid \<Rightarrow> bool \<Rightarrow> healthCheckRequest \<Rightarrow> HealthCheck" where
  "checkOf i policyID enabled req =
     \<lparr>hc_ID = i, hc_PolicyID = policyID, hc_CheckType = requestType req, hc_Target = hq_Target req,
      hc_IntervalSec = hq_IntervalSec req, hc_TimeoutSec = hq_TimeoutSec req,
      hc_HealthyThreshold = hq_HealthyThreshold req, hc_UnhealthyThreshold = hq_UnhealthyThreshold req,
      hc_ExpectedCodes = hq_ExpectedCodes req, hc_Enabled = enabled\<rparr>"

text \<open>\<open>if api.healthWorker != nil { ... }\<close>; a nil check makes the worker panic.\<close>

definition tellWorker :: "(HealthCheck \<Rightarrow> HealthCheckWorker \<Rightarrow> HealthCheckWorker) \<Rightarrow> HealthCheck option \<Rightarrow> unit handling" where
  "tellWorker f check a =
     (case api_worker a of
        None \<Rightarrow> hd_return () a
      | Some w \<Rightarrow>
          (case check of
             None \<Rightarrow> panicked a
           | Some h \<Rightarrow> hd_return () (a\<lparr>api_worker := Some (f h w)\<rparr>)))"

definition dropFromWorker :: "rowid \<Rightarrow> unit handling" where
  "dropFromWorker i a = hd_return () (a\<lparr>api_worker := map_option (RemoveCheck i) (api_worker a)\<rparr>)"

definition getHealthStatus :: "(int \<times> health_map) handling" where
  "getHealthStatus a =
     (case api_status a of None \<Rightarrow> respondInternalError a | Some hs \<Rightarrow> respondSuccess 200 hs a)"

definition listHealthChecks :: "(int \<times> HealthCheck list) handling" where
  "listHealthChecks =
     hd_bind checksReady (\<lambda>_.
     hd_bind (run (onDb ListHealthChecks)) (\<lambda>hs. respondSuccess 200 hs))"

definition createHealthCheck :: "string \<Rightarrow> healthCheckRequest option \<Rightarrow> (int \<times> HealthCheck option) handling" where
  "createHealthCheck p body =
     hd_bind writable (\<lambda>_.
     hd_bind checksReady (\<lambda>_.
     hd_bind (idParam p) (\<lambda>policyID.
     hd_bind (bindJSON body) (\<lambda>req.
     hd_bind (checkHealthCheck req) (\<lambda>_.
     hd_bind (run (onDb (CreateHealthCheck (checkOf 0 policyID (orElse (hq_Enabled req) True) req)))) (\<lambda>i.
     hd_bind (run (onDb (GetHealthCheck i))) (\<lambda>created.
     hd_bind (tellWorker AddCheck created) (\<lambda>_. respondSuccess 201 created))))))))"

definition updateHealthCheck :: "string \<Rightarrow> healthCheckRequest option \<Rightarrow> (int \<times> HealthCheck option) handling" where
  "updateHealthCheck p body =
     hd_bind writable (\<lambda>_.
     hd_bind checksReady (\<lambda>_.
     hd_bind (idParam p) (\<lambda>i.
     hd_bind (bindJSON body) (\<lambda>req.
     hd_bind (checkHealthCheck req) (\<lambda>_.
     hd_bind (run (onDb (GetHealthCheck i))) (\<lambda>stored.
     hd_bind (found stored) (\<lambda>existing.
     hd_bind (run (onDb (UpdateHealthCheck
        (checkOf i (hc_PolicyID existing) (orElse (hq_Enabled req) (hc_Enabled existing)) req)))) (\<lambda>_.
     hd_bind (run (onDb (GetHealthCheck i))) (\<lambda>updated.
     hd_bind (tellWorker UpdateCheck updated) (\<lambda>_. respondSuccess 200 updated))))))))))"

definition deleteHealthCheck :: "string \<Rightarrow> (int \<times> unit) handling" where
  "deleteHealthCheck p =
     hd_bind writable (\<lambda>_.
     hd_bind checksReady (\<lambda>_.
     hd_bind (idParam p) (\<lambda>i.
     hd_bind (dropFromWorker i) (\<lambda>_.
     hd_bind (run (onDb (DeleteHealthCheck i))) (\<lambda>_. respondSuccess 200 ())))))"

end
