(* ===== verification/WebRest.thy ===== *)
theory WebRest
  imports WebGslb
begin

section \<open>The web API: upstreams, cache, ad-block, statistics (web/api\_*.go)\<close>

text \<open>
  The rest of the API. Parameters stand for the exchange with an upstream server (\<open>exchange\<close>)
  and for the scheme that \<^verbatim>\<open>url.ParseRequestURI\<close> finds in a URL (\<open>scheme\<close>).
\<close>

subsection \<open>Upstream servers (api\_upstream.go)\<close>

definition onUpstreams ::
  "(db \<Rightarrow> UpstreamCache \<Rightarrow> (db_error + 'x) \<times> db \<times> UpstreamCache) \<Rightarrow> API \<Rightarrow> (db_error + 'x) \<times> API" where
  "onUpstreams f a =
     (case f (adb a) (rs_cache (hn_resolver (api_handler a))) of
        (r, d, c) \<Rightarrow> (r, a\<lparr>api_handler := (api_handler a)
            \<lparr>hn_db := d, hn_resolver := (hn_resolver (api_handler a))\<lparr>rs_cache := c\<rparr>\<rparr>\<rparr>))"

record upstreamRequest =
  uq_Name :: string
  uq_Address :: string
  uq_Protocol :: string
  uq_Priority :: int
  uq_Enabled :: "bool option"

definition requestProtocol :: "upstreamRequest \<Rightarrow> string" where
  "requestProtocol req =
     (let protocol = ToLower (TrimSpace (uq_Protocol req)) in if protocol = [] then ''udp'' else protocol)"

definition checkUpstream :: "upstreamRequest \<Rightarrow> unit handling" where
  "checkUpstream req =
     (let address = TrimSpace (uq_Address req)
      in hd_bind (require (TrimSpace (uq_Name req) \<noteq> [] \<and> address \<noteq> [])) (\<lambda>_.
         hd_bind (bindJSON (SplitHostPort address)) (\<lambda>(host, port).
         hd_bind (require (ParseIP host \<noteq> None)) (\<lambda>_.
         hd_bind (require (case Atoi port of None \<Rightarrow> False | Some p \<Rightarrow> \<not> (p < 1 \<or> p > 65535))) (\<lambda>_.
         hd_bind (require (requestProtocol req \<in> set [''udp'', ''tcp'', ''tcp-tls''])) (\<lambda>_.
           require (0 \<le> uq_Priority req)))))))"

definition upstreamOf :: "rowid \<Rightarrow> upstreamRequest \<Rightarrow> UpstreamServer" where
  "upstreamOf i req =
     \<lparr>u_ID = i, u_Name = TrimSpace (uq_Name req), u_Address = TrimSpace (uq_Address req),
      u_Protocol = requestProtocol req, u_Priority = uq_Priority req, u_Enabled = orElse (uq_Enabled req) True,
      u_CreatedAt = 0, u_UpdatedAt = 0\<rparr>"

definition listUpstreams :: "instant \<Rightarrow> (int \<times> UpstreamServer list) handling" where
  "listUpstreams now =
     hd_bind (run (onUpstreams (ListUpstreamServers now))) (\<lambda>servers. respondSuccess 200 servers)"

definition createUpstream :: "instant \<Rightarrow> upstreamRequest option \<Rightarrow> (int \<times> UpstreamServer option) handling" where
  "createUpstream now body =
     hd_bind (bindJSON body) (\<lambda>req.
     hd_bind (checkUpstream req) (\<lambda>_.
     hd_bind (run (onUpstreams (CreateUpstreamServer now (upstreamOf 0 req)))) (\<lambda>i.
     hd_bind (run (onDb (GetUpstreamServer i))) (\<lambda>created. respondSuccess 201 created))))"

definition updateUpstream :: "instant \<Rightarrow> string \<Rightarrow> upstreamRequest option \<Rightarrow> (int \<times> UpstreamServer option) handling" where
  "updateUpstream now p body =
     hd_bind (idParam p) (\<lambda>i.
     hd_bind (bindJSON body) (\<lambda>req.
     hd_bind (checkUpstream req) (\<lambda>_.
     hd_bind (run (onUpstreams (UpdateUpstreamServer now (upstreamOf i req)))) (\<lambda>_.
     hd_bind (run (onDb (GetUpstreamServer i))) (\<lambda>updated. respondSuccess 200 updated)))))"

definition deleteUpstream :: "string \<Rightarrow> (int \<times> unit) handling" where
  "deleteUpstream p =
     hd_bind (idParam p) (\<lambda>i.
     hd_bind (run (onUpstreams (DeleteUpstreamServer i))) (\<lambda>_. respondSuccess 200 ()))"

definition queryUpstream :: "dnslib \<Rightarrow> (string \<Rightarrow> string \<Rightarrow> Msg \<Rightarrow> Msg option) \<Rightarrow> string \<Rightarrow> string \<Rightarrow> Msg option" where
  "queryUpstream lib exchange address protocol =
     exchange protocol address (lib_SetQuestion lib ''example.com.'' TypeA)"

text \<open>The response code, the number of answers and the protocol; the measured latency is left out.\<close>

definition testUpstream ::
  "dnslib \<Rightarrow> (string \<Rightarrow> string \<Rightarrow> Msg \<Rightarrow> Msg option) \<Rightarrow> string \<Rightarrow> (int \<times> string \<times> nat \<times> string) handling" where
  "testUpstream lib exchange p =
     hd_bind (idParam p) (\<lambda>i.
     hd_bind (run (onDb (GetUpstreamServer i))) (\<lambda>stored.
     hd_bind (found stored) (\<lambda>server.
       case queryUpstream lib exchange (u_Address server) (u_Protocol server) of
         None \<Rightarrow> respondError 502 ''UPSTREAM_ERROR''
       | Some resp \<Rightarrow>
           respondSuccess 200 (lib_RcodeToString lib (m_Rcode resp), length (m_Answer resp), u_Protocol server))))"

subsection \<open>The cache (api\_cache.go)\<close>

record cacheSettingsRequest =
  cq_Enabled :: "bool option"
  cq_MaxSize :: "int option"
  cq_DefaultTTL :: "int option"
  cq_MinTTL :: "int option"
  cq_MaxTTL :: "int option"
  cq_NegativeTTL :: "int option"
  cq_PrefetchTrigger :: "rat option"

definition toCacheSettings :: "cacheSettingsRequest \<Rightarrow> CacheSettings \<Rightarrow> CacheSettings" where
  "toCacheSettings req current = current
     \<lparr>cs_Enabled := orElse (cq_Enabled req) (cs_Enabled current),
      cs_MaxSize := orElse (cq_MaxSize req) (cs_MaxSize current),
      cs_DefaultTTL := orElse (cq_DefaultTTL req) (cs_DefaultTTL current),
      cs_MinTTL := orElse (cq_MinTTL req) (cs_MinTTL current),
      cs_MaxTTL := orElse (cq_MaxTTL req) (cs_MaxTTL current),
      cs_NegativeTTL := orElse (cq_NegativeTTL req) (cs_NegativeTTL current),
      cs_PrefetchTrigger := orElse (cq_PrefetchTrigger req) (cs_PrefetchTrigger current)\<rparr>"

definition ifGiven :: "('v \<Rightarrow> bool) \<Rightarrow> 'v option \<Rightarrow> bool" where
  "ifGiven P x = (case x of None \<Rightarrow> True | Some v \<Rightarrow> P v)"

definition checkSettings :: "cacheSettingsRequest \<Rightarrow> unit handling" where
  "checkSettings req =
     hd_bind (require (ifGiven (\<lambda>n. \<not> n \<le> 0) (cq_MaxSize req))) (\<lambda>_.
     hd_bind (require (ifGiven (\<lambda>n. \<not> n < 0) (cq_DefaultTTL req))) (\<lambda>_.
     hd_bind (require (ifGiven (\<lambda>n. \<not> n < 0) (cq_MinTTL req))) (\<lambda>_.
     hd_bind (require (ifGiven (\<lambda>n. \<not> n < 0) (cq_MaxTTL req))) (\<lambda>_.
     hd_bind (require (ifGiven (\<lambda>n. \<not> n < 0) (cq_NegativeTTL req))) (\<lambda>_.
       require (ifGiven (\<lambda>x. \<not> (x < 0 \<or> x > 1)) (cq_PrefetchTrigger req)))))))"

definition getCacheSettings :: "instant \<Rightarrow> (int \<times> CacheSettings) handling" where
  "getCacheSettings now =
     hd_bind (run (onDb (GetCacheSettings now))) (\<lambda>settings. respondSuccess 200 settings)"

text \<open>\<open>if api.dnsHandler != nil { ... }\<close>\<close>

definition reconfigure :: "CacheSettings \<Rightarrow> unit handling" where
  "reconfigure s a =
     hd_return () (if api_dns a then a\<lparr>api_handler := fst (ReconfigureCache (Some s) (api_handler a))\<rparr> else a)"

definition updateCacheSettings :: "instant \<Rightarrow> cacheSettingsRequest option \<Rightarrow> (int \<times> CacheSettings) handling" where
  "updateCacheSettings now body =
     hd_bind (bindJSON body) (\<lambda>req.
     hd_bind (checkSettings req) (\<lambda>_.
     hd_bind (run (onDb (GetCacheSettings now))) (\<lambda>current.
     hd_bind (call (onDb (UpdateCacheSettings now (toCacheSettings req current)))) (\<lambda>r.
     hd_bind (require (\<not> isl r)) (\<lambda>_.
     hd_bind (run (onDb (GetCacheSettings now))) (\<lambda>updated.
     hd_bind (reconfigure updated) (\<lambda>_. respondSuccess 200 updated)))))))"

definition dnsReady :: "unit handling" where
  "dnsReady a = (if api_dns a then hd_return () a else respondInternalError a)"

definition clearCache :: "(int \<times> unit) handling" where
  "clearCache =
     hd_bind dnsReady (\<lambda>_ a. respondSuccess 200 () (a\<lparr>api_handler := ClearCache (api_handler a)\<rparr>))"

text \<open>A disabled cache is a nil pointer, and its use a panic.\<close>

definition clearCacheDomain :: "string \<Rightarrow> (int \<times> unit) handling" where
  "clearCacheDomain domain =
     hd_bind dnsReady (\<lambda>_.
     hd_bind (require (domain \<noteq> [])) (\<lambda>_ a.
       case GetCache (api_handler a) of
         None \<Rightarrow> panicked a
       | Some c \<Rightarrow> respondSuccess 200 () (a\<lparr>api_handler := (api_handler a)\<lparr>hn_cache := Some (cacheDelete domain c)\<rparr>\<rparr>)))"

definition getCacheStats :: "(int \<times> CacheStats) handling" where
  "getCacheStats =
     hd_bind dnsReady (\<lambda>_ a.
       case GetCache (api_handler a) of None \<Rightarrow> panicked a | Some c \<Rightarrow> respondSuccess 200 (GetStats c) a)"

definition getStats :: "(int \<times> QueryStats \<times> CacheStats) handling" where
  "getStats a =
     (case hn_stats (api_handler a) of
        None \<Rightarrow> respondInternalError a
      | Some qs \<Rightarrow>
          if \<not> api_dns a then respondInternalError a
          else (case GetCache (api_handler a) of
                  None \<Rightarrow> panicked a
                | Some c \<Rightarrow> respondSuccess 200 (qs, GetStats c) a))"

subsection \<open>Ad-block lists (api\_adblock.go)\<close>

definition onAdblock ::
  "(db \<Rightarrow> AdblockCache \<Rightarrow> (db_error + 'x) \<times> db \<times> AdblockCache) \<Rightarrow> API \<Rightarrow> (db_error + 'x) \<times> API" where
  "onAdblock f a =
     (case api_adblock a of
        None \<Rightarrow> (Inl QueryFailed, a)
      | Some c \<Rightarrow>
          (case f (adb a) c of
             (r, d, c') \<Rightarrow> (r, a\<lparr>api_handler := (api_handler a)\<lparr>hn_db := d\<rparr>, api_adblock := Some c'\<rparr>)))"

definition adblockReady :: "unit handling" where
  "adblockReady a = (if api_adblock a = None then respondInternalError a else hd_return () a)"

record adblockSourceRequest =
  bq_Name :: string
  bq_URL :: string
  bq_Enabled :: "bool option"

definition checkSource :: "(string \<Rightarrow> string option) \<Rightarrow> adblockSourceRequest \<Rightarrow> unit handling" where
  "checkSource scheme req =
     hd_bind (require (TrimSpace (bq_Name req) \<noteq> [] \<and> TrimSpace (bq_URL req) \<noteq> [])) (\<lambda>_.
       require (scheme (bq_URL req) = Some ''http'' \<or> scheme (bq_URL req) = Some ''https''))"

text \<open>The responses carry the source; the parsing of \<^verbatim>\<open>last_modified\<close> into a time is left out.\<close>

definition listAdblockSources :: "instant \<Rightarrow> (int \<times> AdblockSource list) handling" where
  "listAdblockSources now =
     hd_bind adblockReady (\<lambda>_.
     hd_bind (run (onAdblock (ListAdblockSources now))) (\<lambda>sources. respondSuccess 200 sources))"

definition createAdblockSource ::
  "(string \<Rightarrow> string option) \<Rightarrow> instant \<Rightarrow> adblockSourceRequest option \<Rightarrow> (int \<times> AdblockSource) handling" where
  "createAdblockSource scheme now body =
     hd_bind adblockReady (\<lambda>_.
     hd_bind (bindJSON body) (\<lambda>req.
     hd_bind (checkSource scheme req) (\<lambda>_.
     hd_bind (run (onAdblock (CreateAdblockSource now
        \<lparr>as_ID = 0, as_Name = bq_Name req, as_URL = bq_URL req, as_Enabled = orElse (bq_Enabled req) True,
         as_LastSync = None, as_LastModified = None, as_RuleCount = 0, as_CreatedAt = 0, as_UpdatedAt = 0\<rparr>))) (\<lambda>i.
     hd_bind (run (onDb (GetAdblockSource i))) (\<lambda>created.
     hd_bind (nonNil created) (\<lambda>s. respondSuccess 201 s))))))"

definition updateAdblockSource ::
  "(string \<Rightarrow> string option) \<Rightarrow> instant \<Rightarrow> string \<Rightarrow> adblockSourceRequest option \<Rightarrow> (int \<times> AdblockSource) handling" where
  "updateAdblockSource scheme now p body =
     hd_bind adblockReady (\<lambda>_.
     hd_bind (idParam p) (\<lambda>i.
     hd_bind (bindJSON body) (\<lambda>req.
     hd_bind (checkSource scheme req) (\<lambda>_.
     hd_bind (run (onDb (GetAdblockSource i))) (\<lambda>stored.
     hd_bind (found stored) (\<lambda>existing.
     hd_bind (run (onAdblock (UpdateAdblockSource now (existing
        \<lparr>as_Name := bq_Name req, as_URL := bq_URL req,
         as_Enabled := orElse (bq_Enabled req) (as_Enabled existing)\<rparr>)))) (\<lambda>_.
     hd_bind (run (onDb (GetAdblockSource i))) (\<lambda>updated.
     hd_bind (nonNil updated) (\<lambda>s. respondSuccess 200 s)))))))))"

definition deleteAdblockSource :: "string \<Rightarrow> (int \<times> unit) handling" where
  "deleteAdblockSource p =
     hd_bind adblockReady (\<lambda>_.
     hd_bind (idParam p) (\<lambda>i.
     hd_bind (run (onAdblock (DeleteAdblockSource i))) (\<lambda>_. respondSuccess 200 ())))"

text \<open>
  The request only starts the download; \<open>sourceDownload\<close> is what the started goroutine does. It is not part
  of the request, so the steps of the API do not run it; the histories of a primary in \<open>SyncHistory\<close> have
  \<^verbatim>\<open>SyncSource\<close> and \<^verbatim>\<open>SyncAll\<close> as steps of their own.
\<close>

definition syncAdblockSource :: "string \<Rightarrow> (int \<times> rowid) handling" where
  "syncAdblockSource p =
     hd_bind (\<lambda>a. if api_syncer a then hd_return () a else respondInternalError a) (\<lambda>_.
     hd_bind (idParam p) (\<lambda>i. respondSuccess 202 i))"

definition sourceDownload :: "regexp \<Rightarrow> http_get \<Rightarrow> bool \<Rightarrow> instant \<Rightarrow> rowid \<Rightarrow> API \<Rightarrow> API" where
  "sourceDownload rx get primary now i a =
     (case (api_adblock a, hn_filter (api_handler a)) of
        (Some c, Some f) \<Rightarrow>
          (case SyncSource rx get primary now i (adb a) c f of
             (_, d, c', f') \<Rightarrow> a\<lparr>api_handler := (api_handler a)\<lparr>hn_db := d, hn_filter := Some f'\<rparr>, api_adblock := Some c'\<rparr>)
      | _ \<Rightarrow> a)"

definition getAdblockStats :: "string \<Rightarrow> (int \<times> (string \<times> int) list) handling" where
  "getAdblockStats v =
     hd_bind adblockReady (\<lambda>_.
     hd_bind (run (onDb (GetBlockedStats (if v = [] then 10 else orElse (Atoi v) 10)))) (\<lambda>stats. respondSuccess 200 stats))"

definition latestSync :: "AdblockSource list \<Rightarrow> instant" where
  "latestSync sources =
     foldl (\<lambda>latest src. case as_LastSync src of None \<Rightarrow> latest | Some t \<Rightarrow> if t > latest then t else latest) 0 sources"

definition getAdblockStatus :: "instant \<Rightarrow> (int \<times> nat \<times> int \<times> instant) handling" where
  "getAdblockStatus now =
     hd_bind adblockReady (\<lambda>_.
     hd_bind (run (onDb GetBlockedDomainCount)) (\<lambda>count.
     hd_bind (run (onAdblock (ListAdblockSources now))) (\<lambda>sources.
       respondSuccess 200 (length sources, count, latestSync sources))))"

end
