(* ===== verification/WebRouter.thy ===== *)
theory WebRouter
  imports WebRest
begin

section \<open>The routes of the API (web/router.go)\<close>

text \<open>
  A request is the route it matches with the path parameter and the decoded body; \<open>NewRouter\<close>
  calls the route's handler. \<open>outside\<close> holds what the handlers take from outside the program. The routes of the
  group of zones, records, upstream servers, cache, statistics, GSLB and ad-block lists are here; the query log has its own
  state and is in \<open>WebLogs\<close>, the sync routes of a primary are in \<open>SyncExport\<close>, and the routes \<^verbatim>\<open>/metrics\<close>,
  \<^verbatim>\<open>/test/\<close> and \<^verbatim>\<open>/api/server/info\<close> and the middleware are not modelled.
\<close>

datatype endpoint =
    GET_zones | GET_zone string | POST_zones "zoneRequest option"
  | PUT_zone string "zoneRequest option" | DELETE_zone string
  | GET_records | GET_zone_records string | POST_zone_records string "recordRequest option"
  | PUT_record string "recordRequest option" | DELETE_record string
  | GET_upstreams | POST_upstreams "upstreamRequest option" | PUT_upstream string "upstreamRequest option"
  | DELETE_upstream string | POST_upstream_test string
  | GET_cache_settings | PUT_cache_settings "cacheSettingsRequest option"
  | POST_cache_clear | POST_cache_clear_domain string | GET_cache_stats | GET_stats
  | GET_policies | POST_policies "policyRequest option" | PUT_policy string "policyRequest option" | DELETE_policy string
  | GET_pools string | POST_pools string "poolRequest option" | PUT_pool string "poolRequest option" | DELETE_pool string
  | GET_members string | POST_members string "memberRequest option" | PUT_member string "memberRequest option"
  | DELETE_member string | GET_health | GET_healthchecks
  | POST_healthcheck string "healthCheckRequest option" | PUT_healthcheck string "healthCheckRequest option"
  | DELETE_healthcheck string
  | GET_sources | POST_sources "adblockSourceRequest option" | PUT_source string "adblockSourceRequest option"
  | DELETE_source string | POST_source_sync string | GET_adblock_stats string | GET_adblock_status

text \<open>The status of a response.\<close>

definition status :: "(int \<times> 'a) handling \<Rightarrow> API \<Rightarrow> int \<times> API" where
  "status m a = (case m a of (r, a') \<Rightarrow> (statusOf r, a'))"

record outside =
  o_lib :: dnslib
  o_exchange :: "string \<Rightarrow> string \<Rightarrow> Msg \<Rightarrow> Msg option"
  o_scheme :: "string \<Rightarrow> string option"
  o_now :: instant

primrec NewRouter :: "outside \<Rightarrow> endpoint \<Rightarrow> API \<Rightarrow> int \<times> API" where
  "NewRouter w GET_zones = status (listZones (o_now w))"
| "NewRouter w (GET_zone p) = status (getZone p)"
| "NewRouter w (POST_zones b) = status (createZone (o_now w) b)"
| "NewRouter w (PUT_zone p b) = status (updateZone (o_now w) p b)"
| "NewRouter w (DELETE_zone p) = status (deleteZone p)"
| "NewRouter w GET_records = status listAllRecords"
| "NewRouter w (GET_zone_records p) = status (listRecords (o_now w) p)"
| "NewRouter w (POST_zone_records p b) = status (createRecord (o_now w) p b)"
| "NewRouter w (PUT_record p b) = status (updateRecord (o_now w) p b)"
| "NewRouter w (DELETE_record p) = status (deleteRecord p)"
| "NewRouter w GET_upstreams = status (listUpstreams (o_now w))"
| "NewRouter w (POST_upstreams b) = status (createUpstream (o_now w) b)"
| "NewRouter w (PUT_upstream p b) = status (updateUpstream (o_now w) p b)"
| "NewRouter w (DELETE_upstream p) = status (deleteUpstream p)"
| "NewRouter w (POST_upstream_test p) = status (testUpstream (o_lib w) (o_exchange w) p)"
| "NewRouter w GET_cache_settings = status (getCacheSettings (o_now w))"
| "NewRouter w (PUT_cache_settings b) = status (updateCacheSettings (o_now w) b)"
| "NewRouter w POST_cache_clear = status clearCache"
| "NewRouter w (POST_cache_clear_domain p) = status (clearCacheDomain p)"
| "NewRouter w GET_cache_stats = status getCacheStats"
| "NewRouter w GET_stats = status getStats"
| "NewRouter w GET_policies = status (listPolicies (o_now w))"
| "NewRouter w (POST_policies b) = status (createPolicy (o_now w) b)"
| "NewRouter w (PUT_policy p b) = status (updatePolicy p b)"
| "NewRouter w (DELETE_policy p) = status (deletePolicy p)"
| "NewRouter w (GET_pools p) = status (listPools (o_now w) p)"
| "NewRouter w (POST_pools p b) = status (createPool p b)"
| "NewRouter w (PUT_pool p b) = status (updatePool p b)"
| "NewRouter w (DELETE_pool p) = status (deletePool p)"
| "NewRouter w (GET_members p) = status (listMembers (o_now w) p)"
| "NewRouter w (POST_members p b) = status (createMember p b)"
| "NewRouter w (PUT_member p b) = status (updateMember p b)"
| "NewRouter w (DELETE_member p) = status (deleteMember p)"
| "NewRouter w GET_health = status getHealthStatus"
| "NewRouter w GET_healthchecks = status listHealthChecks"
| "NewRouter w (POST_healthcheck p b) = status (createHealthCheck p b)"
| "NewRouter w (PUT_healthcheck p b) = status (updateHealthCheck p b)"
| "NewRouter w (DELETE_healthcheck p) = status (deleteHealthCheck p)"
| "NewRouter w GET_sources = status (listAdblockSources (o_now w))"
| "NewRouter w (POST_sources b) = status (createAdblockSource (o_scheme w) (o_now w) b)"
| "NewRouter w (PUT_source p b) = status (updateAdblockSource (o_scheme w) (o_now w) p b)"
| "NewRouter w (DELETE_source p) = status (deleteAdblockSource p)"
| "NewRouter w (POST_source_sync p) = status (syncAdblockSource p)"
| "NewRouter w (GET_adblock_stats v) = status (getAdblockStats v)"
| "NewRouter w GET_adblock_status = status (getAdblockStatus (o_now w))"

end
