(* ===== verification/WebProps.thy ===== *)
theory WebProps
  imports WebRouter
begin

section \<open>What every request of the API keeps\<close>

text \<open>
  Every request is a sequence of calls (\<open>api_step\<close>): the handlers are split once into the calls
  they make, and what the calls keep, whole requests and histories of requests keep. This gives the
  safety of the read-only mode, the schema with the announcement of every change, and the
  freshness of the caches that the DNS handler shares with the API.
\<close>

subsection \<open>The calls a request is made of\<close>

text \<open>The tables with the DNS data, with their key counters and the version.\<close>

definition dnsTables where
  "dnsTables t = (t_zones t, t_records t, t_policies t, t_pools t, t_members t, t_checks t,
     map (t_seq t) [TZones, TRecords, TPolicies, TPools, TMembers, TChecks], last_sync_version t)"

text \<open>A call that touches neither these tables nor the caches of zones and records.\<close>

definition aside :: "API \<Rightarrow> API \<Rightarrow> bool" where
  "aside a a' \<longleftrightarrow> api_readOnly a' = api_readOnly a \<and> dnsTables (tables (adb a')) = dnsTables (tables (adb a))
     \<and> hn_zones (api_handler a') = hn_zones (api_handler a) \<and> hn_records (api_handler a') = hn_records (api_handler a)"

text \<open>
  One call of a request that changes the state. Calls that write zones, records or GSLB rows are
  only made by an API that is not read-only; an update keeps the zone of the record it read.
\<close>

inductive api_step :: "API \<Rightarrow> API \<Rightarrow> bool" where
  api_aside: "aside a a' \<Longrightarrow> api_step a a'"
| api_zone_list: "onZones (ListZones now) a = (r, a') \<Longrightarrow> api_step a a'"
| api_zone_create: "\<not> api_readOnly a \<Longrightarrow> onZones (CreateZone now z) a = (i, a') \<Longrightarrow> api_step a a'"
| api_zone_update: "\<not> api_readOnly a \<Longrightarrow> onZones (UpdateZone now z) a = (u, a') \<Longrightarrow> api_step a a'"
| api_zone_delete: "\<not> api_readOnly a \<Longrightarrow> onZones (DeleteZone j) a = (u, a') \<Longrightarrow> api_step a a'"
| api_record_list: "onRecords (GetRecordsByZone now j) a = (rs, a') \<Longrightarrow> api_step a a'"
| api_record_create: "\<not> api_readOnly a \<Longrightarrow> onRecords (CreateRecord now x) a = (i, a') \<Longrightarrow> api_step a a'"
| api_record_update: "\<not> api_readOnly a \<Longrightarrow> onRecords (UpdateRecord now x) a = (u, a') \<Longrightarrow>
    find (\<lambda>y. r_ID y = r_ID x) (t_records (tables (adb a))) = Some y \<Longrightarrow> r_ZoneID x = r_ZoneID y \<Longrightarrow> api_step a a'"
| api_record_delete: "\<not> api_readOnly a \<Longrightarrow> onRecords (DeleteRecord j) a = (u, a') \<Longrightarrow> api_step a a'"
| api_gslb_write: "\<not> api_readOnly a \<Longrightarrow> gslb_step (adb a, pc, m) (d', pc', m') \<Longrightarrow>
    a' = a\<lparr>api_handler := (api_handler a)\<lparr>hn_db := d', hn_gslb := g\<rparr>\<rparr> \<Longrightarrow> api_step a a'"
| api_clear: "api_step a (a\<lparr>api_handler := ClearCache (api_handler a)\<rparr>)"

definition keeps :: "(API \<Rightarrow> 'r \<times> API) \<Rightarrow> bool" where
  "keeps m \<longleftrightarrow> (\<forall>a. api_step\<^sup>*\<^sup>* a (snd (m a)))"

definition keepsW :: "(API \<Rightarrow> 'r \<times> API) \<Rightarrow> bool" where
  "keepsW m \<longleftrightarrow> (\<forall>a. \<not> api_readOnly a \<longrightarrow> api_step\<^sup>*\<^sup>* a (snd (m a)))"

lemma keeps_step: "(\<And>a r a'. m a = (r, a') \<Longrightarrow> api_step a a') \<Longrightarrow> keeps m"
  unfolding keeps_def by (metis prod.collapse r_into_rtranclp)

lemma keepsW_step: "(\<And>a r a'. \<not> api_readOnly a \<Longrightarrow> m a = (r, a') \<Longrightarrow> api_step a a') \<Longrightarrow> keepsW m"
  unfolding keepsW_def by (metis prod.collapse r_into_rtranclp)

lemma on_role:
  "onDb f a = (r, a') \<Longrightarrow> api_readOnly a' = api_readOnly a"
  "onZones g a = (r, a') \<Longrightarrow> api_readOnly a' = api_readOnly a"
  "onRecords h a = (r, a') \<Longrightarrow> api_readOnly a' = api_readOnly a"
  by (auto simp: onDb_def onZones_def onRecords_def split: prod.splits)

lemma api_step_role: "api_step a a' \<Longrightarrow> api_readOnly a' = api_readOnly a"
  by (induction rule: api_step.induct) (auto simp: aside_def dest: on_role)

lemma api_steps_role: "api_step\<^sup>*\<^sup>* a a' \<Longrightarrow> api_readOnly a' = api_readOnly a"
  by (induction rule: rtranclp_induct) (auto dest: api_step_role)

lemma keeps_pure: "(\<And>a. snd (m a) = a) \<Longrightarrow> keeps m"
  by (simp add: keeps_def)

lemma keepsW_keeps: "keeps m \<Longrightarrow> keepsW m"
  by (simp add: keeps_def keepsW_def)

lemma keeps_bind:
  assumes "keeps m" and "\<And>x. keeps (k x)"
  shows "keeps (hd_bind m k)"
  unfolding keeps_def
proof
  fix a :: API
  obtain r b where m: "m a = (r, b)" by fastforce
  with assms(1) have "api_step\<^sup>*\<^sup>* a b" unfolding keeps_def by (metis snd_conv)
  with m assms(2) show "api_step\<^sup>*\<^sup>* a (snd (hd_bind m k a))"
    by (cases r) (auto simp: hd_bind_def keeps_def intro: rtranclp_trans)
qed

lemma keepsW_bind:
  assumes "keepsW m" and "\<And>x. keepsW (k x)"
  shows "keepsW (hd_bind m k)"
  unfolding keepsW_def
proof (intro allI impI)
  fix a :: API
  assume role: "\<not> api_readOnly a"
  obtain r b where m: "m a = (r, b)" by fastforce
  with assms(1) role have s: "api_step\<^sup>*\<^sup>* a b" unfolding keepsW_def by (metis snd_conv)
  with role have "\<not> api_readOnly b" by (simp add: api_steps_role)
  with s m assms(2) show "api_step\<^sup>*\<^sup>* a (snd (hd_bind m k a))"
    by (cases r) (auto simp: hd_bind_def keepsW_def intro: rtranclp_trans)
qed

lemma keeps_guarded: "(\<And>x. keepsW (k x)) \<Longrightarrow> keeps (hd_bind writable k)"
  by (auto simp: keeps_def keepsW_def hd_bind_def writable_def respondReadOnly_def respondForbidden_def respondError_def
      hd_return_def)

lemma keeps_values [simp]:
  "keeps (hd_return x)" "keeps (respondError s e)" "keeps respondBadRequest" "keeps respondForbidden"
  "keeps respondReadOnly" "keeps respondNotFound" "keeps respondInternalError" "keeps panicked"
  "keeps (respondSuccess s y)" "keeps (require P)" "keeps (idParam t)" "keeps (bindJSON j)"
  "keeps (found z)" "keeps (nonNil z)" "keeps (ok500 v)" "keeps gslbReady" "keeps checksReady" "keeps dnsReady"
  "keeps adblockReady" "keeps getHealthStatus" "keeps getCacheStats" "keeps getStats"
  by (auto intro!: keeps_pure simp: hd_return_def respondError_def respondBadRequest_def respondForbidden_def
      respondReadOnly_def respondNotFound_def respondInternalError_def panicked_def respondSuccess_def
      require_def idParam_def bindJSON_def found_def nonNil_def ok500_def gslbReady_def checksReady_def dnsReady_def
      adblockReady_def getHealthStatus_def getCacheStats_def getStats_def hd_bind_def
      split: option.splits sum.splits)

lemma keeps_call: "keeps f \<Longrightarrow> keeps (call f)"
  by (simp add: keeps_def call_def case_prod_beta)

lemma keeps_run: "keeps f \<Longrightarrow> keeps (run f)"
  by (simp add: run_def keeps_bind keeps_call)

lemma keepsW_run: "keepsW f \<Longrightarrow> keepsW (run f)"
  unfolding run_def by (rule keepsW_bind) (simp_all add: keepsW_keeps, simp add: keepsW_def call_def case_prod_beta)

lemma keeps_status: "keeps m \<Longrightarrow> keeps (status m)"
  by (simp add: keeps_def status_def case_prod_beta)

subsection \<open>Calls that stay aside\<close>

lemma aside_refl [simp]: "aside a a"
  by (simp add: aside_def)

lemma aside_with_db [simp]:
  "aside a (a\<lparr>api_handler := (api_handler a)\<lparr>hn_db := d\<rparr>\<rparr>) \<longleftrightarrow> dnsTables (tables d) = dnsTables (tables (adb a))"
  "aside a (a\<lparr>api_handler := (api_handler a)\<lparr>hn_db := d, hn_gslb := g\<rparr>\<rparr>) \<longleftrightarrow> dnsTables (tables d) = dnsTables (tables (adb a))"
  "aside a (a\<lparr>api_handler := (api_handler a)\<lparr>hn_db := d, hn_resolver := rv\<rparr>\<rparr>) \<longleftrightarrow> dnsTables (tables d) = dnsTables (tables (adb a))"
  "aside a (a\<lparr>api_handler := (api_handler a)\<lparr>hn_db := d\<rparr>, api_adblock := c\<rparr>) \<longleftrightarrow> dnsTables (tables d) = dnsTables (tables (adb a))"
  "aside a (a\<lparr>api_worker := w\<rparr>)" "aside a (a\<lparr>api_handler := (api_handler a)\<lparr>hn_cache := hc\<rparr>\<rparr>)"
  by (simp_all add: aside_def adb_def)

lemma exec_then_dnsTables:
  assumes "exec_then (tx_call e stmt) inspect iv d c = (r, d', c')"
    and "\<And>x t'. stmt (tables d) = Inr (x, t') \<Longrightarrow> dnsTables t' = dnsTables (tables d)"
    and "\<And>x t fs u t' fs'. inspect x t fs = (Inr (u, t'), fs') \<Longrightarrow> t' = t"
  shows "dnsTables (tables d') = dnsTables (tables d)"
proof (cases rule: autocommit_cases [of "tx_call e stmt" d])
  case (failed e fs)
  with assms(1) show ?thesis by (auto simp: exec_then_def)
next
  case (committed x t fs)
  from assms(2) tx_call_Inr [OF committed(1)] have t: "dnsTables t = dnsTables (tables d)" by simp
  show ?thesis
    by (cases rule: autocommit_cases [of "inspect x" "\<lparr>tables = t, faults = fs\<rparr>"])
      (use assms(1) committed(2) t in \<open>auto simp: exec_then_def dest!: assms(3)\<close>)
qed

lemma upstream_dnsTables:
  "CreateUpstreamServer now u d c = (r, d', c') \<Longrightarrow> dnsTables (tables d') = dnsTables (tables d)"
  "UpdateUpstreamServer now u d c = (n, d', c') \<Longrightarrow> dnsTables (tables d') = dnsTables (tables d)"
  "DeleteUpstreamServer i d c = (n, d', c') \<Longrightarrow> dnsTables (tables d') = dnsTables (tables d)"
  unfolding CreateUpstreamServer_def UpdateUpstreamServer_def DeleteUpstreamServer_def
  by (erule exec_then_dnsTables;
      auto simp: insertUpstream_def updateUpstreamRow_def deleteUpstreamRow_def take_id_def dnsTables_def Let_def
        dest!: tx_ok_Inr tx_affected_Inr)+

lemma source_dnsTables:
  "CreateAdblockSource now s d c = (r, d', c') \<Longrightarrow> dnsTables (tables d') = dnsTables (tables d)"
  "UpdateAdblockSource now s d c = (n, d', c') \<Longrightarrow> dnsTables (tables d') = dnsTables (tables d)"
  "DeleteAdblockSource i d c = (n, d', c') \<Longrightarrow> dnsTables (tables d') = dnsTables (tables d)"
  unfolding CreateAdblockSource_def UpdateAdblockSource_def DeleteAdblockSource_def
  by (erule exec_then_dnsTables;
      auto simp: insertSource_def updateSourceRow_def deleteSourceRow_def take_id_def dnsTables_def Let_def
        split: if_splits dest!: tx_ok_Inr tx_affected_Inr)+

lemma autocommit_dnsTables:
  assumes "autocommit stmt d = (v, d')"
    and "\<And>x t fs fs'. stmt (tables d) fs = (Inr (x, t), fs') \<Longrightarrow> dnsTables t = dnsTables (tables d)"
  shows "dnsTables (tables d') = dnsTables (tables d)"
  by (cases rule: autocommit_cases [of stmt d]) (use assms in auto)

lemma settings_rows_dnsTables:
  "autocommit (tx_call e (updateSettingsRow now s)) d = (v, d') \<Longrightarrow> dnsTables (tables d') = dnsTables (tables d)"
  "autocommit (tx_call e (insertSettingsRow now s)) d = (w, d') \<Longrightarrow> dnsTables (tables d') = dnsTables (tables d)"
  "autocommit (tx_ok e) d = (u, d') \<Longrightarrow> dnsTables (tables d') = dnsTables (tables d)"
  by (erule autocommit_dnsTables;
      auto simp: updateSettingsRow_def insertSettingsRow_def dnsTables_def split: option.splits dest!: tx_call_Inr tx_ok_Inr)+

lemma settings_dnsTables:
  "UpdateCacheSettings now s d = (r, d') \<Longrightarrow> dnsTables (tables d') = dnsTables (tables d)"
  by (auto simp: UpdateCacheSettings_def split: sum.splits prod.splits if_splits dest!: settings_rows_dnsTables)

text \<open>What the calls do to the API's state.\<close>

lemma keeps_reader: "keeps (onDb (reader q))"
  by (rule keeps_step, rule api_aside) (auto simp: onDb_def split: prod.splits dest!: reader_tables)

lemma keeps_reads [simp]:
  "keeps (onDb (GetZone i))" "keeps (onDb (GetRecord i))" "keeps (onDb ListAllRecords)" "keeps (onDb (GetPolicy i))"
  "keeps (onDb (GetPool i))" "keeps (onDb (GetMember i))" "keeps (onDb (GetHealthCheck i))" "keeps (onDb ListHealthChecks)"
  "keeps (onDb (GetUpstreamServer i))" "keeps (onDb (GetCacheSettings now))" "keeps (onDb (GetAdblockSource i))"
  "keeps (onDb (GetBlockedStats n))" "keeps (onDb GetBlockedDomainCount)"
  by (simp_all add: keeps_reader GetZone_def GetRecord_def ListAllRecords_def GetPolicy_def GetPool_def GetMember_def
      GetHealthCheck_def ListHealthChecks_def GetUpstreamServer_def GetCacheSettings_def GetAdblockSource_def
      GetBlockedStats_def GetBlockedDomainCount_def)

lemma keeps_lists [simp]:
  "keeps (onPolicies (ListPolicies now))" "keeps (onPools (GetPoolsByPolicy now i))" "keeps (onPools (GetMembersByPool now i))"
  "keeps (onUpstreams (ListUpstreamServers now))" "keeps (onAdblock (ListAdblockSources now))"
  by (rule keeps_step, rule api_aside,
      auto simp: onPolicies_def onPools_def onUpstreams_def onAdblock_def ListPolicies_def GetPoolsByPolicy_def
        GetMembersByPool_def ListUpstreamServers_def ListAdblockSources_def
        split: prod.splits option.splits sum.splits dest!: reader_tables read_through_tables)+

lemma keeps_cached_lists [simp]:
  "keeps (onZones (ListZones now))" "keeps (onRecords (GetRecordsByZone now j))"
  by (auto intro: keeps_step api_zone_list api_record_list)

lemma keeps_aside_writes [simp]:
  "keeps (onUpstreams (CreateUpstreamServer now u))" "keeps (onUpstreams (UpdateUpstreamServer now u))"
  "keeps (onUpstreams (DeleteUpstreamServer i))" "keeps (onAdblock (CreateAdblockSource now s))"
  "keeps (onAdblock (UpdateAdblockSource now s))" "keeps (onAdblock (DeleteAdblockSource i))"
  "keeps (onDb (UpdateCacheSettings now cs))" "keeps (reconfigure cs)" "keeps (tellWorker f h)" "keeps (dropFromWorker i)"
  by (rule keeps_step, rule api_aside,
      auto simp: onUpstreams_def onAdblock_def onDb_def reconfigure_def tellWorker_def dropFromWorker_def hd_return_def
        panicked_def respondError_def ReconfigureCache_def
        split: prod.splits option.splits if_splits dest!: upstream_dnsTables source_dnsTables settings_dnsTables)+

lemma keeps_clears [simp]: "keeps clearCache" "keeps (clearCacheDomain n)"
proof -
  have "keeps (\<lambda>a. respondSuccess 200 () (a\<lparr>api_handler := ClearCache (api_handler a)\<rparr>))"
    by (rule keeps_step) (auto simp: respondSuccess_def hd_return_def api_clear)
  then show "keeps clearCache" unfolding clearCache_def by (intro keeps_bind) simp_all
  have "keeps (\<lambda>a. case GetCache (api_handler a) of None \<Rightarrow> panicked a
      | Some c \<Rightarrow> respondSuccess 200 () (a\<lparr>api_handler := (api_handler a)\<lparr>hn_cache := Some (cacheDelete n c)\<rparr>\<rparr>))"
    by (rule keeps_step, rule api_aside)
      (auto simp: respondSuccess_def hd_return_def panicked_def respondError_def split: option.splits)
  then show "keeps (clearCacheDomain n)" unfolding clearCacheDomain_def by (intro keeps_bind) simp_all
qed

lemma keepsW_writes [simp]:
  "keepsW (onZones (CreateZone now z))" "keepsW (onZones (UpdateZone now z))" "keepsW (onZones (DeleteZone j))"
  "keepsW (onRecords (CreateRecord now x))" "keepsW (onRecords (DeleteRecord j))"
  by (auto intro: keepsW_step api_zone_create api_zone_update api_zone_delete api_record_create api_record_delete)

lemma keepsW_gslb_call:
  "(\<And>d c m r d' c'. f d c = (r, d', c') \<Longrightarrow> gslb_step (d, c, m) (d', c', m)) \<Longrightarrow> keepsW (onPolicies f)"
  "(\<And>d c m r d' m'. g d m = (r, d', m') \<Longrightarrow> gslb_step (d, c, m) (d', c, m')) \<Longrightarrow> keepsW (onPools g)"
  by (rule keepsW_step, fastforce simp: onPolicies_def onPools_def split: option.splits prod.splits
      intro: api_aside api_gslb_write)+

lemma keepsW_check_call:
  assumes "\<And>d c m r d'. f d = (r, d') \<Longrightarrow> gslb_step (d, c, m) (d', c, m)"
  shows "keepsW (onDb f)"
proof (rule keepsW_step)
  fix a :: API and r a'
  assume "\<not> api_readOnly a" and "onDb f a = (r, a')"
  moreover then have "a' = a\<lparr>api_handler := (api_handler a)\<lparr>hn_db := snd (f (adb a)), hn_gslb := hn_gslb (api_handler a)\<rparr>\<rparr>"
    by (auto simp: onDb_def split: prod.splits)
  moreover have "gslb_step (adb a, c, m) (snd (f (adb a)), c, m)" for c m
    by (rule assms [where r = "fst (f (adb a))"]) simp
  ultimately show "api_step a a'" by (blast intro: api_gslb_write)
qed

lemma keepsW_gslb [simp]:
  "keepsW (onPolicies (CreatePolicy now p))" "keepsW (onPolicies (UpdatePolicy p))" "keepsW (onPolicies (DeletePolicy i))"
  "keepsW (onPools (CreatePool pl))" "keepsW (onPools (UpdatePool pl))" "keepsW (onPools (DeletePool i))"
  "keepsW (onPools (CreateMember mb))" "keepsW (onPools (UpdateMember mb))" "keepsW (onPools (DeleteMember i))"
  "keepsW (onDb (CreateHealthCheck h))" "keepsW (onDb (UpdateHealthCheck h))" "keepsW (onDb (DeleteHealthCheck i))"
  by (rule keepsW_gslb_call keepsW_check_call, erule gslb_step.intros)+

subsection \<open>Every request is a sequence of calls\<close>

lemma keeps_checks [simp]:
  "keeps (checkRecord rq)" "keeps (checkPolicy pq)" "keeps (checkPool lq)" "keeps (checkMember mq)"
  "keeps (checkHealthCheck hq)" "keeps (checkUpstream uq)" "keeps (checkSettings cq)" "keeps (checkSource sc bq)"
  by (auto simp: checkRecord_def checkPolicy_def checkPool_def checkMember_def checkHealthCheck_def checkUpstream_def
      checkSettings_def checkSource_def Let_def split: prod.splits intro!: keeps_bind)

lemma keeps_zoneOrNil [simp]: "keeps (zoneOrNil i)"
  unfolding zoneOrNil_def by (intro keeps_bind keeps_call) simp_all

lemma keeps_recordResponses [simp]: "keeps (recordResponses rs seen)"
  by (induction rs arbitrary: seen) (auto intro!: keeps_bind split: option.splits)

lemma hd_bind_assoc: "hd_bind (hd_bind m k) h = hd_bind m (\<lambda>x. hd_bind (k x) h)"
  by (rule ext) (auto simp: hd_bind_def split: prod.splits sum.splits)

text \<open>The update of a record as one piece: the row that is read is the row that is written.\<close>

lemma keepsW_updateRecord:
  "keepsW (hd_bind (run (onDb (GetRecord i))) (\<lambda>stored. hd_bind (found stored)
     (\<lambda>existing. run (onRecords (UpdateRecord now (recordOf i (r_ZoneID existing) name req))))))" (is "keepsW ?m")
  unfolding keepsW_def
proof (intro allI impI)
  fix a :: API
  assume role: "\<not> api_readOnly a"
  obtain r b where g: "onDb (GetRecord i) a = (r, b)" by fastforce
  have ab: "api_step a b" using g by (auto simp: onDb_def GetRecord_def split: prod.splits dest!: reader_tables intro: api_aside)
  have tb: "tables (adb b) = tables (adb a)"
    using g by (auto simp: onDb_def GetRecord_def adb_def split: prod.splits dest!: reader_tables)
  show "api_step\<^sup>*\<^sup>* a (snd (?m a))"
  proof (cases "\<exists>y. r = Inr (Some y)")
    case True
    then obtain y where r: "r = Inr (Some y)" by auto
    with g have y: "find (\<lambda>z. r_ID z = i) (t_records (tables (adb b))) = Some y"
      unfolding tb by (auto simp: onDb_def GetRecord_def split: prod.splits dest!: reader_result)
    obtain u c where u: "onRecords (UpdateRecord now (recordOf i (r_ZoneID y) name req)) b = (u, c)" by fastforce
    have "api_step b c"
      by (rule api_record_update [OF _ u]) (use role ab api_step_role y in \<open>auto simp: recordOf_def\<close>)
    moreover have "snd (?m a) = c"
      by (cases u) (auto simp: hd_bind_def run_def call_def g r ok500_def found_def hd_return_def u respondInternalError_def respondError_def)
    ultimately show ?thesis using ab by simp
  next
    case False
    then have "snd (?m a) = b"
      by (cases r) (auto simp: hd_bind_def run_def call_def g ok500_def found_def hd_return_def respondInternalError_def
          respondNotFound_def respondError_def split: option.splits)
    with ab show ?thesis by simp
  qed
qed

lemma keeps_zone_handlers:
  "keeps (listZones now)" "keeps (getZone p)" "keeps (createZone now zb)" "keeps (updateZone now p zb)"
  "keeps (deleteZone p)" "keeps listAllRecords" "keeps (listRecords now p)" "keeps (createRecord now p rb)"
  "keeps (deleteRecord p)"
  unfolding listZones_def getZone_def createZone_def updateZone_def deleteZone_def listAllRecords_def listRecords_def
    createRecord_def deleteRecord_def Let_def
  by (intro keeps_guarded keeps_bind keepsW_bind keeps_run keepsW_run keepsW_writes | simp add: keepsW_keeps keeps_run)+


lemma keeps_updateRecord: "keeps (updateRecord now p rb)"
proof -
  have eq: "updateRecord now p rb = hd_bind writable (\<lambda>_. hd_bind (idParam p) (\<lambda>i. hd_bind (bindJSON rb) (\<lambda>req. hd_bind (checkRecord req) (\<lambda>_.
     hd_bind (hd_bind (run (onDb (GetRecord i))) (\<lambda>stored. hd_bind (found stored)
       (\<lambda>existing. run (onRecords (UpdateRecord now (recordOf i (r_ZoneID existing) (normalizeFQDN (rq_Name req)) req)))))) (\<lambda>_.
     hd_bind (run (onDb (GetRecord i))) (\<lambda>updated. hd_bind (nonNil updated) (\<lambda>r.
     hd_bind (zoneOrNil (r_ZoneID r)) (\<lambda>zone. respondSuccess 200 (toRecordResponse r zone)))))))))"
    by (simp add: updateRecord_def hd_bind_assoc)
  show ?thesis unfolding eq
    by (intro keeps_guarded keepsW_bind [OF keepsW_updateRecord] keepsW_bind | simp add: keepsW_keeps keeps_run)+
qed

lemma keeps_gslb_handlers:
  "keeps (listPolicies now)" "keeps (createPolicy now pb)" "keeps (updatePolicy p pb)" "keeps (deletePolicy p)"
  "keeps (listPools now p)" "keeps (createPool p lb)" "keeps (updatePool p lb)" "keeps (deletePool p)"
  "keeps (listMembers now p)" "keeps (createMember p mb)" "keeps (updateMember p mb)" "keeps (deleteMember p)"
  "keeps listHealthChecks" "keeps (createHealthCheck p hb)" "keeps (updateHealthCheck p hb)" "keeps (deleteHealthCheck p)"
  unfolding listPolicies_def createPolicy_def updatePolicy_def deletePolicy_def listPools_def createPool_def updatePool_def
    deletePool_def listMembers_def createMember_def updateMember_def deleteMember_def listHealthChecks_def
    createHealthCheck_def updateHealthCheck_def deleteHealthCheck_def
  by (intro keeps_guarded keeps_bind keepsW_bind keeps_run keepsW_run keepsW_gslb | simp add: keepsW_keeps keeps_run)+

lemma keeps_rest_handlers:
  "keeps (listUpstreams now)" "keeps (createUpstream now ub)" "keeps (updateUpstream now p ub)" "keeps (deleteUpstream p)"
  "keeps (testUpstream lib ex p)" "keeps (getCacheSettings now)" "keeps (updateCacheSettings now cb)"
  "keeps (listAdblockSources now)" "keeps (createAdblockSource sc now bb)" "keeps (updateAdblockSource sc now p bb)"
  "keeps (deleteAdblockSource p)" "keeps (syncAdblockSource p)" "keeps (getAdblockStats p)" "keeps (getAdblockStatus now)"
  unfolding listUpstreams_def createUpstream_def updateUpstream_def deleteUpstream_def testUpstream_def getCacheSettings_def
    updateCacheSettings_def listAdblockSources_def createAdblockSource_def updateAdblockSource_def deleteAdblockSource_def
    syncAdblockSource_def getAdblockStats_def getAdblockStatus_def
  by (intro keeps_bind keeps_run keeps_call | simp split: option.splits | (rule keeps_pure, simp add: hd_return_def respondInternalError_def respondError_def))+

lemma request_steps: "api_step\<^sup>*\<^sup>* a (snd (NewRouter w e a))"
proof -
  have "keeps (NewRouter w e)"
    by (cases e) (simp_all add: keeps_status keeps_zone_handlers keeps_updateRecord keeps_gslb_handlers keeps_rest_handlers)
  then show ?thesis by (simp add: keeps_def)
qed


subsection \<open>Read-only mode\<close>

lemma on_tables:
  "onZones f a = (r, a') \<Longrightarrow> \<exists>c'. f (adb a) (hn_zones (api_handler a)) = (r, adb a', c') \<and> hn_zones (api_handler a') = c'
     \<and> hn_records (api_handler a') = hn_records (api_handler a)"
  "onRecords g a = (q, a') \<Longrightarrow> \<exists>c'. g (adb a) (hn_records (api_handler a)) = (q, adb a', c') \<and> hn_records (api_handler a') = c'
     \<and> hn_zones (api_handler a') = hn_zones (api_handler a)"
  by (auto simp: onZones_def onRecords_def adb_def split: prod.splits)

lemma list_tables:
  "ListZones now d c = (r, d', c') \<Longrightarrow> tables d' = tables d"
  "GetRecordsByZone now j d rc = (q, d', rc') \<Longrightarrow> tables d' = tables d"
  by (auto simp: ListZones_def GetRecordsByZone_def split: prod.splits sum.splits dest!: reader_tables read_through_tables)

lemma adb_clear [simp]: "adb (a\<lparr>api_handler := ClearCache (api_handler a)\<rparr>) = adb a"
  by (simp add: adb_def ClearCache_def)

lemma api_step_read_only:
  "api_step a a' \<Longrightarrow> api_readOnly a \<Longrightarrow> dnsTables (tables (adb a')) = dnsTables (tables (adb a))"
  by (induction rule: api_step.induct) (auto simp: aside_def dest!: on_tables list_tables)

lemma api_steps_read_only:
  "api_step\<^sup>*\<^sup>* a a' \<Longrightarrow> api_readOnly a \<Longrightarrow> dnsTables (tables (adb a')) = dnsTables (tables (adb a))"
  by (induction rule: rtranclp_induct) (auto dest: api_step_read_only simp: api_steps_role)

text \<open>The routes that write zones, records and GSLB rows.\<close>

definition writesDns :: "endpoint \<Rightarrow> bool" where
  "writesDns e = (case e of
       POST_zones _ \<Rightarrow> True | PUT_zone _ _ \<Rightarrow> True | DELETE_zone _ \<Rightarrow> True
     | POST_zone_records _ _ \<Rightarrow> True | PUT_record _ _ \<Rightarrow> True | DELETE_record _ \<Rightarrow> True
     | POST_policies _ \<Rightarrow> True | PUT_policy _ _ \<Rightarrow> True | DELETE_policy _ \<Rightarrow> True
     | POST_pools _ _ \<Rightarrow> True | PUT_pool _ _ \<Rightarrow> True | DELETE_pool _ \<Rightarrow> True
     | POST_members _ _ \<Rightarrow> True | PUT_member _ _ \<Rightarrow> True | DELETE_member _ \<Rightarrow> True
     | POST_healthcheck _ _ \<Rightarrow> True | PUT_healthcheck _ _ \<Rightarrow> True | DELETE_healthcheck _ \<Rightarrow> True
     | _ \<Rightarrow> False)"

lemma status_read_only: "api_readOnly a \<Longrightarrow> status (hd_bind writable k) a = (403, a)"
  by (simp add: status_def hd_bind_def writable_def respondReadOnly_def respondForbidden_def respondError_def statusOf_def)

lemma writesDns_refused: "api_readOnly a \<Longrightarrow> writesDns e \<Longrightarrow> NewRouter w e a = (403, a)"
  by (cases e) (simp_all add: writesDns_def status_read_only createZone_def updateZone_def deleteZone_def createRecord_def
      updateRecord_def deleteRecord_def createPolicy_def updatePolicy_def deletePolicy_def createPool_def updatePool_def
      deletePool_def createMember_def updateMember_def deleteMember_def createHealthCheck_def updateHealthCheck_def
      deleteHealthCheck_def)

text \<open>A sequence of requests.\<close>

fun serveAll :: "(outside \<times> endpoint) list \<Rightarrow> API \<Rightarrow> API" where
  "serveAll [] a = a"
| "serveAll ((w, e) # es) a = serveAll es (snd (NewRouter w e a))"

lemma requests_steps: "api_step\<^sup>*\<^sup>* a (serveAll es a)"
proof (induction es a rule: serveAll.induct)
  case (2 w e es a)
  then show ?case using request_steps [of a w e] by (auto intro: rtranclp_trans)
qed simp


text \<open>
  C13: A read-only server keeps its DNS data. On a server in read-only mode (a secondary), whatever requests come to
  its API, in any order and with any calls to the database failing, the tables of zones, records,
  policies, pools, members and health checks, their key counters and the synchronisation version stay
  as they are, and every request that would write them is refused with status 403 and leaves
  the whole server untouched.
\<close>

theorem read_only_protects:
  assumes "api_readOnly a"
  shows "dnsTables (tables (adb (serveAll es a))) = dnsTables (tables (adb a))
       \<and> (\<forall>w e. writesDns e \<longrightarrow> NewRouter w e (serveAll es a) = (403, serveAll es a))"
  using assms requests_steps [of a es] api_steps_read_only [of a "serveAll es a"] api_steps_role [of a "serveAll es a"]
    writesDns_refused [of "serveAll es a"] by simp

definition sample_outside :: outside where
  "sample_outside = \<lparr>o_lib = sample_lib, o_exchange = (\<lambda>_ _ _. None), o_scheme = (\<lambda>_. None), o_now = 5\<rparr>"

definition sample_api :: API where
  "sample_api = \<lparr>api_handler = sample_handler\<lparr>hn_db := sample_db\<rparr>, api_dns = True, api_adblock = None, api_syncer = False,
     api_checks = True, api_worker = None, api_status = None, api_readOnly = False\<rparr>"

theorem read_only_protects_witness:
  "let a = SetReadOnly True sample_api; es = [(sample_outside, GET_zones), (sample_outside, DELETE_zone ''1'')]
   in dnsTables (tables (adb (serveAll es a))) = dnsTables (tables sample_db)
      \<and> fst (NewRouter sample_outside (DELETE_record ''2'') (serveAll es a)) = 403"
proof -
  let ?a = "SetReadOnly True sample_api" and ?es = "[(sample_outside, GET_zones), (sample_outside, DELETE_zone ''1'')]"
  have ro: "api_readOnly ?a" and d: "adb ?a = sample_db" by (simp_all add: SetReadOnly_def sample_api_def adb_def)
  have "writesDns (DELETE_record ''2'')" by (simp add: writesDns_def)
  with read_only_protects [OF ro, of ?es] d show ?thesis by (simp add: Let_def del: serveAll.simps NewRouter.simps)
qed

subsection \<open>The schema and the version\<close>

definition schema :: "tables \<Rightarrow> bool" where
  "schema t \<longleftrightarrow> zones_ok t \<and> records_ok t \<and> gslb_ok t"

definition lawful :: "tables \<Rightarrow> tables \<Rightarrow> bool" where
  "lawful t t' \<longleftrightarrow> announced t t' \<and> (schema t \<longrightarrow> schema t')"

lemma lawful_refl [simp]: "lawful t t"
  by (simp add: lawful_def)

lemma lawful_trans [trans]: "lawful t u \<Longrightarrow> lawful u w \<Longrightarrow> lawful t w"
  by (auto simp: lawful_def intro: announced_trans)

lemma dnsTables_lawful: "dnsTables t' = dnsTables t \<Longrightarrow> lawful t t'"
  by (simp add: dnsTables_def lawful_def announced_def schema_def zones_ok_def records_ok_def gslb_ok_def dnsData_eq)

lemma gslb_ok_zone_rows:
  "insertZone now z t = Inr (i, t') \<Longrightarrow> gslb_ok t' = gslb_ok t"
  "updateZoneRow now z t = Inr (n, t') \<Longrightarrow> gslb_ok t' = gslb_ok t"
  "deleteZoneRow j t = Inr (n, t') \<Longrightarrow> gslb_ok t' = gslb_ok t"
  "insertRecord now r t = Inr (i, t') \<Longrightarrow> gslb_ok t' = gslb_ok t"
  "updateRecordRow now r t = Inr (n, t') \<Longrightarrow> gslb_ok t' = gslb_ok t"
  "deleteRecordRow j t = Inr (n, t') \<Longrightarrow> gslb_ok t' = gslb_ok t"
  by (auto simp: insertZone_def updateZoneRow_def deleteZoneRow_def insertRecord_def updateRecordRow_def deleteRecordRow_def
      take_id_def Let_def gslb_ok_def split: if_splits)

lemma zones_ok_record_rows:
  "insertRecord now r t = Inr (i, t') \<Longrightarrow> zones_ok t' = zones_ok t"
  "updateRecordRow now r t = Inr (n, t') \<Longrightarrow> zones_ok t' = zones_ok t"
  "deleteRecordRow j t = Inr (n, t') \<Longrightarrow> zones_ok t' = zones_ok t"
  by (auto simp: insertRecord_def updateRecordRow_def deleteRecordRow_def take_id_def Let_def zones_ok_def split: if_splits)

lemma store_write_lawful:
  assumes "store_write body iv d c = (r, d', c')"
    and "\<And>t fs x t' fs'. body t fs = (Inr (x, t'), fs') \<Longrightarrow> last_sync_version t' = last_sync_version t + 1"
    and "\<And>t fs x t' fs'. body t fs = (Inr (x, t'), fs') \<Longrightarrow> schema t \<Longrightarrow> schema t'"
  shows "lawful (tables d) (tables d')"
  by (rule store_write_cases [of body iv d c]) (use assms announced_bump in \<open>auto simp: lawful_def\<close>)

lemma zone_bodies_schema:
  "createZoneTx now z t fs = (Inr (i, t'), fs') \<Longrightarrow> schema t \<Longrightarrow> schema t'"
  "updateZoneTx now z t fs = (Inr (u, t'), fs') \<Longrightarrow> schema t \<Longrightarrow> schema t'"
  "deleteZoneTx j t fs = (Inr (u, t'), fs') \<Longrightarrow> schema t \<Longrightarrow> schema t'"
  by (auto simp: schema_def gslb_ok_zone_rows dest!: createZoneTx_Inr updateZoneTx_Inr deleteZoneTx_Inr dest: zone_rows_ok)

lemma zone_writes_lawful:
  "CreateZone now z d c = (r, d', c') \<Longrightarrow> lawful (tables d) (tables d')"
  "UpdateZone now z d c = (u, d', c') \<Longrightarrow> lawful (tables d) (tables d')"
  "DeleteZone i d c = (u, d', c') \<Longrightarrow> lawful (tables d) (tables d')"
  unfolding CreateZone_def UpdateZone_def DeleteZone_def
  by (erule store_write_lawful;
      blast dest: create_zone.body_version update_zone.body_version delete_zone.body_version zone_bodies_schema)+

lemma record_bodies_schema:
  "createRecordTx now x t fs = (Inr (i, t'), fs') \<Longrightarrow> schema t \<Longrightarrow> schema t'"
  "updateRecordTx now x t fs = (Inr (u, t'), fs') \<Longrightarrow> schema t \<Longrightarrow> schema t'"
  "deleteRecordTx j t fs = (Inr (u, t'), fs') \<Longrightarrow> schema t \<Longrightarrow> schema t'"
  by (auto simp: schema_def gslb_ok_zone_rows zones_ok_record_rows
      dest!: createRecordTx_Inr updateRecordTx_Inr deleteRecordTx_Inr dest: insertRecord_ok updateRecordRow_ok deleteRecordRow_ok)

lemma record_writes_lawful:
  "CreateRecord now x d c = (r, d', c') \<Longrightarrow> lawful (tables d) (tables d')"
  "UpdateRecord now x d c = (u, d', c') \<Longrightarrow> lawful (tables d) (tables d')"
  "DeleteRecord i d c = (u, d', c') \<Longrightarrow> lawful (tables d) (tables d')"
proof -
  show "CreateRecord now x d c = (r, d', c') \<Longrightarrow> lawful (tables d) (tables d')"
    "UpdateRecord now x d c = (u, d', c') \<Longrightarrow> lawful (tables d) (tables d')"
    unfolding CreateRecord_def UpdateRecord_def
    by (erule store_write_lawful; blast dest: create_record.body_version update_record.body_version record_bodies_schema)+
  assume "DeleteRecord i d c = (u, d', c')"
  then consider "tables d' = tables d" | zid d1 where "tables d1 = tables d"
      "store_write (deleteRecordTx i) (\<lambda>_. recordCacheInvalidate zid) d1 c = (u, d', c')"
    by (auto simp: DeleteRecord_def GetRecord_def split: prod.splits sum.splits option.splits dest!: reader_tables)
  then show "lawful (tables d) (tables d')"
    by cases (auto dest!: store_write_lawful [OF _ delete_record.body_version record_bodies_schema(3)])
qed

lemma gslb_step_lawful: "gslb_step (d, c, m) (d', c', m') \<Longrightarrow> lawful (tables d) (tables d')"
  by (drule gslb_step_counted)
    (auto simp: counted_def lawful_def schema_def announced_bump zonePart_def zones_ok_def records_ok_def)

lemma api_step_lawful: "api_step a a' \<Longrightarrow> lawful (tables (adb a)) (tables (adb a'))"
proof (induction rule: api_step.induct)
  case (api_gslb_write a pc m d' pc' m' a' g)
  from gslb_step_lawful [OF api_gslb_write(2)] show ?case by (simp add: api_gslb_write(3) adb_def)
qed (auto simp: aside_def dnsTables_lawful dest!: on_tables list_tables zone_writes_lawful record_writes_lawful)

lemma api_steps_lawful: "api_step\<^sup>*\<^sup>* a a' \<Longrightarrow> lawful (tables (adb a)) (tables (adb a'))"
  by (induction rule: rtranclp_induct) (auto dest: api_step_lawful intro: lawful_trans)

text \<open>
  C15: Requests keep the schema and announce every change. Whatever requests come to the API, with any calls failing:
  keys stay unique and foreign keys valid (records have zones, pools and checks have policies, members have pools),
  the synchronisation version never falls, and it has risen whenever the zones, records, policies,
  pools, members or checks differ in an exported column, so that a secondary notices.
\<close>

theorem requests_announced:
  assumes "schema (tables (adb a))"
  shows "schema (tables (adb (serveAll es a))) \<and> announced (tables (adb a)) (tables (adb (serveAll es a)))"
  using api_steps_lawful [OF requests_steps [of a es]] assms by (simp add: lawful_def)

lemma sample_api_ok: "schema (tables (adb sample_api))" "tables (adb sample_api) = tables sample_db" "faults (adb sample_api) = []"
  using RecordStore.sample_ok by (simp_all add: schema_def sample_api_def adb_def sample_defs gslb_ok_def keyed_def refers_def)

theorem requests_announced_witness:
  "let a = serveAll [(sample_outside, DELETE_zone ''1'')] sample_api
   in t_zones (tables (adb a)) = [] \<and> schema (tables (adb a)) \<and> last_sync_version (tables sample_db) < last_sync_version (tables (adb a))"
proof -
  let ?a = "serveAll [(sample_outside, DELETE_zone ''1'')] sample_api"
  have gone: "t_zones (tables (adb ?a)) = []" by code_simp
  have was: "t_zones (tables sample_db) \<noteq> []" by (simp add: sample_defs)
  have "dnsData (tables (adb ?a)) \<noteq> dnsData (tables sample_db)"
    using gone was by (metis dnsData_sel(1) length_0_conv length_sort)
  with requests_announced [OF sample_api_ok(1), of "[(sample_outside, DELETE_zone ''1'')]"] gone sample_api_ok(2)
  show ?thesis by (auto simp: Let_def announced_def order_less_le)
qed

end
