(* ===== verification/WebFresh.thy ===== *)
theory WebFresh
  imports WebProps
begin

section \<open>Administration and serving share their caches\<close>

text \<open>
  The DNS handler reads zones and records through caches that the API's handlers invalidate.
  The invariant \<open>fresh\<close> says what these caches hold in every history of requests, lookups and
  updates of the times of last queries. A deleted zone leaves the cached list of its records
  behind; that it is never served again rests on \<^verbatim>\<open>AUTOINCREMENT\<close>: its key does not come back.
\<close>

inductive serve_step :: "API \<Rightarrow> API \<Rightarrow> bool" where
  serve_request: "NewRouter w e a = (s, a') \<Longrightarrow> serve_step a a'"
| serve_zone: "onZones (GetZoneByName now name) a = (z, a') \<Longrightarrow> serve_step a a'"
| serve_records: "onRecords (GetRecordsByZone now i) a = (rs, a') \<Longrightarrow> serve_step a a'"
| serve_touch: "onDb (BatchUpdateLastQueryAt qs) a = (u, a') \<Longrightarrow> serve_step a a'"

definition zoneFresh :: "tables \<Rightarrow> ZoneCache \<Rightarrow> bool" where
  "zoneFresh t c \<longleftrightarrow> (\<forall>name z. zc_zones c name = Some z \<longrightarrow> z \<in> set (t_zones t) \<and> z_Name z = name)"

definition liveKey :: "tables \<Rightarrow> rowid \<Rightarrow> bool" where
  "liveKey t i \<longleftrightarrow> i \<in> set (map z_ID (t_zones t)) \<or> t_seq t TZones < i"

definition recordsFresh :: "tables \<Rightarrow> RecordCache \<Rightarrow> bool" where
  "recordsFresh t c \<longleftrightarrow> (\<forall>i rs. rc_cache c i = Some rs \<longrightarrow> liveKey t i \<longrightarrow>
     map exportRecord rs = map exportRecord (recordsByZone i t))"

definition fresh :: "API \<Rightarrow> bool" where
  "fresh a \<longleftrightarrow> schema (tables (adb a)) \<and> zoneFresh (tables (adb a)) (hn_zones (api_handler a))
     \<and> recordsFresh (tables (adb a)) (hn_records (api_handler a))"

subsection \<open>The parts of the invariant\<close>

lemma zoneFresh_cong: "t_zones t' = t_zones t \<Longrightarrow> zoneFresh t' c = zoneFresh t c"
  by (simp add: zoneFresh_def)

lemma zoneFresh_invalidate [simp]: "zoneFresh t (zoneCacheInvalidate c)"
  by (simp add: zoneFresh_def zoneCacheInvalidate_def)

lemma foldl_cached:
  "foldl (\<lambda>m z. m(z_Name z \<mapsto> z)) m zs name = Some z \<Longrightarrow> m name = Some z \<or> (z \<in> set zs \<and> z_Name z = name)"
proof (induction zs arbitrary: m)
  case (Cons y zs)
  from Cons.IH [of "m(z_Name y \<mapsto> y)"] Cons.prems show ?case by (auto split: if_splits)
qed simp

lemma zoneFresh_set: "set zs \<subseteq> set (t_zones t) \<Longrightarrow> zoneFresh t (zoneCacheSet now zs c)"
  by (auto simp: zoneFresh_def zoneCacheSet_def dest!: foldl_cached)

text \<open>A read leaves the tables, and leaves the cache or fills it with what the tables hold.\<close>

lemma read_through_effect:
  assumes "read_through h q f d c = (r, d', c')"
  shows "tables d' = tables d \<and> (c' = c \<or> c' = f (q (tables d)) c)"
proof (cases h)
  case None
  obtain g d1 where g: "reader q d = (g, d1)" by fastforce
  from reader_tables [OF this] reader_result [OF this] assms None g show ?thesis
    by (cases g) (auto simp: read_through_def)
qed (use assms in \<open>simp add: read_through_def\<close>)

lemma ListZones_effect:
  assumes "ListZones now d c = (r, d', c')"
  shows "tables d' = tables d \<and> (c' = c \<or> c' = zoneCacheSet now (sort_key z_Name (t_zones (tables d))) c)"
proof -
  obtain g d1 where g: "reader (\<lambda>t. sort_key z_Name (t_zones t)) d = (g, d1)" by fastforce
  from reader_tables [OF this] reader_result [OF this] assms g show ?thesis
    by (cases g) (auto simp: ListZones_def)
qed

lemma ListZones_fresh: "ListZones now d c = (r, d', c') \<Longrightarrow> zoneFresh (tables d) c \<Longrightarrow> zoneFresh (tables d') c'"
  by (drule ListZones_effect) (auto simp: zoneFresh_set)

lemma GetZoneByName_fresh: "GetZoneByName now name d c = (r, d', c') \<Longrightarrow> zoneFresh (tables d) c \<Longrightarrow> zoneFresh (tables d') c'"
  unfolding GetZoneByName_def
  by (drule read_through_effect) (auto simp: fillZone_def zoneFresh_set dest: zoneByName_name split: option.splits)

lemma exported_by_zone:
  "map exportRecord (recordsByZone i t)
     = sort_key (\<lambda>r. (r_Name r, r_Type r)) (filter (\<lambda>r. r_ZoneID r = i) (map exportRecord (t_records t)))"
  by (simp add: recordsByZone_def filter_map sort_key_map comp_def exportRecord_def)

lemma recordsFresh_cong:
  assumes "map exportRecord (t_records t') = map exportRecord (t_records t)" and "\<And>i. liveKey t' i \<Longrightarrow> liveKey t i"
    and "recordsFresh t c"
  shows "recordsFresh t' c"
  using assms by (auto simp: recordsFresh_def exported_by_zone)

lemma recordsFresh_clear [simp]: "recordsFresh t (InvalidateAll c)"
  by (simp add: recordsFresh_def InvalidateAll_def)

lemma GetRecordsByZone_fresh:
  "GetRecordsByZone now i d c = (r, d', c') \<Longrightarrow> recordsFresh (tables d) c \<Longrightarrow> recordsFresh (tables d') c'"
  unfolding GetRecordsByZone_def
  by (drule read_through_effect) (auto simp: recordsFresh_def recordCacheSet_def split: if_splits)

text \<open>A write to the records of one zone drops that zone's list and leaves the others.\<close>

lemma recordsFresh_drop:
  assumes "recordsFresh t c" and "\<And>i. liveKey t' i \<Longrightarrow> liveKey t i"
    and "\<And>i. i \<noteq> k \<Longrightarrow> recordsByZone i t' = recordsByZone i t"
  shows "recordsFresh t' (recordCacheInvalidate k c)"
  using assms by (auto simp: recordsFresh_def recordCacheInvalidate_def split: if_splits)

lemma recordsByZone_new:
  assumes "records_ok t" and "i \<notin> set (map z_ID (t_zones t))"
  shows "recordsByZone i t = []"
proof -
  have "filter (\<lambda>r. r_ZoneID r = i) (t_records t) = []"
    using assms by (auto simp: records_ok_def refers_def filter_empty_conv)
  then show ?thesis by (simp add: recordsByZone_def)
qed


subsection \<open>Every call keeps the invariant\<close>

lemma liveKey_cong:
  "map z_ID (t_zones t') = map z_ID (t_zones t) \<Longrightarrow> t_seq t' TZones = t_seq t TZones \<Longrightarrow> liveKey t' i = liveKey t i"
  unfolding liveKey_def by (simp only:)

lemma liveKey_bump [simp]: "liveKey (bump_version t) i = liveKey t i"
  by (simp add: liveKey_def bump_version_def)

lemma recordsFresh_bump [simp]: "recordsFresh (bump_version t) c = recordsFresh t c"
  by (simp add: recordsFresh_def)

lemma insertZone_fresh:
  assumes "insertZone now z t = Inr (i, t')" and "recordsFresh t c"
  shows "recordsFresh t' c"
proof (rule recordsFresh_cong [OF _ _ assms(2)])
  from assms(1) have t': "t_records t' = t_records t" "map z_ID (t_zones t') = map z_ID (t_zones t) @ [t_seq t TZones + 1]"
    "t_seq t' TZones = t_seq t TZones + 1"
    by (auto simp: insertZone_def Let_def take_id_def next_id_def split: if_splits)
  show "map exportRecord (t_records t') = map exportRecord (t_records t)" by (simp add: t')
  show "liveKey t k" if "liveKey t' k" for k using that by (auto simp: liveKey_def t' simp del: set_map)
qed

lemma updateZoneRow_fresh:
  assumes "updateZoneRow now z t = Inr (n, t')" and "recordsFresh t c"
  shows "recordsFresh t' c"
proof (rule recordsFresh_cong [OF _ _ assms(2)])
  let ?upd = "\<lambda>y. if z_ID y = z_ID z then z\<lparr>z_CreatedAt := z_CreatedAt y, z_UpdatedAt := now\<rparr> else y"
  have t': "t' = t\<lparr>t_zones := map ?upd (t_zones t)\<rparr>" using assms(1) by (auto simp: updateZoneRow_def split: if_splits)
  then show "map exportRecord (t_records t') = map exportRecord (t_records t)" by simp
  have "map z_ID (map ?upd (t_zones t)) = map z_ID (t_zones t)" by (rule map_update_key) simp
  then have "map z_ID (t_zones t') = map z_ID (t_zones t)" by (simp add: t' del: map_map list.map_comp)
  then show "liveKey t k" if "liveKey t' k" for k using that liveKey_cong [of t' t k] by (simp add: t' del: map_map list.map_comp)
qed

lemma deleteZoneRow_fresh:
  assumes "deleteZoneRow j t = Inr (n, t')" and "recordsFresh t c" and "zones_ok t"
  shows "recordsFresh t' c"
proof -
  from assms(1) have t': "t_zones t' = filter (\<lambda>y. z_ID y \<noteq> j) (t_zones t)" "t_seq t' = t_seq t"
    "t_records t' = (if \<exists>y \<in> set (t_zones t). z_ID y = j then filter (\<lambda>r. r_ZoneID r \<noteq> j) (t_records t) else t_records t)"
    by (auto simp: deleteZoneRow_def)
  have live: "liveKey t i \<and> (i = j \<longrightarrow> \<not> (\<exists>y \<in> set (t_zones t). z_ID y = j))" if "liveKey t' i" for i
    using that assms(3) by (fastforce simp: liveKey_def t' zones_ok_def keyed_def)
  have "recordsByZone i t' = recordsByZone i t" if "liveKey t' i" for i
  proof -
    have "filter (\<lambda>r. r_ZoneID r = i) (filter (\<lambda>r. r_ZoneID r \<noteq> j) (t_records t)) = filter (\<lambda>r. r_ZoneID r = i) (t_records t)"
      if "i \<noteq> j" using that by (auto intro: filter_cong)
    with live [OF that] show ?thesis by (auto simp: recordsByZone_def t')
  qed
  with assms(2) live show ?thesis by (simp add: recordsFresh_def)
qed

lemma zone_write_fresh:
  assumes "store_write body (\<lambda>_. zoneCacheInvalidate) d c = (r, d', c')" and "zoneFresh (tables d) c" and "recordsFresh (tables d) rc"
    and "\<And>fs x t fs'. body (tables d) fs = (Inr (x, t), fs') \<Longrightarrow> recordsFresh t rc"
  shows "zoneFresh (tables d') c' \<and> recordsFresh (tables d') rc"
  by (rule store_write_cases [of body "\<lambda>_. zoneCacheInvalidate" d c]) (use assms in auto)

lemma zone_writes_fresh:
  assumes "schema (tables d)" "zoneFresh (tables d) c" "recordsFresh (tables d) rc"
  shows "CreateZone now z d c = (r, d', c') \<Longrightarrow> zoneFresh (tables d') c' \<and> recordsFresh (tables d') rc"
    and "UpdateZone now z d c = (u, d', c') \<Longrightarrow> zoneFresh (tables d') c' \<and> recordsFresh (tables d') rc"
    and "DeleteZone j d c = (u, d', c') \<Longrightarrow> zoneFresh (tables d') c' \<and> recordsFresh (tables d') rc"
  unfolding CreateZone_def UpdateZone_def DeleteZone_def
  by (erule zone_write_fresh [OF _ assms(2,3)];
      use assms in \<open>auto simp: schema_def dest!: createZoneTx_Inr updateZoneTx_Inr deleteZoneTx_Inr
        intro: insertZone_fresh updateZoneRow_fresh deleteZoneRow_fresh\<close>)+

lemma record_rows_live:
  "insertRecord now r t = Inr (i, t') \<Longrightarrow> (\<forall>k. liveKey t' k = liveKey t k) \<and> t_zones t' = t_zones t"
  "updateRecordRow now r t = Inr (n, t') \<Longrightarrow> (\<forall>k. liveKey t' k = liveKey t k) \<and> t_zones t' = t_zones t"
  "deleteRecordRow j t = Inr (n, t') \<Longrightarrow> (\<forall>k. liveKey t' k = liveKey t k) \<and> t_zones t' = t_zones t"
  by (auto simp: insertRecord_def updateRecordRow_def deleteRecordRow_def take_id_def Let_def liveKey_def split: if_splits)

lemma record_write_fresh:
  assumes "store_write body (\<lambda>_. recordCacheInvalidate k) d c = (r, d', c')" and "zoneFresh (tables d) zc" and "recordsFresh (tables d) c"
    and "\<And>fs x t fs'. body (tables d) fs = (Inr (x, t), fs') \<Longrightarrow> (\<forall>i. liveKey t i = liveKey (tables d) i) \<and> t_zones t = t_zones (tables d)
           \<and> (\<forall>i. i \<noteq> k \<longrightarrow> recordsByZone i t = recordsByZone i (tables d))"
  shows "zoneFresh (tables d') zc \<and> recordsFresh (tables d') c'"
proof (rule store_write_cases [of body "\<lambda>_. recordCacheInvalidate k" d c])
  fix x t fs fs' fs''
  assume "body (tables d) fs = (Inr (x, t), fs')"
    and "store_write body (\<lambda>_. recordCacheInvalidate k) d c = (Inr x, \<lparr>tables = t, faults = fs''\<rparr>, recordCacheInvalidate k c)"
  with assms(1-3) assms(4) [of fs x t fs'] show ?thesis
    by (auto simp: zoneFresh_def intro!: recordsFresh_drop)
qed (use assms in auto)

lemma bump_zones [simp]: "t_zones (bump_version t) = t_zones t"
  by (simp add: bump_version_def)

lemma record_writes_fresh:
  assumes "schema (tables d)" "zoneFresh (tables d) zc" "recordsFresh (tables d) c"
  shows "CreateRecord now x d c = (r, d', c') \<Longrightarrow> zoneFresh (tables d') zc \<and> recordsFresh (tables d') c'"
    and "UpdateRecord now x d c = (u, d', c') \<Longrightarrow> find (\<lambda>y. r_ID y = r_ID x) (t_records (tables d)) = Some y \<Longrightarrow> r_ZoneID x = r_ZoneID y
           \<Longrightarrow> zoneFresh (tables d') zc \<and> recordsFresh (tables d') c'"
    and "DeleteRecord j d c = (u, d', c') \<Longrightarrow> zoneFresh (tables d') zc \<and> recordsFresh (tables d') c'"
proof -
  show "zoneFresh (tables d') zc \<and> recordsFresh (tables d') c'" if "CreateRecord now x d c = (r, d', c')"
  proof (rule record_write_fresh [OF that [unfolded CreateRecord_def] assms(2,3)])
    fix fs v t fs'
    assume "createRecordTx now x (tables d) fs = (Inr (v, t), fs')"
    then obtain t1 where "insertRecord now (recordDefaults x) (tables d) = Inr (v, t1)" "t = bump_version t1"
      by (blast dest: createRecordTx_Inr)
    with record_rows_live(1) [OF this(1)] insertRecord_other [OF this(1)]
    show "(\<forall>i. liveKey t i = liveKey (tables d) i) \<and> t_zones t = t_zones (tables d)
        \<and> (\<forall>i. i \<noteq> r_ZoneID x \<longrightarrow> recordsByZone i t = recordsByZone i (tables d))"
      by (simp add: recordDefaults_def)
  qed
  show "zoneFresh (tables d') zc \<and> recordsFresh (tables d') c'" if w: "UpdateRecord now x d c = (u, d', c')"
    and y: "find (\<lambda>y. r_ID y = r_ID x) (t_records (tables d)) = Some y" "r_ZoneID x = r_ZoneID y"
  proof (rule record_write_fresh [OF w [unfolded UpdateRecord_def] assms(2,3)])
    have "y \<in> set (t_records (tables d))" "r_ID y = r_ID x" using y(1) by (auto simp: find_Some_iff)
    moreover have "inj_on r_ID (set (t_records (tables d)))"
      using assms(1) by (simp add: schema_def records_ok_def keyed_def distinct_map)
    ultimately have "\<forall>z \<in> set (t_records (tables d)). r_ID z = r_ID x \<longrightarrow> r_ZoneID z = r_ZoneID x"
      using y(2) by (metis inj_onD)
    note same = this
    fix fs v t fs'
    assume "updateRecordTx now x (tables d) fs = (Inr (v, t), fs')"
    then obtain n t1 where "updateRecordRow now x (tables d) = Inr (n, t1)" "t = bump_version t1"
      by (blast dest: updateRecordTx_Inr)
    with record_rows_live(2) [OF this(1)] updateRecordRow_other [OF this(1) _ same]
    show "(\<forall>i. liveKey t i = liveKey (tables d) i) \<and> t_zones t = t_zones (tables d)
        \<and> (\<forall>i. i \<noteq> r_ZoneID x \<longrightarrow> recordsByZone i t = recordsByZone i (tables d))" by simp
  qed
  assume del: "DeleteRecord j d c = (u, d', c')"
  obtain g d1 where g: "GetRecord j d = (g, d1)" by fastforce
  then have t1: "tables d1 = tables d" by (auto simp: GetRecord_def dest: reader_tables)
  show "zoneFresh (tables d') zc \<and> recordsFresh (tables d') c'"
  proof (cases "\<exists>r. g = Inr (Some r)")
    case True
    then obtain r where r: "g = Inr (Some r)" by blast
    with g have fr: "find (\<lambda>r. r_ID r = j) (t_records (tables d)) = Some r"
      by (auto simp: GetRecord_def dest!: reader_result)
    from del g r have "store_write (deleteRecordTx j) (\<lambda>_. recordCacheInvalidate (r_ZoneID r)) d1 c = (u, d', c')"
      by (simp add: DeleteRecord_def)
    then show ?thesis
    proof (rule record_write_fresh)
      fix fs v t fs'
      assume "deleteRecordTx j (tables d1) fs = (Inr (v, t), fs')"
      then obtain n t2 where "deleteRecordRow j (tables d) = Inr (n, t2)" "t = bump_version t2"
        using t1 by (auto dest: deleteRecordTx_Inr)
      with record_rows_live(3) [OF this(1)] deleteRecordRow_other [OF this(1) fr] assms(1) t1
      show "(\<forall>i. liveKey t i = liveKey (tables d1) i) \<and> t_zones t = t_zones (tables d1)
          \<and> (\<forall>i. i \<noteq> r_ZoneID r \<longrightarrow> recordsByZone i t = recordsByZone i (tables d1))" by (simp add: schema_def)
    qed (use assms t1 in simp_all)
  qed (use del g t1 assms in \<open>auto simp: DeleteRecord_def split: sum.splits option.splits\<close>)
qed

lemma dnsTables_fresh:
  assumes "dnsTables t' = dnsTables t"
  shows "zoneFresh t' zc = zoneFresh t zc" "recordsFresh t' rc = recordsFresh t rc"
proof -
  have t': "t_zones t' = t_zones t" "t_records t' = t_records t" "t_seq t' TZones = t_seq t TZones"
    using assms by (simp_all add: dnsTables_def)
  then have "liveKey t' = liveKey t" by (simp add: liveKey_def fun_eq_iff)
  with t' show "zoneFresh t' zc = zoneFresh t zc" "recordsFresh t' rc = recordsFresh t rc"
    by (simp_all add: zoneFresh_def recordsFresh_def recordsByZone_def)
qed

lemma counted_fresh:
  assumes "counted t t'" and "zoneFresh t zc" and "recordsFresh t rc"
  shows "zoneFresh t' zc \<and> recordsFresh t' rc"
proof (cases "t' = t")
  case False
  with assms(1) have t': "t_zones t' = t_zones t" "t_records t' = t_records t" "t_seq t' TZones = t_seq t TZones"
    by (simp_all add: counted_def zonePart_def)
  then have "liveKey t' = liveKey t" by (simp add: liveKey_def fun_eq_iff)
  with t' assms show ?thesis by (simp add: zoneFresh_def recordsFresh_def recordsByZone_def)
qed (use assms in simp)

lemma api_step_fresh:
  assumes "api_step a a'" and "fresh a"
  shows "fresh a'"
proof -
  have "schema (tables (adb a'))" using api_step_lawful [OF assms(1)] assms(2) by (simp add: lawful_def fresh_def)
  moreover have "zoneFresh (tables (adb a')) (hn_zones (api_handler a')) \<and> recordsFresh (tables (adb a')) (hn_records (api_handler a'))"
    using assms
  proof (induction rule: api_step.induct)
    case (api_aside a a')
    then show ?case using dnsTables_fresh [of "tables (adb a')" "tables (adb a)"] by (simp add: aside_def fresh_def)
  next
    case (api_zone_list now a r a')
    from on_tables(1) [OF this(1)] this(2) show ?case
      using ListZones_fresh ListZones_effect by (metis fresh_def)
  next
    case (api_zone_create a now z i a')
    from on_tables(1) [OF this(2)] this(3) show ?case using zone_writes_fresh(1) by (metis fresh_def)
  next
    case (api_zone_update a now z u a')
    from on_tables(1) [OF this(2)] this(3) show ?case using zone_writes_fresh(2) by (metis fresh_def)
  next
    case (api_zone_delete a j u a')
    from on_tables(1) [OF this(2)] this(3) show ?case using zone_writes_fresh(3) by (metis fresh_def)
  next
    case (api_record_list now j a rs a')
    from on_tables(2) [OF this(1)] this(2) show ?case
      using GetRecordsByZone_fresh list_tables(2) by (metis fresh_def)
  next
    case (api_record_create a now x i a')
    from on_tables(2) [OF this(2)] this(3) show ?case using record_writes_fresh(1) by (metis fresh_def)
  next
    case (api_record_update a now x u a' y)
    from on_tables(2) [OF this(2)] this(3-5) show ?case using record_writes_fresh(2) by (metis fresh_def)
  next
    case (api_record_delete a j u a')
    from on_tables(2) [OF this(2)] this(3) show ?case using record_writes_fresh(3) by (metis fresh_def)
  next
    case (api_gslb_write a pc m d' pc' m' a' g)
    from counted_fresh [OF gslb_step_counted [OF this(2), simplified], of "hn_zones (api_handler a)" "hn_records (api_handler a)"]
      api_gslb_write(3,4) show ?case by (simp add: fresh_def adb_def)
  next
    case (api_clear a)
    then show ?case by (simp add: ClearCache_def)
  qed
  ultimately show ?thesis by (simp add: fresh_def)
qed

lemma api_steps_fresh: "api_step\<^sup>*\<^sup>* a a' \<Longrightarrow> fresh a \<Longrightarrow> fresh a'"
  by (induction rule: rtranclp_induct) (auto dest: api_step_fresh)

lemma serve_step_fresh: "serve_step a a' \<Longrightarrow> fresh a \<Longrightarrow> fresh a'"
proof (induction rule: serve_step.induct)
  case (serve_request w e a s a')
  then show ?case using api_steps_fresh [OF request_steps [of a w e]] by simp
next
  case (serve_zone now name a z a')
  then obtain c' where "GetZoneByName now name (adb a) (hn_zones (api_handler a)) = (z, adb a', c')"
    "hn_zones (api_handler a') = c'" "hn_records (api_handler a') = hn_records (api_handler a)"
    using on_tables(1) by metis
  moreover then have "tables (adb a') = tables (adb a)" by (auto simp: GetZoneByName_def dest: read_through_tables)
  ultimately show ?case using serve_zone(2) GetZoneByName_fresh by (metis fresh_def)
next
  case (serve_records now i a rs a')
  then show ?case using api_step_fresh [OF api_record_list] by blast
next
  case (serve_touch qs a u a')
  then have t: "touched (tables (adb a)) (tables (adb a'))"
    and c: "hn_zones (api_handler a') = hn_zones (api_handler a)" "hn_records (api_handler a') = hn_records (api_handler a)"
    by (auto simp: onDb_def adb_def split: prod.splits dest: BatchUpdateLastQueryAt_touched)
  from t obtain rs where rs: "tables (adb a') = (tables (adb a))\<lparr>t_records := rs\<rparr>"
      "map exportRecord rs = map exportRecord (t_records (tables (adb a)))" by (auto simp: touched_def)
  have "map r_ID (map exportRecord xs) = map r_ID xs" "map r_ZoneID (map exportRecord xs) = map r_ZoneID xs" for xs
    by (simp_all add: exportRecord_def)
  with rs(2) have "map r_ID rs = map r_ID (t_records (tables (adb a)))" "map r_ZoneID rs = map r_ZoneID (t_records (tables (adb a)))"
    by metis+
  with rs c serve_touch(2) show ?case
    by (auto simp: fresh_def schema_def zones_ok_def records_ok_def gslb_ok_def zoneFresh_def liveKey_def
        intro!: recordsFresh_cong [of "(tables (adb a))\<lparr>t_records := rs\<rparr>" "tables (adb a)"])
qed


lemma serve_steps_fresh: "serve_step\<^sup>*\<^sup>* a a' \<Longrightarrow> fresh a \<Longrightarrow> fresh a'"
  by (induction rule: rtranclp_induct) (auto dest: serve_step_fresh)

lemma fresh_start:
  "schema (tables (adb a)) \<Longrightarrow> hn_zones (api_handler a) = NewZoneStorage \<Longrightarrow> hn_records (api_handler a) = NewRecordStorage \<Longrightarrow> fresh a"
  by (simp add: fresh_def zoneFresh_def recordsFresh_def NewZoneStorage_def NewZoneCache_def NewRecordStorage_def NewRecordCache_def)

lemma fresh_zone:
  assumes "fresh a" and "GetZoneByName now name (adb a) (hn_zones (api_handler a)) = (Inr found_zone, d', c')"
  shows "case found_zone of None \<Rightarrow> zoneByName name (tables (adb a)) = None
       | Some z \<Rightarrow> z \<in> set (t_zones (tables (adb a))) \<and> z_Name z = name"
proof (cases "zoneCacheGet now name (hn_zones (api_handler a))")
  case (Some z)
  with assms show ?thesis
    by (auto simp: GetZoneByName_def read_through_def zoneCacheGet_def fresh_def zoneFresh_def split: if_splits)
next
  case None
  with assms(2) have "found_zone = zoneByName name (tables (adb a))"
    by (auto simp: GetZoneByName_def read_through_def split: prod.splits sum.splits dest!: reader_result)
  then show ?thesis using zoneByName_name by (auto split: option.splits)
qed

lemma fresh_records:
  assumes "fresh a" and "faults (adb a) = []" and "i \<in> set (map z_ID (t_zones (tables (adb a))))"
  shows "\<exists>rs d c. GetRecordsByZone now i (adb a) (hn_records (api_handler a)) = (Inr rs, d, c)
     \<and> map exportRecord rs = map exportRecord (recordsByZone i (tables (adb a)))"
proof (cases "recordCacheGet now i (hn_records (api_handler a))")
  case (Some rs)
  with assms(1,3) have "map exportRecord rs = map exportRecord (recordsByZone i (tables (adb a)))"
    unfolding fresh_def recordsFresh_def liveKey_def recordCacheGet_def by (auto split: option.splits if_splits)
  with Some show ?thesis by (simp add: GetRecordsByZone_def read_through_def)
qed (use assms(2) in \<open>simp add: GetRecordsByZone_def read_through_def\<close>)

text \<open>
  C12: The zone and record storages never look up stale rows, whatever goes through the API. Start with empty
  zone and record caches on tables that satisfy the schema, and let requests to the modelled endpoints of the API, lookups of zones and records and
  updates of the times of last queries follow one after the other in any order, with any calls failing. Then, on a working
  database, a zone that \<^verbatim>\<open>GetZoneByName\<close> finds for a name is a row of the zone table as it is now and has that name, when it finds none
  there is no enabled row of that name, and the records that \<^verbatim>\<open>GetRecordsByZone\<close> then finds for the zone are those of the record
  table as it is now (up to the time of the last query). This is about the caches of these two storages, which the DNS handler reads when
  its response cache has no answer: the response cache itself is not cleared when zones and records change and
  answers until its entries expire. The row found may be a disabled zone, since the list of zones also fills the zone cache.
\<close>

theorem storage_lookups_current:
  assumes "serve_step\<^sup>*\<^sup>* a0 a" and "schema (tables (adb a0))"
    and "hn_zones (api_handler a0) = NewZoneStorage" and "hn_records (api_handler a0) = NewRecordStorage"
    and "faults (adb a) = []"
    and "GetZoneByName now name (adb a) (hn_zones (api_handler a)) = (Inr found_zone, d', c')"
  shows "case found_zone of None \<Rightarrow> zoneByName name (tables (adb a)) = None
       | Some z \<Rightarrow> z \<in> set (t_zones (tables (adb a))) \<and> z_Name z = name
           \<and> (\<exists>rs d c. GetRecordsByZone now (z_ID z) (adb a) (hn_records (api_handler a)) = (Inr rs, d, c)
                \<and> map exportRecord rs = map exportRecord (recordsByZone (z_ID z) (tables (adb a))))"
proof -
  have f: "fresh a" using serve_steps_fresh [OF assms(1)] fresh_start [OF assms(2-4)] by simp
  show ?thesis
  proof (cases found_zone)
    case (Some z)
    with fresh_zone [OF f assms(6)] have z: "z \<in> set (t_zones (tables (adb a)))" "z_Name z = name" by simp_all
    then have "z_ID z \<in> set (map z_ID (t_zones (tables (adb a))))" by simp
    with Some z fresh_records [OF f assms(5)] show ?thesis by simp
  qed (use fresh_zone [OF f assms(6)] in simp)
qed

theorem storage_lookups_current_witness:
  "let a = serveAll [(sample_outside, GET_zones), (sample_outside, GET_zone_records ''1''), (sample_outside, DELETE_record ''1'')] sample_api
   in map r_Content (recordsByZone 1 (tables (adb a))) = [''192.0.2.9'']
      \<and> (\<exists>rs d c. GetRecordsByZone 7 1 (adb a) (hn_records (api_handler a)) = (Inr rs, d, c) \<and> map r_Content rs = [''192.0.2.9''])"
proof -
  let ?es = "[(sample_outside, GET_zones), (sample_outside, GET_zone_records ''1''), (sample_outside, DELETE_record ''1'')]"
  let ?a = "serveAll ?es sample_api"
  have run: "serve_step\<^sup>*\<^sup>* a (serveAll es a)" for es a
  proof (induction es a rule: serveAll.induct)
    case (2 w e es a)
    have "serve_step a (snd (NewRouter w e a))" by (rule serve_request) (rule prod.collapse [symmetric])
    with 2 show ?case by (simp add: converse_rtranclp_into_rtranclp)
  qed simp
  obtain g d c where g: "GetZoneByName 7 ''example.com.'' (adb ?a) (hn_zones (api_handler ?a)) = (g, d, c)" by (metis prod_cases3)
  have "fst (GetZoneByName 7 ''example.com.'' (adb ?a) (hn_zones (api_handler ?a))) = Inr (Some sample_zone)" by code_simp
  with g have look: "GetZoneByName 7 ''example.com.'' (adb ?a) (hn_zones (api_handler ?a)) = (Inr (Some sample_zone), d, c)" by simp
  have calm: "faults (adb ?a) = []" by code_simp
  have rows: "map r_Content (recordsByZone 1 (tables (adb ?a))) = [''192.0.2.9'']" by code_simp
  have caches: "hn_zones (api_handler sample_api) = NewZoneStorage" "hn_records (api_handler sample_api) = NewRecordStorage"
    by (simp_all add: sample_api_def sample_handler_def)
  have content: "map r_Content (map exportRecord rs) = map r_Content rs" for rs by (simp add: exportRecord_def)
  have "z_ID sample_zone = 1" by (simp add: sample_zone_def)
  with storage_lookups_current [OF run sample_api_ok(1) caches calm look]
  obtain rs d' c' where rs: "GetRecordsByZone 7 1 (adb ?a) (hn_records (api_handler ?a)) = (Inr rs, d', c')"
    and "map exportRecord rs = map exportRecord (recordsByZone 1 (tables (adb ?a)))" by auto
  then have "map r_Content rs = [''192.0.2.9'']" using content rows by metis
  with rs rows show ?thesis by (auto simp: Let_def simp del: serveAll.simps)
qed

end
