(* ===== verification/WebAccept.thy ===== *)
theory WebAccept
  imports WebFresh
begin

section \<open>What the API accepts can be served\<close>

text \<open>
  The validators of \<^verbatim>\<open>web/api_records.go\<close> and the conversion \<^verbatim>\<open>recordToRR\<close> of \<^verbatim>\<open>dns/handler.go\<close>
  are written apart and parse the same contents; here they are compared, and a created record
  is followed from the request to the answer.
\<close>

subsection \<open>Successful handlers\<close>

lemma hd_bind_Inr: "hd_bind m k a = (Inr x, a') \<longleftrightarrow> (\<exists>y b. m a = (Inr y, b) \<and> k y b = (Inr x, a'))"
  by (auto simp: hd_bind_def split: prod.splits sum.splits)

lemma handled_Inr:
  "require P a = (Inr u, a') \<longleftrightarrow> P \<and> a' = a"
  "writable a = (Inr u, a') \<longleftrightarrow> \<not> api_readOnly a \<and> a' = a"
  "idParam p a = (Inr i, a') \<longleftrightarrow> Atoi p = Some i \<and> a' = a"
  "bindJSON b a = (Inr q, a') \<longleftrightarrow> b = Some q \<and> a' = a"
  "found z a = (Inr y, a') \<longleftrightarrow> z = Some y \<and> a' = a"
  "nonNil z a = (Inr y, a') \<longleftrightarrow> z = Some y \<and> a' = a"
  "respondSuccess s v a = (Inr w, a') \<longleftrightarrow> w = (s, v) \<and> a' = a"
  by (auto simp: require_def writable_def idParam_def bindJSON_def found_def nonNil_def respondSuccess_def hd_return_def
      respondBadRequest_def respondReadOnly_def respondForbidden_def respondNotFound_def panicked_def respondError_def
      split: option.splits)

lemma run_Inr: "run f a = (Inr x, a') \<longleftrightarrow> f a = (Inr x, a')"
  by (auto simp: run_def hd_bind_def call_def ok500_def hd_return_def respondInternalError_def respondError_def
      split: prod.splits sum.splits)

lemma checkRecord_Inr:
  "checkRecord req a = (Inr u, a') \<longleftrightarrow> a' = a \<and> normalizeFQDN (rq_Name req) \<noteq> [] \<and> TrimSpace (rq_Type req) \<noteq> []
     \<and> validateRecordType (rq_Type req) \<and> TrimSpace (rq_Content req) \<noteq> []
     \<and> validateRecordContent (rq_Type req) (rq_Content req) \<and> 0 \<le> rq_TTL req
     \<and> validateRecordPriority (rq_Type req) (rq_Priority req)"
  by (auto simp: checkRecord_def hd_bind_Inr handled_Inr)

subsection \<open>The validators and the conversion agree\<close>

lemma digits_nonneg: "list_all is_digit s \<Longrightarrow> 0 \<le> digits_value s"
proof -
  have "list_all is_digit s \<Longrightarrow> 0 \<le> a \<Longrightarrow> 0 \<le> foldl (\<lambda>a c. 10 * a + (of_char c - 48)) (a :: int) s" for a
    by (induction s arbitrary: a) (auto simp: is_digit_def Let_def)
  then show "list_all is_digit s \<Longrightarrow> 0 \<le> digits_value s" by (simp add: digits_value_def)
qed

lemma ParseUint_narrow: "ParseUint 8 s = Some n \<Longrightarrow> ParseUint 16 s = Some n \<and> 0 \<le> n \<and> n \<le> 255"
  using ParseUint_mono [of 8 16 s n] ParseUint_bound [of 8 s n] digits_nonneg [of s]
  by (auto simp: ParseUint_def split: if_splits)

lemma soaRR_valid: "validSOA parts \<Longrightarrow> soaRR hdr parts \<noteq> None"
proof -
  assume v: "validSOA parts"
  then have "7 \<le> length parts" by (simp add: validSOA_def)
  then obtain a b c d e f g rest where p: "parts = a # b # c # d # e # f # g # rest"
    by (auto simp: numeral_eq_Suc Suc_le_length_iff)
  with v show ?thesis by (auto simp: validSOA_def soaRR_def parseUint32Strict_def numeral_eq_Suc)
qed

lemma srvRR_valid: "validSRV parts \<Longrightarrow> srvRR hdr prio parts \<noteq> None"
  by (auto simp: validSRV_def srvRR_def parseUint16Strict_def Let_def numeral_eq_Suc length_Suc_conv split: if_splits)

lemma caaRR_valid: "validCAA parts \<Longrightarrow> caaRR hdr parts \<noteq> None"
proof -
  assume v: "validCAA parts"
  then obtain n where n: "ParseUint 8 (parts ! 0) = Some n" "3 \<le> length parts" by (auto simp: validCAA_def split: if_splits)
  have "\<not> (word_of_int n :: 16 word) > 255"
    using ParseUint_narrow [OF n(1)] by (simp add: word_less_def word_le_def take_bit_int_def uint_word_of_int)
  with n ParseUint_narrow [OF n(1)] show ?thesis by (simp add: caaRR_def parseUint16Strict_def)
qed

lemma recordToRR_valid:
  assumes "validateRecordType ty" and "validateRecordContent ty content" and "r_Type r = ToUpper ty" and "r_Content r = content"
  shows "recordToRR lib r \<noteq> None"
proof -
  from assms(1) consider "ToUpper ty = ''A''" | "ToUpper ty = ''AAAA''" | "ToUpper ty = ''SOA''" | "ToUpper ty = ''SRV''" | "ToUpper ty = ''CAA''"
    | "ToUpper ty \<in> {''CNAME'', ''MX'', ''TXT'', ''NS'', ''PTR''}"
    by (auto simp: validateRecordType_def validRecordTypes_def)
  then show ?thesis
    by cases (use assms soaRR_valid srvRR_valid caaRR_valid in \<open>auto simp: recordToRR_def validateRecordContent_def Let_def split: option.splits\<close>)
qed

subsection \<open>From the request to the answer\<close>

lemma CreateRecord_row:
  assumes "CreateRecord now x d c = (Inr i, d', c')"
  shows "c' = recordCacheInvalidate (r_ZoneID x) c
    \<and> (recordDefaults x)\<lparr>r_ID := i, r_LastQueryAt := None, r_CreatedAt := now, r_UpdatedAt := now\<rparr> \<in> set (t_records (tables d'))"
proof (rule store_write_cases [of "createRecordTx now x" "\<lambda>_. recordCacheInvalidate (r_ZoneID x)" d c])
  fix v t fs fs' fs''
  assume "createRecordTx now x (tables d) fs = (Inr (v, t), fs')"
    and w: "store_write (createRecordTx now x) (\<lambda>_. recordCacheInvalidate (r_ZoneID x)) d c
          = (Inr v, \<lparr>tables = t, faults = fs''\<rparr>, recordCacheInvalidate (r_ZoneID x) c)"
  then obtain t1 where "insertRecord now (recordDefaults x) (tables d) = Inr (v, t1)" "t = bump_version t1"
    by (blast dest: createRecordTx_Inr)
  with w assms show ?thesis
    by (auto simp: CreateRecord_def insertRecord_def Let_def bump_version_def split: if_splits)
qed (use assms in \<open>simp add: CreateRecord_def\<close>)

lemma lookup_dropped:
  assumes "faults d = []" and "r \<in> set (t_records (tables d))" and "r_Enabled r"
  shows "\<exists>rs d' c'. GetRecordsByNameAndZone now (r_ZoneID r) (r_Name r) (r_Type r) d (recordCacheInvalidate (r_ZoneID r) c)
      = (Inr rs, d', c') \<and> r \<in> set rs"
proof -
  let ?all = "recordsByZone (r_ZoneID r) (tables d)"
  have "r \<in> set (exactRecords ?all (r_Name r) (r_Type r))"
    using assms by (simp add: exactRecords_def recordsByZone_def)
  then have "r \<in> set (recordsByNameIn ?all (r_Name r) (r_Type r))" by (auto simp: recordsByNameIn_def Let_def)
  then show ?thesis using assms(1)
    by (simp add: GetRecordsByNameAndZone_def GetRecordsByZone_def read_through_def recordCacheGet_def recordCacheInvalidate_def)
qed

text \<open>
  C14: A record that the API accepts is found and can be converted. When the API answers the creation of a record that is not sent
  with \<^verbatim>\<open>enabled\<close> false with success, then, on a working database, the next lookup in that zone of the stored name, which is the
  name as sent, trimmed, with a final dot and with its letter case kept, and of the upper-cased type returns a record with the requested content, whatever the record
  cache held before, and the conversion of that record to an answer does not fail: what the validators of the API let
  through, the conversion can parse. The property is about this lookup in the record storage; the DNS
  handler asks it for lower-case names only (\<open>mixed_case_unserved\<close>).
\<close>

theorem accepted_record_found:
  assumes "createRecord now p body a = (Inr resp, a')" and "body = Some req" and "rq_Enabled req \<noteq> Some False"
    and "faults (adb a') = []"
  shows "\<exists>zid rs d c r rr. Atoi p = Some zid \<and>
      GetRecordsByNameAndZone later zid (normalizeFQDN (rq_Name req)) (ToUpper (rq_Type req)) (adb a') (hn_records (api_handler a'))
        = (Inr rs, d, c) \<and> r \<in> set rs \<and> r_Content r = rq_Content req \<and> recordToRR lib r = Some rr"
proof -
  from assms(1,2) obtain zid z i b1 b2 created where p: "Atoi p = Some zid"
    and check: "checkRecord req b1 = (Inr (), b1)"
    and create: "onRecords (CreateRecord now (recordOf 0 zid (normalizeFQDN (rq_Name req)) req)) b1 = (Inr i, b2)"
    and again: "onDb (GetRecord i) b2 = (Inr created, a')"
    by (auto simp: createRecord_def hd_bind_Inr handled_Inr run_Inr checkRecord_Inr)
  let ?x = "recordOf 0 zid (normalizeFQDN (rq_Name req)) req"
  let ?r = "(recordDefaults ?x)\<lparr>r_ID := i, r_LastQueryAt := None, r_CreatedAt := now, r_UpdatedAt := now\<rparr>"
  have r: "r_ZoneID ?r = zid" "r_Name ?r = normalizeFQDN (rq_Name req)" "r_Type ?r = ToUpper (rq_Type req)"
    "r_Content ?r = rq_Content req" "r_Enabled ?r"
    using assms(3) by (auto simp: recordDefaults_def recordOf_def orElse_def split: option.splits)
  obtain c2 where "CreateRecord now ?x (adb b1) (hn_records (api_handler b1)) = (Inr i, adb b2, c2)"
    "hn_records (api_handler b2) = c2" using on_tables(2) [OF create] by auto
  with CreateRecord_row have row: "?r \<in> set (t_records (tables (adb b2)))"
    and cache: "hn_records (api_handler b2) = recordCacheInvalidate zid (hn_records (api_handler b1))"
    by (metis, metis recordOf_def Record.select_convs(2))
  have same: "tables (adb a') = tables (adb b2)" "hn_records (api_handler a') = hn_records (api_handler b2)"
    using again by (auto simp: onDb_def GetRecord_def adb_def split: prod.splits dest: reader_tables)
  obtain rr where "recordToRR lib ?r = Some rr"
    using recordToRR_valid [OF _ _ r(3,4)] check by (auto simp: checkRecord_Inr)
  moreover obtain rs d c where "GetRecordsByNameAndZone later zid (normalizeFQDN (rq_Name req)) (ToUpper (rq_Type req)) (adb a')
      (recordCacheInvalidate zid (hn_records (api_handler b1))) = (Inr rs, d, c)" "?r \<in> set rs"
    using lookup_dropped [OF assms(4), of ?r later] row same(1) r by (metis (no_types, lifting))
  ultimately show ?thesis using p r(4) cache same(2) by auto
qed


definition sample_request :: "string \<Rightarrow> recordRequest" where
  "sample_request name = \<lparr>rq_Name = name, rq_Type = ''mx'', rq_Content = ''mx1.example.com'', rq_TTL = 0, rq_Priority = 10, rq_Enabled = None\<rparr>"

definition sample_created :: "string \<Rightarrow> (int \<times> string + int \<times> recordResponse) \<times> API" where
  "sample_created name = createRecord 5 ''1'' (Some (sample_request name)) sample_api"

theorem accepted_record_found_witness:
  "\<exists>rs d c r rr. GetRecordsByNameAndZone 9 1 ''mail.example.com.'' ''MX'' (adb (snd (sample_created ''mail.example.com'')))
      (hn_records (api_handler (snd (sample_created ''mail.example.com'')))) = (Inr rs, d, c)
    \<and> r \<in> set rs \<and> r_Content r = ''mx1.example.com'' \<and> recordToRR sample_lib r = Some rr"
proof -
  obtain res a' where run: "sample_created ''mail.example.com'' = (res, a')" by fastforce
  have "\<not> isl (fst (sample_created ''mail.example.com''))" "faults (adb (snd (sample_created ''mail.example.com''))) = []" by code_simp+
  with run obtain resp where "createRecord 5 ''1'' (Some (sample_request ''mail.example.com'')) sample_api = (Inr resp, a')" "faults (adb a') = []"
    by (cases res) (auto simp: sample_created_def)
  from accepted_record_found [OF this(1) refl _ this(2), of 9 sample_lib] run
  have "\<exists>zid rs d c r rr. Atoi ''1'' = Some zid \<and>
      GetRecordsByNameAndZone 9 zid (normalizeFQDN ''mail.example.com'') (ToUpper ''mx'') (adb a') (hn_records (api_handler a'))
        = (Inr rs, d, c) \<and> r \<in> set rs \<and> r_Content r = ''mx1.example.com'' \<and> recordToRR sample_lib r = Some rr"
    by (simp add: sample_request_def)
  moreover have "Atoi ''1'' = Some 1" "normalizeFQDN ''mail.example.com'' = ''mail.example.com.''" "ToUpper ''mx'' = ''MX''" by code_simp+
  ultimately show ?thesis using run by simp
qed

subsection \<open>Upper-case names\<close>

text \<open>
  The API stores a name as it was sent, the DNS handler lower-cases the queried name and compares
  exactly: a record with an upper-case letter in its name is accepted and never found.
\<close>

lemma mixed_case_unserved:
  "ToLower (r_Name r) \<noteq> r_Name r \<Longrightarrow> r \<notin> set (exactRecords recs (ToLower q) ty)"
  by (auto simp: exactRecords_def)

lemma mixed_case_accepted:
  "statusOf (fst (sample_created ''Mail.example.com'')) = 201"
  "fst (GetRecordsByNameAndZone 9 1 (ToLower ''Mail.example.com.'') ''MX'' (adb (snd (sample_created ''Mail.example.com'')))
      (hn_records (api_handler (snd (sample_created ''Mail.example.com''))))) = Inr []"
  by code_simp+

end
