(* ===== verification/Calendar.thy ===== *)
theory Calendar
  imports Prelude "HOL-Library.Char_ord" "HOL-Library.List_Lexorder" "HOL-Library.Product_Lexorder"
begin

section \<open>Dates: the part of Go's time package that names log files\<close>

text \<open>
  The calendar date of an instant in UTC and its layout \<^verbatim>\<open>2006-01-02\<close>, as \<^verbatim>\<open>time.Format\<close> writes and
  \<^verbatim>\<open>time.Parse\<close> checks it. Days are counted from Go's zero time, January 1 of the year 1. The
  sources compare such texts as strings; that this is the order of the days is proved here for
  years of at most four digits.
\<close>

definition leapYear :: "nat \<Rightarrow> bool" where
  "leapYear y \<longleftrightarrow> y mod 4 = 0 \<and> (y mod 100 \<noteq> 0 \<or> y mod 400 = 0)"

definition yearDays :: "nat \<Rightarrow> nat" where
  "yearDays y = (if leapYear y then 366 else 365)"

definition monthDays :: "nat \<Rightarrow> nat \<Rightarrow> nat" where
  "monthDays y m = (if m = 2 then (if leapYear y then 29 else 28) else if m \<in> {4, 6, 9, 11} then 30 else 31)"

function yearOf :: "nat \<Rightarrow> nat \<Rightarrow> nat \<times> nat" where
  "yearOf y n = (if n < yearDays y then (y, n) else yearOf (y + 1) (n - yearDays y))"
  by auto
termination by (relation "measure snd") (auto simp: yearDays_def)

function monthOf :: "nat \<Rightarrow> nat \<Rightarrow> nat \<Rightarrow> nat \<times> nat" where
  "monthOf y m n = (if n < monthDays y m \<or> 12 \<le> m then (m, n) else monthOf y (m + 1) (n - monthDays y m))"
  by auto
termination by (relation "measure (\<lambda>(y, m, n). 12 - m)") auto

declare yearOf.simps [simp del] monthOf.simps [simp del]

definition date :: "nat \<Rightarrow> nat \<times> nat \<times> nat" where
  "date n = (case yearOf 1 n of (y, r) \<Rightarrow> (case monthOf y 1 r of (m, d) \<Rightarrow> (y, m, d + 1)))"

definition dayNumber :: "instant \<Rightarrow> nat" where
  "dayNumber t = nat (t div seconds 86400)"

definition digit :: "nat \<Rightarrow> char" where
  "digit n = char_of (48 + n)"

definition pad2 :: "nat \<Rightarrow> string" where
  "pad2 n = [digit (n div 10), digit (n mod 10)]"

definition pad4 :: "nat \<Rightarrow> string" where
  "pad4 n = [digit (n div 1000), digit (n div 100 mod 10), digit (n div 10 mod 10), digit (n mod 10)]"

definition formatDate :: "nat \<times> nat \<times> nat \<Rightarrow> string" where
  "formatDate = (\<lambda>(y, m, d). pad4 y @ ''-'' @ pad2 m @ ''-'' @ pad2 d)"

definition digitValue :: "char \<Rightarrow> nat" where
  "digitValue c = of_char c - 48"

definition parseDate :: "string \<Rightarrow> (nat \<times> nat \<times> nat) option" where
  "parseDate s =
     (case s of
        [a, b, c, d, h1, e, f, h2, g, h] \<Rightarrow>
          (let v = digitValue; y = 1000 * v a + 100 * v b + 10 * v c + v d; m = 10 * v e + v f; n = 10 * v g + v h
           in if h1 = CHR ''-'' \<and> h2 = CHR ''-'' \<and> list_all is_digit [a, b, c, d, e, f, g, h]
                 \<and> 1 \<le> m \<and> m \<le> 12 \<and> 1 \<le> n \<and> n \<le> monthDays y m
              then Some (y, m, n) else None)
      | _ \<Rightarrow> None)"

subsection \<open>The order of days\<close>

lemma yearOf_ge: "yearOf y n = (y', r) \<Longrightarrow> y \<le> y' \<and> r < yearDays y'"
proof (induction y n rule: yearOf.induct)
  case (1 y n)
  then show ?case by (subst (asm) (2) yearOf.simps) (auto split: if_splits)
qed

lemma yearOf_mono: "n < n' \<Longrightarrow> yearOf y n < yearOf y n'"
proof (induction y n arbitrary: n' rule: yearOf.induct)
  case (1 y n)
  show ?case
  proof (cases "n < yearDays y")
    case True
    obtain y' r where y': "yearOf (y + 1) (n' - yearDays y) = (y', r)" by fastforce
    with True 1(2) yearOf_ge [OF y'] show ?thesis by (subst (1 2) yearOf.simps) auto
  next
    case False
    with 1(2) 1(1) [of "n' - yearDays y"] show ?thesis by (subst (1 2) yearOf.simps) auto
  qed
qed

lemma monthOf_ge: "monthOf y m n = (m', r) \<Longrightarrow> m \<le> m'"
proof (induction y m n rule: monthOf.induct)
  case (1 y m n)
  then show ?case by (subst (asm) (2) monthOf.simps) (auto split: if_splits)
qed

lemma monthOf_mono: "n < n' \<Longrightarrow> monthOf y m n < monthOf y m n'"
proof (induction y m n arbitrary: n' rule: monthOf.induct)
  case (1 y m n)
  show ?case
  proof (cases "n < monthDays y m \<or> 12 \<le> m")
    case True
    obtain m' r where m': "monthOf y (m + 1) (n' - monthDays y m) = (m', r)" by fastforce
    with True 1(2) monthOf_ge [OF m'] show ?thesis by (subst (1 2) monthOf.simps) auto
  next
    case False
    with 1(2) 1(1) [of "n' - monthDays y m"] show ?thesis by (subst (1 2) monthOf.simps) auto
  qed
qed

lemma date_mono: "n < n' \<Longrightarrow> date n < date n'"
proof -
  assume "n < n'"
  obtain y r y' r' where y: "yearOf 1 n = (y, r)" "yearOf 1 n' = (y', r')" by fastforce
  with yearOf_mono [OF \<open>n < n'\<close>, of 1] have "y < y' \<or> y = y' \<and> r < r'" by auto
  moreover have "monthOf y 1 r < monthOf y 1 r'" if "r < r'" using that by (rule monthOf_mono)
  ultimately show ?thesis using y by (auto simp: date_def split: prod.splits)
qed

lemma monthOf_range:
  "1 \<le> m \<Longrightarrow> m \<le> 12 \<Longrightarrow> n < (\<Sum>k = m..12. monthDays y k) \<Longrightarrow> monthOf y m n = (m', d) \<Longrightarrow> 1 \<le> m' \<and> m' \<le> 12 \<and> d < monthDays y m'"
proof (induction y m n rule: monthOf.induct)
  case (1 y m n)
  show ?case
  proof (cases "n < monthDays y m \<or> 12 \<le> m")
    case True
    then have "m' = m \<and> d = n" using 1(5) monthOf.simps [of y m n] by simp
    moreover have "n < monthDays y m" if "m = 12" using 1(4) that by simp
    ultimately show ?thesis using True 1(2,3) by auto
  next
    case False
    have "n - monthDays y m < (\<Sum>k = m + 1..12. monthDays y k)"
      using False 1(3,4) sum.atLeast_Suc_atMost [of m 12 "monthDays y"] by (simp add: less_diff_conv2)
    moreover have "monthOf y (m + 1) (n - monthDays y m) = (m', d)" using False 1(5) monthOf.simps [of y m n] by simp
    ultimately show ?thesis using False 1(1) by simp
  qed
qed

lemma year_months: "(\<Sum>k = 1..12. monthDays y k) = yearDays y"
  by (simp add: monthDays_def yearDays_def atLeastAtMost_upt upt_rec numeral_eq_Suc)

lemma date_range: "date n = (y, m, d) \<Longrightarrow> 1 \<le> m \<and> m \<le> 12 \<and> 1 \<le> d \<and> d \<le> monthDays y m"
proof -
  assume d: "date n = (y, m, d)"
  obtain y0 r where y: "yearOf 1 n = (y0, r)" by fastforce
  obtain m0 d0 where m: "monthOf y0 1 r = (m0, d0)" by fastforce
  from yearOf_ge [OF y] have "r < (\<Sum>k = 1..12. monthDays y0 k)" unfolding year_months by simp
  from monthOf_range [OF _ _ this m] d y m show ?thesis by (auto simp: date_def)
qed

subsection \<open>Texts of dates\<close>

lemma digit_code: "n < 10 \<Longrightarrow> (of_char (digit n) :: nat) = 48 + n"
  by (simp add: digit_def of_char_of)

lemma digit_value [simp]: "n < 10 \<Longrightarrow> digitValue (digit n) = n" "n < 10 \<Longrightarrow> is_digit (digit n)"
proof -
  assume n: "n < 10"
  then show "digitValue (digit n) = n" by (simp add: digitValue_def digit_code)
  have "(of_char (digit n) :: int) = int (of_char (digit n))" by (cases "digit n") (simp add: of_char_Char)
  then have "(of_char (digit n) :: int) = 48 + int n" using digit_code [OF n] by simp
  with n show "is_digit (digit n)" by (simp add: is_digit_def)
qed

lemma digit_less: "a < 10 \<Longrightarrow> b < 10 \<Longrightarrow> digit a < digit b \<longleftrightarrow> a < b"
  by (simp add: less_char_def digit_code)

lemma digit_eq: "a < 10 \<Longrightarrow> b < 10 \<Longrightarrow> digit a = digit b \<longleftrightarrow> a = b"
  by (metis digit_value(1))

lemma div_mod_less:
  fixes a b k :: nat
  assumes "a < b"
  shows "a div k < b div k \<or> a div k = b div k \<and> a mod k < b mod k"
proof (cases "a div k = b div k")
  case True
  with assms div_mult_mod_eq [of a k] div_mult_mod_eq [of b k] show ?thesis by (metis nat_add_left_cancel_less)
next
  case False
  with div_le_mono [of a b k] assms show ?thesis by simp
qed

lemma pad2_less: "a < 100 \<Longrightarrow> b < 100 \<Longrightarrow> a < b \<Longrightarrow> pad2 a @ u < pad2 b @ v"
  using div_mod_less [of a b 10] by (auto simp: pad2_def digit_less digit_eq)

lemma pad4_split: "pad4 n = pad2 (n div 100) @ pad2 (n mod 100)"
  using div_mult2_eq [of n 100 10] mod_mult2_eq [of n 10 10] by (simp add: pad4_def pad2_def)

lemma pad4_less:
  assumes "a < 10000" "b < 10000" "a < b"
  shows "pad4 a @ u < pad4 b @ v"
  using div_mod_less [OF assms(3), of 100]
proof
  assume "a div 100 < b div 100"
  with pad2_less [of "a div 100" "b div 100"] assms show ?thesis by (simp add: pad4_split)
next
  assume "a div 100 = b div 100 \<and> a mod 100 < b mod 100"
  with pad2_less [of "a mod 100" "b mod 100" u v] show ?thesis by (simp add: pad4_split pad2_def)
qed

lemma formatDate_less:
  assumes "(y, m, d) < (y', m', d')" and "y < 10000" "y' < 10000" "m < 100" "m' < 100" "d < 100" "d' < 100"
  shows "formatDate (y, m, d) < formatDate (y', m', d')"
proof -
  from assms(1) consider "y < y'" | "y = y'" "m < m'" | "y = y'" "m = m'" "d < d'"
    by (metis less_prod_simp le_neq_implies_less)
  then show ?thesis
  proof cases
    case 1
    with assms pad4_less show ?thesis by (simp add: formatDate_def)
  next
    case 2
    with assms pad2_less [of m m'] show ?thesis by (simp add: formatDate_def pad4_def)
  next
    case 3
    with assms pad2_less [of d d' "[]" "[]"] show ?thesis by (simp add: formatDate_def pad4_def pad2_def)
  qed
qed

definition fourDigits :: "nat \<Rightarrow> bool" where
  "fourDigits n \<longleftrightarrow> fst (date n) < 10000"

lemma monthDays_le: "monthDays y m \<le> 31"
  by (simp add: monthDays_def)

lemma formatDate_mono:
  assumes "fourDigits n" "fourDigits n'" and "n < n'"
  shows "formatDate (date n) < formatDate (date n')"
proof -
  obtain y m d y' m' d' where d: "date n = (y, m, d)" "date n' = (y', m', d')" by (metis prod_cases3)
  have "(y, m, d) < (y', m', d')" using date_mono [OF assms(3)] d by simp
  with assms(1,2) date_range [OF d(1)] date_range [OF d(2)] d monthDays_le [of y m] monthDays_le [of y' m'] show ?thesis
    using formatDate_less [of y m d y' m' d'] by (simp add: fourDigits_def)
qed

lemma formatDate_iff:
  assumes "fourDigits n" "fourDigits n'"
  shows "formatDate (date n) < formatDate (date n') \<longleftrightarrow> n < n'" "formatDate (date n) = formatDate (date n') \<longleftrightarrow> n = n'"
  using formatDate_mono [OF assms] formatDate_mono [OF assms(2,1)] by (metis less_asym less_linear)+

lemma parseDate_format:
  assumes "fourDigits n"
  shows "parseDate (formatDate (date n)) = Some (date n)"
proof -
  obtain y m d where d: "date n = (y, m, d)" by (metis prod_cases3)
  have r: "y < 10000" "1 \<le> m" "m \<le> 12" "1 \<le> d" "d \<le> monthDays y m" using assms date_range [OF d] by (simp_all add: fourDigits_def d)
  have "y div 10 div 10 = y div 100" "y div 100 div 10 = y div 1000" by (simp_all flip: div_mult2_eq)
  then have y: "1000 * (y div 1000) + 100 * (y div 100 mod 10) + 10 * (y div 10 mod 10) + y mod 10 = y"
    using div_mult_mod_eq [of y 10] div_mult_mod_eq [of "y div 10" 10] div_mult_mod_eq [of "y div 100" 10] by linarith
  have "m div 10 < 10" "d div 10 < 10" "y div 1000 < 10" using r monthDays_le [of y m] by auto
  moreover have "10 * (m div 10) + m mod 10 = m" "10 * (d div 10) + d mod 10 = d" by simp_all
  ultimately show ?thesis using r y by (simp add: d formatDate_def pad4_def pad2_def parseDate_def Let_def)
qed

end
