(* ===== verification/QueryLogs.thy ===== *)
theory QueryLogs
  imports Batch Calendar "HOL-Library.Multiset"
begin

section \<open>Query log storage (storage/query\_log.go, query\_log\_partitioned.go)\<close>

text \<open>
  The two implementations of \<^verbatim>\<open>QueryLogRepository\<close>: one table, and one SQLite file per UTC day.
  A table of logs is its rows in insertion order with its \<^verbatim>\<open>AUTOINCREMENT\<close> counter. Every call to
  the file system or to SQLite may fail: as in \<open>Database\<close>, a list of Booleans is the script
  of the calls to come. What SQL and Go leave open is part of a storage's state: \<open>order\<close> sorts rows by descending timestamps
  (\<^verbatim>\<open>ORDER BY timestamp DESC\<close>, open for equal timestamps), \<open>pick\<close> chooses the rows of a
  limited \<^verbatim>\<open>SELECT\<close>, and \<open>visit\<close> is the iteration order of a Go map. A panic (a nil entry, a slice that cannot be allocated) is the error \<open>panic\<close>.
\<close>

record logTable =
  lt_seq :: rowid
  lt_rows :: "QueryLog list"

definition emptyLogs :: logTable where
  "emptyLogs = \<lparr>lt_seq = 0, lt_rows = []\<rparr>"

definition insertLog :: "QueryLog \<Rightarrow> logTable \<Rightarrow> logTable" where
  "insertLog l t = t\<lparr>lt_seq := lt_seq t + 1, lt_rows := lt_rows t @ [l\<lparr>ql_ID := lt_seq t + 1\<rparr>]\<rparr>"

definition panic :: db_error where
  "panic = Invalid ''panic''"

text \<open>One call: whether it fails, and the script of the rest.\<close>

definition io :: "bool list \<Rightarrow> bool \<times> bool list" where
  "io fs = (case fs of [] \<Rightarrow> (False, []) | f # fs' \<Rightarrow> (f, fs'))"

text \<open>Continue unless the next call fails.\<close>

definition io_then :: "'e \<Rightarrow> (bool list \<Rightarrow> ('e + 'a) \<times> bool list) \<Rightarrow> bool list \<Rightarrow> ('e + 'a) \<times> bool list" where
  "io_then e k fs = (case io fs of (failed, fs') \<Rightarrow> if failed then (Inl e, fs') else k fs')"

subsection \<open>Inserting\<close>

text \<open>The loop over the entries; nil entries are skipped, or are a panic.\<close>

fun execLogs :: "bool \<Rightarrow> QueryLog option list \<Rightarrow> logTable \<Rightarrow> bool list \<Rightarrow> (db_error + logTable) \<times> bool list" where
  "execLogs skip [] t fs = (Inr t, fs)"
| "execLogs skip (None # ls) t fs = (if skip then execLogs skip ls t fs else (Inl panic, fs))"
| "execLogs skip (Some l # ls) t fs = io_then ExecFailed (execLogs skip ls (insertLog l t)) fs"

definition insertBatch :: "bool \<Rightarrow> QueryLog option list \<Rightarrow> logTable \<Rightarrow> bool list \<Rightarrow> (db_error + logTable) \<times> bool list" where
  "insertBatch skip logs t =
     io_then BeginFailed (io_then ExecFailed (\<lambda>fs.
       case execLogs skip logs t fs of
         (Inl e, fs') \<Rightarrow> (Inl e, fs')
       | (Inr t', fs') \<Rightarrow> io_then CommitFailed (\<lambda>fs''. (Inr t', fs'')) fs'))"

definition insertQueryLogBatch :: "QueryLog option list \<Rightarrow> logTable \<Rightarrow> bool list \<Rightarrow> (db_error + logTable) \<times> bool list" where
  "insertQueryLogBatch = insertBatch True"

subsection \<open>Filters\<close>

record QueryLogFilter =
  f_Domain :: string
  f_ClientIP :: string
  f_QueryType :: string
  f_ResponseCode :: string
  f_ResponseSource :: string
  f_StartTime :: "instant option"
  f_EndTime :: "instant option"
  f_Page :: int
  f_PageSize :: int

definition normalizeQueryLogFilter :: "QueryLogFilter \<Rightarrow> QueryLogFilter" where
  "normalizeQueryLogFilter f0 =
     (let f1 = (if f_Page f0 < 1 then f0\<lparr>f_Page := 1\<rparr> else f0);
          f2 = (if f_PageSize f1 < 1 then f1\<lparr>f_PageSize := 50\<rparr> else f1)
      in if f_PageSize f2 > 200 then f2\<lparr>f_PageSize := 200\<rparr> else f2)"

text \<open>SQLite's \<^verbatim>\<open>LIKE\<close>: \<open>%\<close> and \<open>_\<close> as wildcards, ASCII letters without case.\<close>

fun sqlLike :: "string \<Rightarrow> string \<Rightarrow> bool" where
  "sqlLike [] t = (t = [])"
| "sqlLike (p # ps) [] = (p = CHR ''%'' \<and> sqlLike ps [])"
| "sqlLike (p # ps) (c # ts) =
     (if p = CHR ''%'' then sqlLike ps (c # ts) \<or> sqlLike (p # ps) ts
      else (p = CHR ''_'' \<or> lower_char p = lower_char c) \<and> sqlLike ps ts)"

definition buildQueryLogWhere :: "QueryLogFilter \<Rightarrow> QueryLog \<Rightarrow> bool" where
  "buildQueryLogWhere f l \<longleftrightarrow>
     (f_Domain f \<noteq> [] \<longrightarrow> sqlLike (''%'' @ f_Domain f @ ''%'') (ql_Domain l))
     \<and> (f_ClientIP f \<noteq> [] \<longrightarrow> ql_ClientIP l = f_ClientIP f)
     \<and> (f_QueryType f \<noteq> [] \<longrightarrow> ql_QueryType l = f_QueryType f)
     \<and> (f_ResponseCode f \<noteq> [] \<longrightarrow> ql_ResponseCode l = f_ResponseCode f)
     \<and> (f_ResponseSource f \<noteq> [] \<longrightarrow> ql_ResponseSource l = f_ResponseSource f)
     \<and> (case f_StartTime f of None \<Rightarrow> True | Some t \<Rightarrow> t \<le> ql_Timestamp l)
     \<and> (case f_EndTime f of None \<Rightarrow> True | Some t \<Rightarrow> ql_Timestamp l \<le> t)"

subsection \<open>One table\<close>

text \<open>\<open>LIMIT\<close> and \<open>OFFSET\<close> of an ordered result; SQLite takes a negative limit as none and a negative offset as zero.\<close>

definition limitOffset :: "int \<Rightarrow> int \<Rightarrow> 'r list \<Rightarrow> 'r list" where
  "limitOffset limit offset rows = (let rest = drop (nat offset) rows in if limit < 0 then rest else take (nat limit) rest)"

record QueryLogStorage =
  qs_table :: logTable
  qs_faults :: "bool list"
  qs_order :: "QueryLog list \<Rightarrow> QueryLog list"
  qs_pick :: "QueryLog list \<Rightarrow> QueryLog list"

definition storageBatchInsert :: "QueryLog option list \<Rightarrow> QueryLogStorage \<Rightarrow> (db_error + unit) \<times> QueryLogStorage" where
  "storageBatchInsert logs s =
     (if logs = [] then (Inr (), s)
      else case insertBatch False logs (qs_table s) (qs_faults s) of
             (Inl e, fs) \<Rightarrow> (Inl e, s\<lparr>qs_faults := fs\<rparr>)
           | (Inr t, fs) \<Rightarrow> (Inr (), s\<lparr>qs_table := t, qs_faults := fs\<rparr>))"

definition storageQuery :: "QueryLogFilter \<Rightarrow> QueryLogStorage \<Rightarrow> (db_error + QueryLog list \<times> int) \<times> QueryLogStorage" where
  "storageQuery f0 s =
     (let f = normalizeQueryLogFilter f0;
          rows = filter (buildQueryLogWhere f) (lt_rows (qs_table s));
          offset = wrap64 ((f_Page f - 1) * f_PageSize f)
      in case io_then QueryFailed (io_then QueryFailed (io_then QueryFailed (\<lambda>fs.
           (Inr (limitOffset (f_PageSize f) offset (qs_order s rows), int (length rows)), fs)))) (qs_faults s) of
         (r, fs) \<Rightarrow> (r, s\<lparr>qs_faults := fs\<rparr>))"

text \<open>
  The rows that one \<^verbatim>\<open>DELETE\<close> removes are 5000 of the old ones, which ones is open (\<open>pick\<close>); the loop goes on until
  one removes fewer. An error carries what was deleted before it, which no caller reads.
\<close>

definition deleteChunk :: "(QueryLog list \<Rightarrow> QueryLog list) \<Rightarrow> instant \<Rightarrow> logTable \<Rightarrow> nat \<times> logTable" where
  "deleteChunk pick cutoff t =
     (let ids = map ql_ID (take 5000 (pick (filter (\<lambda>l. ql_Timestamp l < cutoff) (lt_rows t))));
          rest = filter (\<lambda>l. ql_ID l \<notin> set ids) (lt_rows t)
      in (length (lt_rows t) - length rest, t\<lparr>lt_rows := rest\<rparr>))"

function deleteLoop ::
  "(QueryLog list \<Rightarrow> QueryLog list) \<Rightarrow> instant \<Rightarrow> nat \<Rightarrow> logTable \<Rightarrow> bool list \<Rightarrow> ((db_error \<times> nat) + nat) \<times> logTable \<times> bool list" where
  "deleteLoop pick cutoff deleted t fs =
     (case io fs of
        (True, fs1) \<Rightarrow> (Inl (ExecFailed, deleted), t, fs1)
      | (False, fs1) \<Rightarrow>
          (case deleteChunk pick cutoff t of
             (affected, t') \<Rightarrow>
               (case io fs1 of
                  (True, fs2) \<Rightarrow> (Inl (ResultFailed, deleted), t', fs2)
                | (False, fs2) \<Rightarrow>
                    if affected < 5000 then (Inr (deleted + affected), t', fs2)
                    else deleteLoop pick cutoff (deleted + affected) t' fs2)))"
  by pat_completeness auto
termination
  by (relation "measure (\<lambda>(_, _, _, t, _). length (lt_rows t))") (auto simp: deleteChunk_def Let_def)

definition storageDeleteBefore :: "instant \<Rightarrow> QueryLogStorage \<Rightarrow> (db_error + int) \<times> QueryLogStorage" where
  "storageDeleteBefore cutoff s =
     (case deleteLoop (qs_pick s) cutoff 0 (qs_table s) (qs_faults s) of
        (Inl (e, _), t, fs) \<Rightarrow> (Inl e, s\<lparr>qs_table := t, qs_faults := fs\<rparr>)
      | (Inr n, t, fs) \<Rightarrow> (Inr (int n), s\<lparr>qs_table := t, qs_faults := fs\<rparr>))"


subsection \<open>One file per day\<close>

text \<open>
  \<open>pq_files\<close> are the regular files of the directory by name, with their table of logs, if they have it
  already. \<open>pq_open\<close> says whether the connection of \<open>pq_writerDay\<close> is open.
\<close>

record PartitionedQueryLogStorage =
  pq_files :: "(string \<times> logTable option) list"
  pq_writerDay :: string
  pq_open :: bool
  pq_faults :: "bool list"
  pq_order :: "QueryLog list \<Rightarrow> QueryLog list"
  pq_visit :: "(string \<times> string) list \<Rightarrow> (string \<times> string) list"

definition queryLogShardPrefix :: string where
  "queryLogShardPrefix = ''query_logs_''"

definition queryLogShardSuffix :: string where
  "queryLogShardSuffix = ''.db''"

definition queryLogShardDay :: "instant \<Rightarrow> string" where
  "queryLogShardDay t = formatDate (date (dayNumber t))"

definition shardPath :: "string \<Rightarrow> string" where
  "shardPath day = queryLogShardPrefix @ day @ queryLogShardSuffix"

definition parseQueryLogShardName :: "string \<Rightarrow> string option" where
  "parseQueryLogShardName name =
     (if \<not> HasPrefix name queryLogShardPrefix \<or> \<not> HasSuffix name queryLogShardSuffix then None
      else let day = TrimSuffix (TrimPrefix name queryLogShardPrefix) queryLogShardSuffix
           in if parseDate day = None then None else Some day)"

definition closeWriterLocked :: "PartitionedQueryLogStorage \<Rightarrow> (db_error + unit) \<times> PartitionedQueryLogStorage" where
  "closeWriterLocked s =
     (if \<not> pq_open s then (Inr (), s\<lparr>pq_writerDay := []\<rparr>)
      else case io (pq_faults s) of
             (failed, fs) \<Rightarrow> (if failed then Inl (Invalid ''close'') else Inr (),
                               s\<lparr>pq_writerDay := [], pq_open := False, pq_faults := fs\<rparr>))"

definition withFaults :: "bool list \<Rightarrow> PartitionedQueryLogStorage \<Rightarrow> PartitionedQueryLogStorage" where
  "withFaults fs s = s\<lparr>pq_faults := fs\<rparr>"

definition NewPartitionedQueryLogStorage ::
  "string \<Rightarrow> bool \<Rightarrow> (string \<times> logTable option) list \<Rightarrow> (QueryLog list \<Rightarrow> QueryLog list) \<Rightarrow> ((string \<times> string) list \<Rightarrow> (string \<times> string) list) \<Rightarrow> bool list
     \<Rightarrow> string + PartitionedQueryLogStorage" where
  "NewPartitionedQueryLogStorage dir mkdirFails files order visit fs =
     (if dir = [] then Inl ''dir''
      else if mkdirFails then Inl ''mkdir''
      else Inr \<lparr>pq_files = files, pq_writerDay = [], pq_open = False, pq_faults = fs, pq_order = order, pq_visit = visit\<rparr>)"

definition storageClose :: "PartitionedQueryLogStorage option \<Rightarrow> (db_error + unit) \<times> PartitionedQueryLogStorage option" where
  "storageClose st = (case st of None \<Rightarrow> (Inr (), None) | Some s \<Rightarrow> (case closeWriterLocked s of (r, s') \<Rightarrow> (r, Some s')))"

text \<open>
  Opening the connection creates the file, the schema its table and four indexes, if they do not
  exist. A failed ping may leave the new file behind.
\<close>

definition touchFile :: "string \<Rightarrow> (string \<times> logTable option) list \<Rightarrow> (string \<times> logTable option) list" where
  "touchFile name files = (case map_of files name of None \<Rightarrow> files @ [(name, None)] | Some _ \<Rightarrow> files)"

definition queryLogsTableSchema :: "string \<Rightarrow> (string \<times> logTable option) list \<Rightarrow> (string \<times> logTable option) list" where
  "queryLogsTableSchema name files =
     map (\<lambda>(n, t). (n, if n = name then (case t of None \<Rightarrow> Some emptyLogs | Some _ \<Rightarrow> t) else t)) files"

definition queryLogsIndexSchemas :: "string list" where
  "queryLogsIndexSchemas = [''timestamp'', ''domain'', ''client_ip'', ''source'']"

fun createIndexes :: "string list \<Rightarrow> bool list \<Rightarrow> bool \<times> bool list" where
  "createIndexes [] fs = (True, fs)"
| "createIndexes (i # is) fs = (case io fs of (True, fs') \<Rightarrow> (False, fs') | (False, fs') \<Rightarrow> createIndexes is fs')"

definition ensureQueryLogSchema ::
  "string \<Rightarrow> (string \<times> logTable option) list \<Rightarrow> bool list \<Rightarrow> bool \<times> (string \<times> logTable option) list \<times> bool list" where
  "ensureQueryLogSchema name files fs =
     (case io fs of
        (True, fs') \<Rightarrow> (False, files, fs')
      | (False, fs') \<Rightarrow> (case createIndexes queryLogsIndexSchemas fs' of (made, fs'') \<Rightarrow> (made, queryLogsTableSchema name files, fs'')))"

definition writerForDayLocked :: "string \<Rightarrow> PartitionedQueryLogStorage \<Rightarrow> (db_error + unit) \<times> PartitionedQueryLogStorage" where
  "writerForDayLocked day s0 =
     (if pq_open s0 \<and> pq_writerDay s0 = day then (Inr (), s0)
      else case closeWriterLocked s0 of
             (Inl e, s) \<Rightarrow> (Inl e, s)
           | (Inr _, s) \<Rightarrow>
               let name = shardPath day; opened = touchFile name (pq_files s)
               in case io (pq_faults s) of
                    (True, fs) \<Rightarrow> (Inl (Invalid ''open''), withFaults fs s)
                  | (False, fs) \<Rightarrow>
                      (case io fs of
                         (True, fs) \<Rightarrow>
                           (case io fs of
                              (left, fs) \<Rightarrow> (Inl (Invalid ''ping''), withFaults fs (if left then s\<lparr>pq_files := opened\<rparr> else s)))
                       | (False, fs) \<Rightarrow>
                           (case ensureQueryLogSchema name opened fs of
                              (made, files, fs) \<Rightarrow>
                                if \<not> made then (Inl (Invalid ''schema''), withFaults fs (s\<lparr>pq_files := files\<rparr>))
                                else (case io fs of
                                   (True, fs) \<Rightarrow> (Inl (Invalid ''pragma''), withFaults fs (s\<lparr>pq_files := files\<rparr>))
                                 | (False, fs) \<Rightarrow>
                                     (Inr (), s\<lparr>pq_files := files, pq_writerDay := day, pq_open := True, pq_faults := fs\<rparr>)))))"

definition storeTable :: "string \<Rightarrow> logTable \<Rightarrow> (string \<times> logTable option) list \<Rightarrow> (string \<times> logTable option) list" where
  "storeTable name t files = map (\<lambda>(n, u). (n, if n = name then Some t else u)) files"

definition shardTable :: "string \<Rightarrow> PartitionedQueryLogStorage \<Rightarrow> logTable option" where
  "shardTable day s = (case map_of (pq_files s) (shardPath day) of None \<Rightarrow> None | Some t \<Rightarrow> t)"

definition insertDay :: "string \<Rightarrow> QueryLog option list \<Rightarrow> PartitionedQueryLogStorage \<Rightarrow> (db_error + unit) \<times> PartitionedQueryLogStorage" where
  "insertDay day logs s0 =
     (case writerForDayLocked day s0 of
        (Inl e, s) \<Rightarrow> (Inl e, s)
      | (Inr _, s) \<Rightarrow>
          (case shardTable day s of
             None \<Rightarrow> (Inl ExecFailed, snd (closeWriterLocked s))
           | Some t \<Rightarrow>
               (case insertQueryLogBatch logs t (pq_faults s) of
                  (Inl e, fs) \<Rightarrow> (Inl e, snd (closeWriterLocked (withFaults fs s)))
                | (Inr t', fs) \<Rightarrow> (Inr (), s\<lparr>pq_files := storeTable (shardPath day) t' (pq_files s), pq_faults := fs\<rparr>))))"

fun insertDays ::
  "string list \<Rightarrow> (string \<Rightarrow> QueryLog option list) \<Rightarrow> PartitionedQueryLogStorage \<Rightarrow> (db_error + unit) \<times> PartitionedQueryLogStorage" where
  "insertDays [] grouped s = (Inr (), s)"
| "insertDays (day # days) grouped s =
     (case insertDay day (grouped day) s of
        (Inl e, s') \<Rightarrow> (Inl e, s')
      | (Inr _, s') \<Rightarrow> insertDays days grouped s')"

definition groupOf :: "QueryLog option list \<Rightarrow> string \<Rightarrow> QueryLog option list" where
  "groupOf logs day = filter (\<lambda>x. case x of None \<Rightarrow> False | Some l \<Rightarrow> queryLogShardDay (ql_Timestamp l) = day) logs"

definition logDays :: "QueryLog option list \<Rightarrow> string list" where
  "logDays logs = sort (remdups (map (\<lambda>l. queryLogShardDay (ql_Timestamp l)) (List.map_filter id logs)))"

definition BatchInsert :: "QueryLog option list \<Rightarrow> PartitionedQueryLogStorage \<Rightarrow> (db_error + unit) \<times> PartitionedQueryLogStorage" where
  "BatchInsert logs s = (if logs = [] \<or> logDays logs = [] then (Inr (), s) else insertDays (logDays logs) (groupOf logs) s)"

text \<open>The shards of the directory: days with file names. A missing directory has none.\<close>

definition listShardPaths :: "PartitionedQueryLogStorage \<Rightarrow> (string \<times> string) list" where
  "listShardPaths s =
     List.map_filter (\<lambda>(name, _). map_option (\<lambda>day. (day, name)) (parseQueryLogShardName name)) (pq_files s)"

definition matchingShardPaths :: "QueryLogFilter \<Rightarrow> PartitionedQueryLogStorage \<Rightarrow> string list" where
  "matchingShardPaths f s =
     (let startDay = (case f_StartTime f of None \<Rightarrow> [] | Some t \<Rightarrow> queryLogShardDay t);
          endDay = (case f_EndTime f of None \<Rightarrow> [] | Some t \<Rightarrow> queryLogShardDay t)
      in rev (sort (map snd (filter (\<lambda>(day, _). \<not> (startDay \<noteq> [] \<and> day < startDay) \<and> \<not> (endDay \<noteq> [] \<and> day > endDay))
           (listShardPaths s)))))"

text \<open>A file without the table is an error of the count.\<close>

definition queryShard ::
  "(QueryLog list \<Rightarrow> QueryLog list) \<Rightarrow> (QueryLog \<Rightarrow> bool) \<Rightarrow> int \<Rightarrow> logTable option \<Rightarrow> bool list
     \<Rightarrow> (db_error + int \<times> QueryLog list) \<times> bool list" where
  "queryShard order cond limit t =
     io_then QueryFailed (\<lambda>fs.
       case t of
         None \<Rightarrow> (Inl QueryFailed, fs)
       | Some t \<Rightarrow>
           (let rows = filter cond (lt_rows t)
            in io_then QueryFailed (io_then QueryFailed (\<lambda>fs.
                 (Inr (int (length rows), limitOffset limit 0 (order rows)), fs))) fs))"

fun queryShards ::
  "(QueryLog list \<Rightarrow> QueryLog list) \<Rightarrow> (QueryLog \<Rightarrow> bool) \<Rightarrow> int \<Rightarrow> (string \<times> logTable option) list \<Rightarrow> string list \<Rightarrow> bool list
     \<Rightarrow> (db_error + int \<times> QueryLog list) \<times> bool list" where
  "queryShards order cond limit files [] fs = (Inr (0, []), fs)"
| "queryShards order cond limit files (shard # shards) fs =
     io_then (Invalid ''open'') (\<lambda>fs.
       case queryShard order cond limit (case map_of files shard of None \<Rightarrow> None | Some t \<Rightarrow> t) fs of
         (r, fs) \<Rightarrow>
           (case io fs of
              (closeFailed, fs) \<Rightarrow>
                (case r of
                   Inl e \<Rightarrow> (Inl e, fs)
                 | Inr (n, logs) \<Rightarrow>
                     if closeFailed then (Inl (Invalid ''close''), fs)
                     else (case queryShards order cond limit files shards fs of
                             (Inl e, fs) \<Rightarrow> (Inl e, fs)
                           | (Inr (m, rest), fs) \<Rightarrow> (Inr (n + m, logs @ rest), fs))))) fs"

text \<open>The largest capacity of a slice of pointers that \<^verbatim>\<open>make\<close> accepts on a 64-bit machine.\<close>

definition maxSlice :: int where
  "maxSlice = 2 ^ 48 div 8"

definition pageOf :: "int \<Rightarrow> int \<Rightarrow> 'r list \<Rightarrow> 'r list" where
  "pageOf offset pageSize candidates =
     (if offset \<ge> int (length candidates) then []
      else let until = wrap64 (offset + pageSize);
               stop = (if until > int (length candidates) then int (length candidates) else until)
           in take (nat (stop - offset)) (drop (nat offset) candidates))"

definition Query ::
  "QueryLogFilter \<Rightarrow> PartitionedQueryLogStorage \<Rightarrow> (db_error + QueryLog list \<times> int) \<times> PartitionedQueryLogStorage" where
  "Query f0 s =
     (let f = normalizeQueryLogFilter f0;
          shards = matchingShardPaths f s;
          offset = wrap64 ((f_Page f - 1) * f_PageSize f);
          limit = wrap64 (offset + f_PageSize f)
      in case io_then (Invalid ''dir'') (\<lambda>fs.
           if shards = [] then (Inr ([], 0), fs)
           else if limit < 0 \<or> limit > maxSlice then (Inl panic, fs)
           else case queryShards (pq_order s) (buildQueryLogWhere f) limit (pq_files s) shards fs of
                  (Inl e, fs) \<Rightarrow> (Inl e, fs)
                | (Inr (n, candidates), fs) \<Rightarrow>
                    (if offset < 0 then (Inl panic, fs)
                     else (Inr (pageOf offset (f_PageSize f) (sort_key (\<lambda>l. (- ql_Timestamp l, - ql_ID l)) candidates), n), fs)))
             (pq_faults s) of
         (r, fs) \<Rightarrow> (r, withFaults fs s))"

text \<open>
  The three files of a shard are removed one after the other; what is not there is passed over. The iteration visits the
  shards in the order of the map.
\<close>

definition removeFile :: "string \<Rightarrow> (string \<times> logTable option) list \<Rightarrow> (string \<times> logTable option) list" where
  "removeFile name files = filter (\<lambda>(n, _). n \<noteq> name) files"

definition removeQueryLogShard :: "string \<Rightarrow> PartitionedQueryLogStorage \<Rightarrow> (db_error + bool) \<times> PartitionedQueryLogStorage" where
  "removeQueryLogShard name s =
     (case io (pq_faults s) of
        (True, fs) \<Rightarrow> (Inl (Invalid ''remove''), withFaults fs s)
      | (False, fs) \<Rightarrow>
          (let s' = s\<lparr>pq_files := removeFile name (pq_files s)\<rparr>
           in case io_then (Invalid ''remove'') (io_then (Invalid ''remove'') (\<lambda>fs. (Inr (map_of (pq_files s) name \<noteq> None), fs))) fs of
                (r, fs) \<Rightarrow> (r, withFaults fs s')))"

definition closeWriterForDay :: "string \<Rightarrow> PartitionedQueryLogStorage \<Rightarrow> (db_error + unit) \<times> PartitionedQueryLogStorage" where
  "closeWriterForDay day s = (if pq_writerDay s \<noteq> day then (Inr (), s) else closeWriterLocked s)"

fun deleteShards ::
  "string \<Rightarrow> (string \<times> string) list \<Rightarrow> int \<Rightarrow> PartitionedQueryLogStorage \<Rightarrow> (db_error + int) \<times> PartitionedQueryLogStorage" where
  "deleteShards cutoffDay [] n s = (Inr n, s)"
| "deleteShards cutoffDay ((day, path) # shards) n s =
     (if day \<ge> cutoffDay then deleteShards cutoffDay shards n s
      else case closeWriterForDay day s of
             (Inl e, s) \<Rightarrow> (Inl e, s)
           | (Inr _, s) \<Rightarrow>
               (case removeQueryLogShard path s of
                  (Inl e, s) \<Rightarrow> (Inl e, s)
                | (Inr removed, s) \<Rightarrow> deleteShards cutoffDay shards (if removed then n + 1 else n) s))"

definition DeleteBefore :: "instant \<Rightarrow> PartitionedQueryLogStorage \<Rightarrow> (db_error + int) \<times> PartitionedQueryLogStorage" where
  "DeleteBefore cutoff s =
     (case io (pq_faults s) of
        (True, fs) \<Rightarrow> (Inl (Invalid ''dir''), withFaults fs s)
      | (False, fs) \<Rightarrow> deleteShards (queryLogShardDay cutoff) (pq_visit s (listShardPaths s)) 0 (withFaults fs s))"

end
