(* ===== verification/QueryLogProps.thy ===== *)
theory QueryLogProps
  imports QueryLogs
begin

section \<open>The query log: what both implementations promise\<close>

text \<open>
  \<open>query_log_repository\<close> is the contract behind the Go interface of the same name: an insertion
  adds exactly the entries it reports, a deletion leaves what is not older than the cutoff. Both
  implementations are interpretations. For queries the partitioned storage is shown to give the
  pages of the single table.
\<close>

subsection \<open>Calls\<close>

lemma io_Nil [simp]: "io [] = (False, [])"
  by (simp add: io_def)

lemma io_then_Nil [simp]: "io_then e k [] = k []"
  by (simp add: io_then_def)

lemma io_then_Inr: "io_then e k fs = (Inr x, fs') \<Longrightarrow> \<exists>fs1. k fs1 = (Inr x, fs')"
  by (auto simp: io_then_def split: prod.splits if_splits)

subsection \<open>Entries\<close>

definition anon :: "QueryLog \<Rightarrow> QueryLog" where
  "anon l = l\<lparr>ql_ID := 0\<rparr>"

definition newLogs :: "QueryLog option list \<Rightarrow> QueryLog multiset" where
  "newLogs logs = mset (map anon (List.map_filter id logs))"

definition goodTime :: "instant \<Rightarrow> bool" where
  "goodTime t \<longleftrightarrow> 0 \<le> t \<and> fourDigits (dayNumber t)"

definition goodLogs :: "QueryLog option list \<Rightarrow> bool" where
  "goodLogs logs \<longleftrightarrow> (\<forall>l. Some l \<in> set logs \<longrightarrow> goodTime (ql_Timestamp l))"

lemma anon_simps [simp]: "ql_Timestamp (anon l) = ql_Timestamp l" "anon (l\<lparr>ql_ID := i\<rparr>) = anon l" "anon (anon l) = anon l"
  by (simp_all add: anon_def)

lemma map_filter_id: "List.map_filter id (None # xs) = List.map_filter id xs" "List.map_filter id (Some x # xs) = x # List.map_filter id xs"
  by (simp_all add: List.map_filter_def)

lemma insertLog_rows: "map anon (lt_rows (insertLog l t)) = map anon (lt_rows t) @ [anon l]"
  by (simp add: insertLog_def)

lemma execLogs_Inr:
  "execLogs skip logs t fs = (Inr t', fs') \<Longrightarrow> t' = fold insertLog (List.map_filter id logs) t"
proof (induction logs arbitrary: t fs)
  case (Cons x logs)
  then show ?case by (cases x) (auto simp: map_filter_id io_then_def split: prod.splits if_splits)
qed (simp add: List.map_filter_def)

lemma insertBatch_Inr: "insertBatch skip logs t fs = (Inr t', fs') \<Longrightarrow> t' = fold insertLog (List.map_filter id logs) t"
  by (auto simp: insertBatch_def dest!: io_then_Inr split: prod.splits sum.splits dest: execLogs_Inr)

lemma fold_insertLog_rows: "map anon (lt_rows (fold insertLog ls t)) = map anon (lt_rows t) @ map anon ls"
  by (induction ls arbitrary: t) (simp_all add: insertLog_rows)

lemma fold_insertLog_times: "map ql_Timestamp (lt_rows (fold insertLog ls t)) = map ql_Timestamp (lt_rows t) @ map ql_Timestamp ls"
  by (induction ls arbitrary: t) (simp_all add: insertLog_def)

subsection \<open>The contract\<close>

locale query_log_repository =
  fixes ok :: "'s \<Rightarrow> bool" and entries :: "'s \<Rightarrow> QueryLog multiset"
    and insert_logs :: "QueryLog option list \<Rightarrow> 's \<Rightarrow> (db_error + unit) \<times> 's"
    and delete_before :: "instant \<Rightarrow> 's \<Rightarrow> (db_error + int) \<times> 's"
  assumes insert_ok: "ok s \<Longrightarrow> goodLogs logs \<Longrightarrow> insert_logs logs s = (r, s') \<Longrightarrow>
      ok s' \<and> entries s \<subseteq># entries s' \<and> entries s' \<subseteq># entries s + newLogs logs"
    and insert_all: "ok s \<Longrightarrow> goodLogs logs \<Longrightarrow> insert_logs logs s = (Inr u, s') \<Longrightarrow> entries s' = entries s + newLogs logs"
    and delete_ok: "ok s \<Longrightarrow> goodTime cutoff \<Longrightarrow> delete_before cutoff s = (n, s') \<Longrightarrow>
      ok s' \<and> entries s' \<subseteq># entries s \<and> filter_mset (\<lambda>l. cutoff \<le> ql_Timestamp l) (entries s') = filter_mset (\<lambda>l. cutoff \<le> ql_Timestamp l) (entries s)"
begin

text \<open>An entry that is not older than \<open>since\<close> survives deletions up to \<open>since\<close>.\<close>

lemma delete_keeps:
  assumes "ok s" "goodTime cutoff" "cutoff \<le> since" "delete_before cutoff s = (n, s')"
  shows "ok s' \<and> filter_mset (\<lambda>l. since \<le> ql_Timestamp l) (entries s') = filter_mset (\<lambda>l. since \<le> ql_Timestamp l) (entries s)"
proof -
  have f: "filter_mset (\<lambda>l. since \<le> ql_Timestamp l) (filter_mset (\<lambda>l. cutoff \<le> ql_Timestamp l) M) = filter_mset (\<lambda>l. since \<le> ql_Timestamp l) M" for M
    using assms(3) by (auto simp: filter_filter_mset intro: filter_mset_cong)
  from delete_ok [OF assms(1,2,4)] f show ?thesis by metis
qed

end

subsection \<open>One table\<close>

definition ordersDesc :: "(QueryLog list \<Rightarrow> QueryLog list) \<Rightarrow> bool" where
  "ordersDesc order \<longleftrightarrow> (\<forall>rows. mset (order rows) = mset rows \<and> sorted (map (\<lambda>l. - ql_Timestamp l) (order rows)))"

definition logTable_ok :: "logTable \<Rightarrow> bool" where
  "logTable_ok t \<longleftrightarrow> keyed (map ql_ID (lt_rows t)) (lt_seq t)"

definition storage_ok :: "QueryLogStorage \<Rightarrow> bool" where
  "storage_ok s \<longleftrightarrow> logTable_ok (qs_table s) \<and> ordersDesc (qs_order s) \<and> (\<forall>rows. mset (qs_pick s rows) = mset rows)"

definition storageEntries :: "QueryLogStorage \<Rightarrow> QueryLog multiset" where
  "storageEntries s = mset (map anon (lt_rows (qs_table s)))"

lemma fold_insertLog_ok: "logTable_ok t \<Longrightarrow> logTable_ok (fold insertLog ls t)"
proof (induction ls arbitrary: t)
  case (Cons l ls)
  have "logTable_ok (insertLog l t)" using Cons.prems by (auto simp: logTable_ok_def insertLog_def)
  with Cons.IH show ?case by simp
qed simp

lemma deleteChunk_effect:
  assumes "deleteChunk pick cutoff t = (n, t')" and "logTable_ok t" and pick: "\<And>rows. mset (pick rows) = mset rows"
  shows "logTable_ok t'" and "\<exists>P. lt_rows t' = filter P (lt_rows t) \<and> (\<forall>l \<in> set (lt_rows t). cutoff \<le> ql_Timestamp l \<longrightarrow> P l)"
proof -
  define gone where "gone = set (take 5000 (pick (filter (\<lambda>l. ql_Timestamp l < cutoff) (lt_rows t))))"
  let ?P = "\<lambda>l. ql_ID l \<notin> ql_ID ` gone"
  from assms(1) have t': "t' = t\<lparr>lt_rows := filter ?P (lt_rows t)\<rparr>" by (simp add: deleteChunk_def Let_def gone_def)
  have "gone \<subseteq> set (filter (\<lambda>l. ql_Timestamp l < cutoff) (lt_rows t))"
    using pick [of "filter (\<lambda>l. ql_Timestamp l < cutoff) (lt_rows t)"] unfolding gone_def by (metis set_mset_mset set_take_subset)
  then have old: "gone \<subseteq> set (lt_rows t)" "\<forall>g \<in> gone. ql_Timestamp g < cutoff" by auto
  have inj: "inj_on ql_ID (set (lt_rows t))" using assms(2) by (simp add: logTable_ok_def keyed_def distinct_map)
  have "?P l" if l: "l \<in> set (lt_rows t)" "cutoff \<le> ql_Timestamp l" for l
  proof
    assume "ql_ID l \<in> ql_ID ` gone"
    then obtain g where g: "g \<in> gone" "ql_ID l = ql_ID g" by blast
    with inj_onD [OF inj g(2) l(1)] old(1) have "l = g" by blast
    with g(1) old(2) l(2) show False by fastforce
  qed
  with t' show "\<exists>P. lt_rows t' = filter P (lt_rows t) \<and> (\<forall>l \<in> set (lt_rows t). cutoff \<le> ql_Timestamp l \<longrightarrow> P l)"
    by (intro exI [of _ ?P]) simp
  show "logTable_ok t'" using keyed_filter [of ql_ID "lt_rows t" "lt_seq t" ?P] assms(2) by (simp add: t' logTable_ok_def)
qed

lemma kept_by_filter:
  assumes "\<forall>l \<in> set rows. cutoff \<le> ql_Timestamp l \<longrightarrow> P l"
  shows "mset (map anon (filter P rows)) \<subseteq># mset (map anon rows)"
    and "filter_mset (\<lambda>l. cutoff \<le> ql_Timestamp l) (mset (map anon (filter P rows)))
       = filter_mset (\<lambda>l. cutoff \<le> ql_Timestamp l) (mset (map anon rows))"
proof -
  show "mset (map anon (filter P rows)) \<subseteq># mset (map anon rows)" by (simp add: image_mset_subseteq_mono)
  have "filter (\<lambda>l. cutoff \<le> ql_Timestamp l) (map anon (filter P rows)) = filter (\<lambda>l. cutoff \<le> ql_Timestamp l) (map anon rows)"
    using assms by (induction rows) auto
  then show "filter_mset (\<lambda>l. cutoff \<le> ql_Timestamp l) (mset (map anon (filter P rows)))
       = filter_mset (\<lambda>l. cutoff \<le> ql_Timestamp l) (mset (map anon rows))" by (simp only: mset_filter [symmetric])
qed

lemma deleteLoop_effect:
  assumes "deleteLoop pick cutoff n t fs = (r, t', fs')" and "logTable_ok t" and pick: "\<And>rows. mset (pick rows) = mset rows"
  shows "logTable_ok t' \<and> (\<exists>P. lt_rows t' = filter P (lt_rows t) \<and> (\<forall>l \<in> set (lt_rows t). cutoff \<le> ql_Timestamp l \<longrightarrow> P l))"
  using assms
proof (induction pick cutoff n t fs rule: deleteLoop.induct)
  case (1 pick cutoff n t fs)
  obtain k t1 where c: "deleteChunk pick cutoff t = (k, t1)" by fastforce
  note chunk = deleteChunk_effect [OF c 1(3,4)]
  obtain f1 fs1 where f1: "io fs = (f1, fs1)" by fastforce
  obtain f2 fs2 where f2: "io fs1 = (f2, fs2)" by fastforce
  show ?case
  proof (cases "\<not> f1 \<and> \<not> f2 \<and> \<not> k < 5000")
    case True
    with 1(2) c f1 f2 have "deleteLoop pick cutoff (n + k) t1 fs2 = (r, t', fs')"
      by (subst (asm) deleteLoop.simps) simp
    with 1(1) [OF f1 [symmetric]] True c f1 f2 chunk(1) 1(4)
    have t': "logTable_ok t' \<and> (\<exists>P. lt_rows t' = filter P (lt_rows t1) \<and> (\<forall>l \<in> set (lt_rows t1). cutoff \<le> ql_Timestamp l \<longrightarrow> P l))"
      by auto
    then obtain P Q where P: "lt_rows t' = filter P (lt_rows t1)" "\<forall>l \<in> set (lt_rows t1). cutoff \<le> ql_Timestamp l \<longrightarrow> P l"
      and Q: "lt_rows t1 = filter Q (lt_rows t)" "\<forall>l \<in> set (lt_rows t). cutoff \<le> ql_Timestamp l \<longrightarrow> Q l" using chunk(2) by auto
    then have "lt_rows t' = filter (\<lambda>l. Q l \<and> P l) (lt_rows t)" "\<forall>l \<in> set (lt_rows t). cutoff \<le> ql_Timestamp l \<longrightarrow> Q l \<and> P l"
      by (simp_all add: conj_commute)
    with t' show ?thesis by blast
  next
    case False
    with 1(2) c f1 f2 have "t' = t \<or> t' = t1" by (subst (asm) deleteLoop.simps) (auto split: if_splits bool.splits)
    then show ?thesis
    proof
      assume "t' = t"
      then show ?thesis using 1(3) by (auto intro: exI [of _ "\<lambda>_. True"])
    qed (use chunk in simp)
  qed
qed

interpretation table_log: query_log_repository storage_ok storageEntries storageBatchInsert storageDeleteBefore
proof
  fix s logs r s'
  assume s: "storage_ok s" "storageBatchInsert logs s = (r, s')"
  have "s' = s\<lparr>qs_faults := qs_faults s'\<rparr> \<and> (r = Inr () \<longrightarrow> logs = []) \<or>
      qs_table s' = fold insertLog (List.map_filter id logs) (qs_table s) \<and> qs_order s' = qs_order s \<and> qs_pick s' = qs_pick s"
    using s(2) by (auto simp: storageBatchInsert_def split: if_splits prod.splits sum.splits dest!: insertBatch_Inr)
  then show "storage_ok s' \<and> storageEntries s \<subseteq># storageEntries s' \<and> storageEntries s' \<subseteq># storageEntries s + newLogs logs"
  proof
    assume "s' = s\<lparr>qs_faults := qs_faults s'\<rparr> \<and> (r = Inr () \<longrightarrow> logs = [])"
    then obtain fs where "s' = s\<lparr>qs_faults := fs\<rparr>" by blast
    with s(1) show ?thesis by (simp add: storage_ok_def storageEntries_def)
  next
    assume "qs_table s' = fold insertLog (List.map_filter id logs) (qs_table s) \<and> qs_order s' = qs_order s \<and> qs_pick s' = qs_pick s"
    with s(1) show ?thesis
      using fold_insertLog_rows [of "List.map_filter id logs" "qs_table s"]
      by (simp add: storage_ok_def storageEntries_def newLogs_def fold_insertLog_ok del: mset_map)
  qed
next
  fix s logs u s'
  assume "storageBatchInsert logs s = (Inr u, s')"
  then show "storageEntries s' = storageEntries s + newLogs logs"
    using fold_insertLog_rows [of "List.map_filter id logs" "qs_table s"]
    by (auto simp: storageBatchInsert_def storageEntries_def newLogs_def List.map_filter_def simp del: mset_map
        split: if_splits prod.splits sum.splits dest!: insertBatch_Inr)
next
  fix s cutoff n s'
  assume s: "storage_ok s" "storageDeleteBefore cutoff s = (n, s')"
  obtain r t fs where d: "deleteLoop (qs_pick s) cutoff 0 (qs_table s) (qs_faults s) = (r, t, fs)" by (metis prod_cases3)
  then have s': "s' = s\<lparr>qs_table := t, qs_faults := fs\<rparr>" using s(2) by (auto simp: storageDeleteBefore_def split: sum.splits prod.splits)
  from deleteLoop_effect [OF d] s(1) obtain P where t: "logTable_ok t" and P: "lt_rows t = filter P (lt_rows (qs_table s))"
    "\<forall>l \<in> set (lt_rows (qs_table s)). cutoff \<le> ql_Timestamp l \<longrightarrow> P l" by (auto simp: storage_ok_def)
  from s(1) t kept_by_filter [OF P(2)] show "storage_ok s' \<and> storageEntries s' \<subseteq># storageEntries s \<and>
      filter_mset (\<lambda>l. cutoff \<le> ql_Timestamp l) (storageEntries s') = filter_mset (\<lambda>l. cutoff \<le> ql_Timestamp l) (storageEntries s)"
    by (simp add: storage_ok_def storageEntries_def s' P(1) del: mset_map mset_filter)
qed


subsection \<open>One file per day\<close>

definition fileRows :: "string \<times> logTable option \<Rightarrow> QueryLog list" where
  "fileRows = (\<lambda>(n, t). if parseQueryLogShardName n = None then [] else case t of None \<Rightarrow> [] | Some t \<Rightarrow> lt_rows t)"

definition shardRows :: "(string \<times> logTable option) list \<Rightarrow> QueryLog list" where
  "shardRows files = concat (map fileRows files)"

definition shards_ok :: "(string \<times> logTable option) list \<Rightarrow> bool" where
  "shards_ok files \<longleftrightarrow> distinct (map fst files) \<and> (\<forall>n t. (n, t) \<in> set files \<longrightarrow> (\<forall>l \<in> set (fileRows (n, t)).
     goodTime (ql_Timestamp l) \<and> parseQueryLogShardName n = Some (queryLogShardDay (ql_Timestamp l))))"

definition plogs_ok :: "PartitionedQueryLogStorage \<Rightarrow> bool" where
  "plogs_ok s \<longleftrightarrow> shards_ok (pq_files s) \<and> ordersDesc (pq_order s) \<and> (\<forall>xs. mset (pq_visit s xs) = mset xs)"

definition plogEntries :: "PartitionedQueryLogStorage \<Rightarrow> QueryLog multiset" where
  "plogEntries s = mset (map anon (shardRows (pq_files s)))"

text \<open>\<open>sameSetup\<close>: only files, writer and faults differ.\<close>

definition sameSetup :: "PartitionedQueryLogStorage \<Rightarrow> PartitionedQueryLogStorage \<Rightarrow> bool" where
  "sameSetup s s' \<longleftrightarrow> pq_order s' = pq_order s \<and> pq_visit s' = pq_visit s"

lemma parseDate_length: "parseDate day \<noteq> None \<Longrightarrow> length day = 10"
  by (auto simp: parseDate_def split: list.splits)

lemma parse_name:
  assumes "parseQueryLogShardName n = Some day"
  shows "n = shardPath day"
proof -
  from assms have pre: "HasPrefix n queryLogShardPrefix" and suf: "HasSuffix n queryLogShardSuffix"
    and day: "day = TrimSuffix (TrimPrefix n queryLogShardPrefix) queryLogShardSuffix" "parseDate day \<noteq> None"
    by (auto simp: parseQueryLogShardName_def Let_def split: if_splits)
  from pre obtain r where n: "n = queryLogShardPrefix @ r" by (auto simp: HasPrefix_iff)
  from suf obtain q where q: "n = q @ queryLogShardSuffix" by (auto simp: HasSuffix_iff)
  have r: "day = TrimSuffix r queryLogShardSuffix" using day(1) n by simp
  have "HasSuffix r queryLogShardSuffix"
  proof (rule ccontr)
    assume no: "\<not> HasSuffix r queryLogShardSuffix"
    then have "length r = 10" using r parseDate_length [OF day(2)] by (simp add: TrimSuffix_def)
    moreover have eq: "queryLogShardPrefix @ r = q @ queryLogShardSuffix" using n q by simp
    moreover have "length queryLogShardPrefix = 11" "length queryLogShardSuffix = 3"
      by (simp_all add: queryLogShardPrefix_def queryLogShardSuffix_def)
    moreover have "length queryLogShardPrefix + length r = length q + length queryLogShardSuffix"
      using eq by (metis length_append)
    ultimately have "length q = length queryLogShardPrefix + 7" by linarith
    then have "drop 7 r = queryLogShardSuffix" using arg_cong [OF eq, of "drop (length q)"] by simp
    with no show False by (metis HasSuffix_iff append_take_drop_id)
  qed
  then obtain d where "r = d @ queryLogShardSuffix" by (auto simp: HasSuffix_iff)
  with r n show ?thesis by (simp add: shardPath_def)
qed

lemma parse_shardPath: "goodTime t \<Longrightarrow> parseQueryLogShardName (shardPath (queryLogShardDay t)) = Some (queryLogShardDay t)"
proof -
  assume "goodTime t"
  then have "parseDate (queryLogShardDay t) \<noteq> None" by (simp add: queryLogShardDay_def parseDate_format goodTime_def)
  moreover have "HasSuffix (queryLogShardPrefix @ queryLogShardDay t @ queryLogShardSuffix) queryLogShardSuffix"
    using HasSuffix_append [of "queryLogShardPrefix @ queryLogShardDay t" queryLogShardSuffix] by simp
  ultimately show ?thesis by (simp add: parseQueryLogShardName_def shardPath_def Let_def)
qed

lemma touchFile_shards: "shards_ok files \<Longrightarrow> shards_ok (touchFile n files)" "shardRows (touchFile n files) = shardRows files"
  by (auto simp: touchFile_def shards_ok_def shardRows_def fileRows_def map_of_eq_None_iff split: option.splits)

lemma ensure_fileRows:
  "map fileRows (queryLogsTableSchema n files) = map fileRows files" "map fst (queryLogsTableSchema n files) = map fst files"
  by (auto simp: queryLogsTableSchema_def fileRows_def emptyLogs_def split: option.splits)

lemma ensure_shards: "shards_ok files \<Longrightarrow> shards_ok (queryLogsTableSchema n files)" "shardRows (queryLogsTableSchema n files) = shardRows files"
proof -
  show "shardRows (queryLogsTableSchema n files) = shardRows files" by (simp add: shardRows_def ensure_fileRows)
  assume ok: "shards_ok files"
  have "\<exists>u. (m, u) \<in> set files \<and> fileRows (m, u) = fileRows (m, t)" if "(m, t) \<in> set (queryLogsTableSchema n files)" for m t
    using that by (force simp: queryLogsTableSchema_def fileRows_def emptyLogs_def split: option.splits if_splits)
  with ok show "shards_ok (queryLogsTableSchema n files)" unfolding shards_ok_def ensure_fileRows by metis
qed

lemma close_effect:
  "closeWriterLocked s = (r, s') \<Longrightarrow> pq_files s' = pq_files s \<and> sameSetup s s'"
  by (auto simp: closeWriterLocked_def sameSetup_def split: if_splits prod.splits)

lemma writer_effect:
  assumes "writerForDayLocked day s = (r, s')" and "shards_ok (pq_files s)"
  shows "shards_ok (pq_files s') \<and> shardRows (pq_files s') = shardRows (pq_files s) \<and> sameSetup s s'"
proof -
  obtain c s1 where c: "closeWriterLocked s = (c, s1)" by fastforce
  note s1 = close_effect [OF c]
  let ?n = "shardPath day"
  have made: "fst (snd (ensureQueryLogSchema n files fs)) \<in> {files, queryLogsTableSchema n files}" for n files fs
    by (auto simp: ensureQueryLogSchema_def split: prod.splits bool.splits)
  obtain m files fs where schema: "ensureQueryLogSchema ?n (touchFile ?n (pq_files s1)) (snd (io (snd (io (pq_faults s1))))) = (m, files, fs)"
    by (metis prod_cases3)
  have "pq_files s' \<in> {pq_files s, touchFile ?n (pq_files s), queryLogsTableSchema ?n (touchFile ?n (pq_files s))} \<and> sameSetup s s'"
    using assms(1) c s1 schema made [of ?n "touchFile ?n (pq_files s1)" "snd (io (snd (io (pq_faults s1))))"]
    by (auto simp: writerForDayLocked_def Let_def withFaults_def sameSetup_def split: if_splits prod.splits sum.splits bool.splits)
  with assms(2) touchFile_shards ensure_shards show ?thesis by auto
qed

lemma fileRows_store:
  assumes "map_of files n = Some (Some t)" and "distinct (map fst files)" and "parseQueryLogShardName n \<noteq> None"
    and "map anon (lt_rows t') = map anon (lt_rows t) @ new"
  shows "mset (map anon (shardRows (storeTable n t' files))) = mset (map anon (shardRows files)) + mset new"
  using assms
proof (induction files)
  case (Cons x files)
  obtain m u where x: "x = (m, u)" by fastforce
  show ?case
  proof (cases "m = n")
    case True
    then have u: "u = Some t" and "n \<notin> fst ` set files" using Cons.prems x by auto
    then have "storeTable n t' files = files" by (force simp: storeTable_def intro!: map_idI)
    then have "map anon (shardRows (storeTable n t' (x # files))) = (map anon (lt_rows t) @ new) @ map anon (shardRows files)"
      using True u x Cons.prems(3,4) by (auto simp: storeTable_def shardRows_def fileRows_def)
    moreover have "map anon (shardRows (x # files)) = map anon (lt_rows t) @ map anon (shardRows files)"
      using True u x Cons.prems(3) by (auto simp: shardRows_def fileRows_def)
    ultimately show ?thesis by (simp only: mset_append ac_simps)
  next
    case False
    with Cons x show ?thesis by (auto simp: storeTable_def shardRows_def fileRows_def)
  qed
qed simp

lemma shards_ok_store:
  assumes "shards_ok files" and "parseQueryLogShardName n = Some day"
    and "\<forall>l \<in> set (lt_rows t'). goodTime (ql_Timestamp l) \<and> queryLogShardDay (ql_Timestamp l) = day"
  shows "shards_ok (storeTable n t' files)"
proof -
  have "map fst (storeTable n t' files) = map fst files" by (auto simp: storeTable_def)
  moreover have "goodTime (ql_Timestamp l) \<and> parseQueryLogShardName m = Some (queryLogShardDay (ql_Timestamp l))"
    if "(m, u) \<in> set (storeTable n t' files)" "l \<in> set (fileRows (m, u))" for m u l
  proof (cases "m = n")
    case True
    with that assms(2,3) show ?thesis by (auto simp: storeTable_def fileRows_def)
  next
    case False
    with that(1) have "(m, u) \<in> set files" by (auto simp: storeTable_def)
    with that(2) assms(1) show ?thesis unfolding shards_ok_def by blast
  qed
  ultimately show ?thesis using assms(1) unfolding shards_ok_def by metis
qed

definition dayLogs :: "string \<Rightarrow> QueryLog option list \<Rightarrow> bool" where
  "dayLogs day logs \<longleftrightarrow> parseQueryLogShardName (shardPath day) = Some day
     \<and> (\<forall>l. Some l \<in> set logs \<longrightarrow> goodTime (ql_Timestamp l) \<and> queryLogShardDay (ql_Timestamp l) = day)"

lemma map_filter_id_set: "set (List.map_filter id xs) = {x. Some x \<in> set xs}"
  by (induction xs) (auto simp: List.map_filter_def)

lemma insertDay_effect:
  assumes "insertDay day logs s = (r, s')" and ok: "shards_ok (pq_files s)" and logs: "dayLogs day logs"
  shows "shards_ok (pq_files s') \<and> sameSetup s s' \<and>
    plogEntries s' = (if r = Inr () then plogEntries s + newLogs logs else plogEntries s)"
proof -
  obtain g s1 where w: "writerForDayLocked day s = (g, s1)" by fastforce
  note s1 = writer_effect [OF w ok]
  have closed: "pq_files (snd (closeWriterLocked u)) = pq_files u \<and> sameSetup u (snd (closeWriterLocked u))" for u
    by (metis close_effect prod.collapse)
  show ?thesis
  proof (cases "\<exists>t t' fs. g = Inr () \<and> shardTable day s1 = Some t \<and> insertQueryLogBatch logs t (pq_faults s1) = (Inr t', fs)")
    case False
    have "isl r \<and> pq_files s' = pq_files s1 \<and> sameSetup s1 s'"
    proof (cases g)
      case (Inl e)
      then show ?thesis using assms(1) w by (auto simp: insertDay_def sameSetup_def)
    next
      case (Inr u)
      show ?thesis
      proof (cases "shardTable day s1")
        case None
        then show ?thesis using assms(1) w Inr closed [of s1] by (auto simp: insertDay_def)
      next
        case (Some t)
        obtain q fs where q: "insertQueryLogBatch logs t (pq_faults s1) = (q, fs)" by fastforce
        with False Inr Some have "\<nexists>t'. q = Inr t'" by auto
        then obtain e where i: "insertQueryLogBatch logs t (pq_faults s1) = (Inl e, fs)" using q by (cases q) auto
        then have "r = Inl e" "s' = snd (closeWriterLocked (withFaults fs s1))" using assms(1) w Inr Some by (simp_all add: insertDay_def)
        then show ?thesis using closed [of "withFaults fs s1"] by (simp add: sameSetup_def withFaults_def)
      qed
    qed
    with s1 show ?thesis by (auto simp: plogEntries_def sameSetup_def)
  next
    case True
    then obtain t t' fs where t: "g = Inr ()" "shardTable day s1 = Some t" "insertQueryLogBatch logs t (pq_faults s1) = (Inr t', fs)" by blast
    let ?n = "shardPath day"
    from assms(1) w t have r: "r = Inr ()" and s': "s' = s1\<lparr>pq_files := storeTable ?n t' (pq_files s1), pq_faults := fs\<rparr>"
      by (simp_all add: insertDay_def)
    have t': "t' = fold insertLog (List.map_filter id logs) t" using t(3) insertBatch_Inr by (auto simp: insertQueryLogBatch_def)
    have stored: "map_of (pq_files s1) ?n = Some (Some t)" using t(2) by (simp add: shardTable_def split: option.splits)
    then have mem: "(?n, Some t) \<in> set (pq_files s1)" by (rule map_of_SomeD)
    have n: "parseQueryLogShardName ?n = Some day" using logs by (simp add: dayLogs_def)
    have old: "goodTime (ql_Timestamp l) \<and> queryLogShardDay (ql_Timestamp l) = day" if "l \<in> set (lt_rows t)" for l
    proof -
      have "l \<in> set (fileRows (?n, Some t))" using that n by (simp add: fileRows_def)
      with s1 mem have "goodTime (ql_Timestamp l) \<and> parseQueryLogShardName ?n = Some (queryLogShardDay (ql_Timestamp l))"
        unfolding shards_ok_def by blast
      with n show ?thesis by simp
    qed
    have times: "ql_Timestamp ` set (lt_rows t') = ql_Timestamp ` set (lt_rows t) \<union> ql_Timestamp ` {l. Some l \<in> set logs}"
      using arg_cong [OF fold_insertLog_times [of "List.map_filter id logs" t], of set] by (simp add: t' map_filter_id_set)
    have "\<forall>l \<in> set (lt_rows t'). goodTime (ql_Timestamp l) \<and> queryLogShardDay (ql_Timestamp l) = day"
    proof
      fix l
      assume "l \<in> set (lt_rows t')"
      then have "ql_Timestamp l \<in> ql_Timestamp ` set (lt_rows t) \<union> ql_Timestamp ` {l. Some l \<in> set logs}" using times by blast
      with old logs show "goodTime (ql_Timestamp l) \<and> queryLogShardDay (ql_Timestamp l) = day" by (auto simp: dayLogs_def)
    qed
    with s1 shards_ok_store [OF _ n] have "shards_ok (pq_files s')" by (simp add: s')
    moreover have "plogEntries s' = plogEntries s + newLogs logs"
      using fileRows_store [OF stored _ _ fold_insertLog_rows [of "List.map_filter id logs" t]] s1 n
      by (simp add: plogEntries_def s' newLogs_def t' shards_ok_def del: mset_map)
    ultimately show ?thesis using r s' s1 by (simp add: sameSetup_def)
  qed
qed

lemma insertDays_effect:
  assumes "insertDays days grouped s = (r, s')" and "shards_ok (pq_files s)" and "\<forall>day \<in> set days. dayLogs day (grouped day)"
  shows "shards_ok (pq_files s') \<and> sameSetup s s' \<and> plogEntries s \<subseteq># plogEntries s'
    \<and> plogEntries s' \<subseteq># plogEntries s + (\<Sum>day \<leftarrow> days. newLogs (grouped day))
    \<and> (r = Inr () \<longrightarrow> plogEntries s' = plogEntries s + (\<Sum>day \<leftarrow> days. newLogs (grouped day)))"
  using assms
proof (induction days arbitrary: s)
  case (Cons day days)
  obtain g s1 where g: "insertDay day (grouped day) s = (g, s1)" by fastforce
  have s1: "shards_ok (pq_files s1) \<and> sameSetup s s1 \<and>
      plogEntries s1 = (if g = Inr () then plogEntries s + newLogs (grouped day) else plogEntries s)"
    using insertDay_effect [OF g Cons.prems(2)] Cons.prems(3) by simp
  show ?case
  proof (cases g)
    case (Inl e)
    with g Cons.prems(1) have "r = Inl e" "s' = s1" by simp_all
    with s1 Inl show ?thesis by simp
  next
    case (Inr u)
    with g Cons.prems(1) have "insertDays days grouped s1 = (r, s')" by simp
    from Cons.IH [OF this] s1 Cons.prems(3)
    have s': "shards_ok (pq_files s')" "sameSetup s1 s'" "plogEntries s1 \<subseteq># plogEntries s'"
      "plogEntries s' \<subseteq># plogEntries s1 + (\<Sum>day \<leftarrow> days. newLogs (grouped day))"
      "r = Inr () \<longrightarrow> plogEntries s' = plogEntries s1 + (\<Sum>day \<leftarrow> days. newLogs (grouped day))" by simp_all
    have e: "plogEntries s1 = plogEntries s + newLogs (grouped day)" using s1 Inr by simp
    have "plogEntries s \<subseteq># plogEntries s'" using s'(3) unfolding e by (rule subset_mset.order_trans [rotated]) simp
    with s' s1 show ?thesis by (simp add: e sameSetup_def add.assoc)
  qed
qed (simp add: sameSetup_def)

lemma newLogs_filter_add:
  assumes "\<And>x. x \<in> set logs \<Longrightarrow> \<not> (P x \<and> Q x)"
  shows "newLogs (filter P logs) + newLogs (filter Q logs) = newLogs (filter (\<lambda>x. P x \<or> Q x) logs)"
  using assms
proof (induction logs)
  case (Cons x logs)
  then have "newLogs (filter P logs) + newLogs (filter Q logs) = newLogs (filter (\<lambda>x. P x \<or> Q x) logs)" "\<not> (P x \<and> Q x)" by simp_all
  then show ?case by (cases x) (auto simp: newLogs_def map_filter_id simp flip: add_mset_add_single)
qed (simp add: newLogs_def List.map_filter_def)

definition onDays :: "string set \<Rightarrow> QueryLog option \<Rightarrow> bool" where
  "onDays D x = (case x of None \<Rightarrow> False | Some l \<Rightarrow> queryLogShardDay (ql_Timestamp l) \<in> D)"

lemma groups_sum:
  "distinct days \<Longrightarrow> (\<Sum>day \<leftarrow> days. newLogs (groupOf logs day)) = newLogs (filter (onDays (set days)) logs)"
proof (induction days)
  case Nil
  have "filter (onDays {}) logs = []" by (simp add: onDays_def filter_empty_conv split: option.splits)
  then show ?case by (simp add: newLogs_def List.map_filter_def)
next
  case (Cons day days)
  have g: "groupOf logs day = filter (onDays {day}) logs"
    unfolding groupOf_def onDays_def by (rule filter_cong) (auto split: option.splits)
  have "newLogs (filter (onDays {day}) logs) + newLogs (filter (onDays (set days)) logs)
      = newLogs (filter (\<lambda>x. onDays {day} x \<or> onDays (set days) x) logs)"
    using Cons.prems by (intro newLogs_filter_add) (auto simp: onDays_def split: option.splits)
  also have "(\<lambda>x. onDays {day} x \<or> onDays (set days) x) = onDays (set (day # days))"
    by (auto simp: onDays_def fun_eq_iff split: option.splits)
  finally show ?case using Cons by (simp add: g)
qed

lemma logDays_set: "set (logDays logs) = {queryLogShardDay (ql_Timestamp l) | l. Some l \<in> set logs}"
  by (auto simp: logDays_def map_filter_id_set)

lemma all_groups: "(\<Sum>day \<leftarrow> logDays logs. newLogs (groupOf logs day)) = newLogs logs"
proof -
  have "newLogs (filter (onDays D) xs) = newLogs xs" if "\<forall>l. Some l \<in> set xs \<longrightarrow> queryLogShardDay (ql_Timestamp l) \<in> D" for D xs
    using that
  proof (induction xs)
    case (Cons x xs)
    then show ?case by (cases x) (auto simp: newLogs_def map_filter_id onDays_def)
  qed simp
  from this [of logs "set (logDays logs)"] show ?thesis by (subst groups_sum) (auto simp: logDays_set, simp add: logDays_def)
qed

lemma groups_on_day: "goodLogs logs \<Longrightarrow> day \<in> set (logDays logs) \<Longrightarrow> dayLogs day (groupOf logs day)"
  by (auto simp: dayLogs_def logDays_set groupOf_def goodLogs_def intro!: parse_shardPath)

lemma BatchInsert_effect:
  assumes "BatchInsert logs s = (r, s')" and "plogs_ok s" and "goodLogs logs"
  shows "plogs_ok s' \<and> plogEntries s \<subseteq># plogEntries s' \<and> plogEntries s' \<subseteq># plogEntries s + newLogs logs
    \<and> (r = Inr () \<longrightarrow> plogEntries s' = plogEntries s + newLogs logs)"
proof (cases "logs = [] \<or> logDays logs = []")
  case True
  then have "newLogs logs = {#}" using all_groups [of logs] by (auto simp: newLogs_def List.map_filter_def)
  with True assms show ?thesis by (simp add: BatchInsert_def)
next
  case False
  with assms(1) have "insertDays (logDays logs) (groupOf logs) s = (r, s')" by (simp add: BatchInsert_def)
  from insertDays_effect [OF this] assms(2,3) groups_on_day show ?thesis
    by (simp add: plogs_ok_def all_groups sameSetup_def)
qed


text \<open>A deletion drops whole files, of days before the cutoff's.\<close>

definition dropsOld :: "string \<Rightarrow> (string \<times> logTable option) list \<Rightarrow> (string \<times> logTable option) list \<Rightarrow> bool" where
  "dropsOld cutoffDay files files' \<longleftrightarrow> (\<exists>P. files' = filter P files
     \<and> (\<forall>x \<in> set files. \<not> P x \<longrightarrow> (\<exists>day. parseQueryLogShardName (fst x) = Some day \<and> day < cutoffDay)))"

lemma dropsOld_refl: "dropsOld c files files"
  unfolding dropsOld_def by (intro exI [of _ "\<lambda>_. True"]) simp

lemma dropsOld_trans:
  assumes "dropsOld c files files1" and "dropsOld c files1 files2"
  shows "dropsOld c files files2"
proof -
  from assms obtain P Q where P: "files1 = filter P files" "\<forall>x \<in> set files. \<not> P x \<longrightarrow> (\<exists>day. parseQueryLogShardName (fst x) = Some day \<and> day < c)"
    and Q: "files2 = filter Q files1" "\<forall>x \<in> set files1. \<not> Q x \<longrightarrow> (\<exists>day. parseQueryLogShardName (fst x) = Some day \<and> day < c)"
    unfolding dropsOld_def by auto
  then show ?thesis unfolding dropsOld_def by (intro exI [of _ "\<lambda>x. P x \<and> Q x"]) (auto simp: conj_commute)
qed

lemma remove_effect:
  assumes "removeQueryLogShard n s = (r, s')" and "parseQueryLogShardName n = Some day" and "day < c"
  shows "dropsOld c (pq_files s) (pq_files s') \<and> sameSetup s s'"
proof -
  have "dropsOld c (pq_files s) (removeFile n (pq_files s))"
    unfolding dropsOld_def removeFile_def using assms(2,3) by (intro exI [of _ "\<lambda>(m, _). m \<noteq> n"]) auto
  moreover have "pq_files s' \<in> {pq_files s, removeFile n (pq_files s)} \<and> sameSetup s s'"
    using assms(1) by (auto simp: removeQueryLogShard_def sameSetup_def withFaults_def Let_def split: prod.splits bool.splits)
  ultimately show ?thesis using dropsOld_refl by auto
qed

lemma deleteShards_effect:
  assumes "deleteShards c shards n s = (r, s')" and "\<forall>(day, path) \<in> set shards. parseQueryLogShardName path = Some day"
  shows "dropsOld c (pq_files s) (pq_files s') \<and> sameSetup s s'"
  using assms
proof (induction shards arbitrary: n s)
  case (Cons x shards)
  obtain day path where x: "x = (day, path)" by fastforce
  obtain g s1 where g: "closeWriterForDay day s = (g, s1)" by fastforce
  then have s1: "pq_files s1 = pq_files s \<and> sameSetup s s1"
    by (auto simp: closeWriterForDay_def sameSetup_def split: if_splits dest: close_effect)
  obtain q s2 where q: "removeQueryLogShard path s1 = (q, s2)" by fastforce
  show ?case
  proof (cases "day \<ge> c \<or> isl g")
    case True
    with Cons x g s1 dropsOld_refl show ?thesis by (cases g) (auto split: if_splits)
  next
    case False
    then have s2: "dropsOld c (pq_files s1) (pq_files s2) \<and> sameSetup s1 s2"
      using remove_effect [OF q, of day c] Cons.prems(2) x by auto
    obtain u where u: "g = Inr u" using False by (cases g) auto
    have s': "s' = s2 \<or> (\<exists>m. deleteShards c shards m s2 = (r, s'))"
      using Cons.prems(1) False x g u q by (cases q) auto
    have "dropsOld c (pq_files s2) (pq_files s') \<and> sameSetup s2 s'"
    proof (cases "s' = s2")
      case True
      then show ?thesis by (simp add: dropsOld_refl sameSetup_def)
    next
      case False
      with s' obtain m where "deleteShards c shards m s2 = (r, s')" by blast
      from Cons.IH [OF this] Cons.prems(2) show ?thesis by simp
    qed
    with s1 s2 dropsOld_trans show ?thesis by (auto simp: sameSetup_def)
  qed
qed (simp add: sameSetup_def dropsOld_refl)

lemma dayNumber_mono: "t \<le> t' \<Longrightarrow> dayNumber t \<le> dayNumber t'"
  by (simp add: dayNumber_def nat_mono zdiv_mono1 seconds_def)

lemma day_not_older:
  assumes "goodTime cutoff" "goodTime t" "queryLogShardDay t < queryLogShardDay cutoff"
  shows "t < cutoff"
proof -
  have "dayNumber t < dayNumber cutoff" using assms by (simp add: queryLogShardDay_def goodTime_def formatDate_iff)
  then show ?thesis using dayNumber_mono [of cutoff t] by (meson leD leI)
qed

lemma dropsOld_entries:
  assumes "dropsOld (queryLogShardDay cutoff) files files'" and ok: "shards_ok files" and cut: "goodTime cutoff"
  shows "shards_ok files'" and "mset (map anon (shardRows files')) \<subseteq># mset (map anon (shardRows files))"
    and "filter (\<lambda>l. cutoff \<le> ql_Timestamp l) (map anon (shardRows files')) = filter (\<lambda>l. cutoff \<le> ql_Timestamp l) (map anon (shardRows files))"
proof -
  from assms(1) obtain P where P: "files' = filter P files"
    and old: "\<forall>x \<in> set files. \<not> P x \<longrightarrow> (\<exists>day. parseQueryLogShardName (fst x) = Some day \<and> day < queryLogShardDay cutoff)"
    unfolding dropsOld_def by blast
  show "shards_ok files'" using ok by (auto simp: P shards_ok_def distinct_map_filter)
  have "ql_Timestamp l < cutoff" if x: "x \<in> set files" "\<not> P x" "l \<in> set (fileRows x)" for x l
  proof -
    obtain n t where nt: "x = (n, t)" by fastforce
    with ok x have l: "goodTime (ql_Timestamp l)" "parseQueryLogShardName n = Some (queryLogShardDay (ql_Timestamp l))"
      unfolding shards_ok_def by blast+
    with old x nt have "queryLogShardDay (ql_Timestamp l) < queryLogShardDay cutoff" by fastforce
    with day_not_older [OF cut l(1)] show ?thesis by blast
  qed
  then have "\<forall>x \<in> set files. \<not> P x \<longrightarrow> (\<forall>l \<in> set (fileRows x). \<not> cutoff \<le> ql_Timestamp l)" by fastforce
  then have "mset (map anon (shardRows (filter P files))) \<subseteq># mset (map anon (shardRows files))
    \<and> filter (\<lambda>l. cutoff \<le> ql_Timestamp l) (map anon (shardRows (filter P files))) = filter (\<lambda>l. cutoff \<le> ql_Timestamp l) (map anon (shardRows files))"
  proof (induction files)
    case (Cons x files)
    then have IH: "mset (map anon (shardRows (filter P files))) \<subseteq># mset (map anon (shardRows files))"
      "filter (\<lambda>l. cutoff \<le> ql_Timestamp l) (map anon (shardRows (filter P files))) = filter (\<lambda>l. cutoff \<le> ql_Timestamp l) (map anon (shardRows files))"
      by simp_all
    have rows: "shardRows (x # files) = fileRows x @ shardRows files" for x files by (simp add: shardRows_def)
    have gone: "\<not> P x \<Longrightarrow> filter (\<lambda>l. cutoff \<le> ql_Timestamp l) (map anon (fileRows x)) = []"
      using Cons.prems by (auto simp: filter_empty_conv)
    show ?case
    proof (cases "P x")
      case False
      from IH(1) have "mset (map anon (shardRows (filter P files))) \<subseteq># mset (map anon (fileRows x)) + mset (map anon (shardRows files))"
        by (metis mset_subset_eq_add_right subset_mset.order_trans)
      with False gone IH(2) show ?thesis by (simp only: filter.simps if_False rows map_append mset_append filter_append) simp
    qed (use IH in \<open>simp add: rows\<close>)
  qed simp
  then show "mset (map anon (shardRows files')) \<subseteq># mset (map anon (shardRows files))"
    and "filter (\<lambda>l. cutoff \<le> ql_Timestamp l) (map anon (shardRows files')) = filter (\<lambda>l. cutoff \<le> ql_Timestamp l) (map anon (shardRows files))"
    by (simp_all only: P)
qed

lemma listShardPaths_set: "(day, path) \<in> set (listShardPaths s) \<Longrightarrow> parseQueryLogShardName path = Some day"
  by (auto simp: listShardPaths_def List.map_filter_def)

lemma DeleteBefore_effect:
  assumes "DeleteBefore cutoff s = (n, s')" and ok: "plogs_ok s" and cut: "goodTime cutoff"
  shows "plogs_ok s' \<and> plogEntries s' \<subseteq># plogEntries s
    \<and> filter_mset (\<lambda>l. cutoff \<le> ql_Timestamp l) (plogEntries s') = filter_mset (\<lambda>l. cutoff \<le> ql_Timestamp l) (plogEntries s)"
proof -
  obtain f fs where f: "io (pq_faults s) = (f, fs)" by fastforce
  have visit: "\<forall>(day, path) \<in> set (pq_visit s (listShardPaths s)). parseQueryLogShardName path = Some day"
  proof -
    have "set (pq_visit s (listShardPaths s)) = set (listShardPaths s)" using ok unfolding plogs_ok_def by (metis mset_eq_setD)
    then show ?thesis using listShardPaths_set by auto
  qed
  have d: "dropsOld (queryLogShardDay cutoff) (pq_files s) (pq_files s') \<and> sameSetup s s'"
  proof (cases f)
    case True
    with assms(1) f show ?thesis by (auto simp: DeleteBefore_def withFaults_def sameSetup_def dropsOld_refl)
  next
    case False
    with assms(1) f have "deleteShards (queryLogShardDay cutoff) (pq_visit s (listShardPaths s)) 0 (withFaults fs s) = (n, s')"
      by (simp add: DeleteBefore_def)
    from deleteShards_effect [OF this visit] show ?thesis by (simp add: withFaults_def sameSetup_def)
  qed
  from ok have files: "shards_ok (pq_files s)" by (simp add: plogs_ok_def)
  from dropsOld_entries [OF _ files cut] d ok show ?thesis
    by (simp add: plogs_ok_def sameSetup_def plogEntries_def flip: mset_filter del: mset_map)
qed

interpretation day_log: query_log_repository plogs_ok plogEntries BatchInsert DeleteBefore
proof
  fix s logs r s'
  assume "plogs_ok s" "goodLogs logs" "BatchInsert logs s = (r, s')"
  then show "plogs_ok s' \<and> plogEntries s \<subseteq># plogEntries s' \<and> plogEntries s' \<subseteq># plogEntries s + newLogs logs"
    using BatchInsert_effect by blast
next
  fix s logs u s'
  assume "plogs_ok s" "goodLogs logs" "BatchInsert logs s = (Inr u, s')"
  then show "plogEntries s' = plogEntries s + newLogs logs" using BatchInsert_effect by fastforce
next
  fix s cutoff n s'
  assume "plogs_ok s" "goodTime cutoff" "DeleteBefore cutoff s = (n, s')"
  then show "plogs_ok s' \<and> plogEntries s' \<subseteq># plogEntries s
    \<and> filter_mset (\<lambda>l. cutoff \<le> ql_Timestamp l) (plogEntries s') = filter_mset (\<lambda>l. cutoff \<le> ql_Timestamp l) (plogEntries s)"
    using DeleteBefore_effect by blast
qed


subsection \<open>The log writer and the cleaner on one storage\<close>

text \<open>
  A history of a storage: batches that the log writer sends and runs of the cleaner, in any
  order. Its value is what the storage acknowledged and the storage after it.
\<close>

datatype logEvent = LogBatch "QueryLog option list" | LogClean instant

fun logHistory ::
  "(QueryLog option list \<Rightarrow> 's \<Rightarrow> (db_error + unit) \<times> 's) \<Rightarrow> (instant \<Rightarrow> 's \<Rightarrow> (db_error + int) \<times> 's) \<Rightarrow> int
     \<Rightarrow> logEvent list \<Rightarrow> 's \<Rightarrow> QueryLog multiset \<times> 's" where
  "logHistory store clean days [] s = ({#}, s)"
| "logHistory store clean days (LogClean now # es) s = logHistory store clean days es (cleanup days clean now s)"
| "logHistory store clean days (LogBatch logs # es) s =
     (case store logs s of
        (r, s1) \<Rightarrow> (case logHistory store clean days es s1 of
          (acked, s2) \<Rightarrow> ((case r of Inl _ \<Rightarrow> {#} | Inr _ \<Rightarrow> newLogs logs) + acked, s2)))"

definition goodHistory :: "int \<Rightarrow> instant \<Rightarrow> logEvent list \<Rightarrow> bool" where
  "goodHistory days since es \<longleftrightarrow> list_all (\<lambda>e. case e of
     LogBatch logs \<Rightarrow> list_all (\<lambda>x. case x of None \<Rightarrow> True | Some l \<Rightarrow> goodTime (ql_Timestamp l)) logs
   | LogClean now \<Rightarrow> goodTime (now - seconds (86400 * days)) \<and> now - seconds (86400 * days) \<le> since) es"

definition recent :: "instant \<Rightarrow> QueryLog multiset \<Rightarrow> QueryLog multiset" where
  "recent since = filter_mset (\<lambda>l. since \<le> ql_Timestamp l)"

context query_log_repository
begin

lemma history_retained:
  assumes "ok s" and "goodHistory days since es" and "logHistory insert_logs delete_before days es s = (acked, s')"
  shows "ok s' \<and> recent since (entries s) + recent since acked \<subseteq># entries s'"
  using assms
proof (induction es arbitrary: s acked)
  case Nil
  then show ?case by (simp add: recent_def)
next
  case (Cons e es)
  from Cons.prems(2) have es: "goodHistory days since es" by (simp add: goodHistory_def)
  show ?case
  proof (cases e)
    case (LogClean now)
    let ?cut = "now - seconds (86400 * days)"
    obtain n s1 where d: "delete_before ?cut s = (n, s1)" by fastforce
    from Cons.prems(2) LogClean have "goodTime ?cut" "?cut \<le> since" by (simp_all add: goodHistory_def)
    from delete_keeps [OF Cons.prems(1) this d]
    have s1: "ok s1" "recent since (entries s1) = recent since (entries s)" by (simp_all add: recent_def)
    from Cons.prems(3) LogClean d have "logHistory insert_logs delete_before days es s1 = (acked, s')" by (simp add: cleanup_def)
    from Cons.IH [OF s1(1) es this] s1(2) show ?thesis by simp
  next
    case (LogBatch logs)
    obtain r s1 where i: "insert_logs logs s = (r, s1)" by fastforce
    obtain acked1 where h: "logHistory insert_logs delete_before days es s1 = (acked1, s')"
      and acked: "acked = (case r of Inl _ \<Rightarrow> {#} | Inr _ \<Rightarrow> newLogs logs) + acked1"
      using Cons.prems(3) LogBatch i by (auto split: prod.splits)
    have "\<forall>x \<in> set logs. case x of None \<Rightarrow> True | Some l \<Rightarrow> goodTime (ql_Timestamp l)"
      using Cons.prems(2) LogBatch by (simp add: goodHistory_def list_all_iff)
    then have good: "goodLogs logs" by (force simp: goodLogs_def)
    have s1: "ok s1" "entries s + (case r of Inl _ \<Rightarrow> {#} | Inr _ \<Rightarrow> newLogs logs) \<subseteq># entries s1"
      using insert_ok [OF Cons.prems(1) good i] insert_all [OF Cons.prems(1) good] i by (auto split: sum.splits)
    have "recent since (entries s) + recent since acked \<subseteq># recent since (entries s1) + recent since acked1"
      using multiset_filter_mono [OF s1(2), of "\<lambda>l. since \<le> ql_Timestamp l"] by (simp add: acked recent_def flip: add.assoc)
    with Cons.IH [OF s1(1) es h] show ?thesis using subset_mset.order_trans by blast
  qed
qed

end

text \<open>C17: What the day-partitioned query log acknowledged is kept for the retention period. Take any history of insert
  batches and runs of the cleaner on a well-formed storage, under any failures of the file system and of SQLite
  (the storage's script of faults). If no run of the cleaner has a cutoff after \<open>since\<close>, then every entry not older than \<open>since\<close>
  that was there at the start, or that a batch stored with success, is in the storage at the end, as often as it was
  inserted, and every file still holds entries of its own day only.\<close>

theorem acknowledged_logs_retained:
  assumes "plogs_ok s" and "goodHistory days since es"
  shows "plogs_ok (snd (logHistory BatchInsert DeleteBefore days es s))
    \<and> recent since (plogEntries s) + recent since (fst (logHistory BatchInsert DeleteBefore days es s))
        \<subseteq># plogEntries (snd (logHistory BatchInsert DeleteBefore days es s))"
  using day_log.history_retained [OF assms, of "fst (logHistory BatchInsert DeleteBefore days es s)"] by (metis prod.collapse)

definition sample_log :: "int \<Rightarrow> QueryLog" where
  "sample_log t = \<lparr>ql_ID = 0, ql_Timestamp = seconds t, ql_ClientIP = ''10.0.0.1'', ql_Domain = ''www.example.com'', ql_QueryType = ''A'',
     ql_ResponseCode = ''NOERROR'', ql_ResponseSource = ''zone'', ql_LatencyMs = 1, ql_ResponseData = [], ql_Protocol = ''udp'',
     ql_ResponseSize = 45, ql_EDNSPresent = False, ql_EDNSVersion = 0, ql_EDNSBufferSize = 0\<rparr>"

definition sample_plogs :: "bool list \<Rightarrow> PartitionedQueryLogStorage" where
  "sample_plogs fs = \<lparr>pq_files = [], pq_writerDay = [], pq_open = False, pq_faults = fs, pq_order = sort_key (\<lambda>l. - ql_Timestamp l),
     pq_visit = (\<lambda>xs. xs)\<rparr>"

definition sample_history :: "logEvent list" where
  "sample_history = [LogBatch [Some (sample_log 100), None], LogBatch [Some (sample_log 691200)], LogClean (seconds 777600)]"

lemma sample_plogs_ok: "plogs_ok (sample_plogs fs)"
  by (simp add: plogs_ok_def sample_plogs_def shards_ok_def ordersDesc_def)

lemma sample_days:
  "dayNumber (seconds 100) = 0" "dayNumber (seconds 691200) = 8" "dayNumber (seconds 172800) = 2" "dayNumber 172800000000000 = 2"
  by (simp_all add: dayNumber_def seconds_def)

lemma sample_dates: "date 0 = (1, 1, 1)" "date 2 = (1, 1, 3)" "date 8 = (1, 1, 9)"
  by (simp_all add: date_def yearOf.simps monthOf.simps yearDays_def monthDays_def leapYear_def)

lemma sample_history_good: "goodHistory 7 (seconds 172800) sample_history"
  by (simp add: goodHistory_def sample_history_def goodTime_def fourDigits_def sample_log_def sample_days sample_dates)
    (simp add: seconds_def sample_days sample_dates)

lemma sample_batches:
  "fst (logHistory BatchInsert DeleteBefore 7 sample_history (sample_plogs [False, False, True])) = {# anon (sample_log 691200) #}"
  by (simp add: sample_history_def BatchInsert_def logDays_def map_filter_id sample_plogs_def insertDay_def
    writerForDayLocked_def closeWriterLocked_def io_def io_then_def touchFile_def ensureQueryLogSchema_def queryLogsIndexSchemas_def queryLogsTableSchema_def shardTable_def Let_def
    insertQueryLogBatch_def insertBatch_def groupOf_def sample_log_def withFaults_def emptyLogs_def newLogs_def insertLog_def anon_def
    List.map_filter_def)


theorem acknowledged_logs_retained_witness:
  "plogs_ok (sample_plogs [False, False, True]) \<and> goodHistory 7 (seconds 172800) sample_history
   \<and> anon (sample_log 691200) \<in># plogEntries (snd (logHistory BatchInsert DeleteBefore 7 sample_history (sample_plogs [False, False, True])))"
proof -
  have "plogEntries (sample_plogs [False, False, True]) = {#}" by (simp add: plogEntries_def sample_plogs_def shardRows_def)
  moreover have "recent (seconds 172800) {# anon (sample_log 691200) #} = {# anon (sample_log 691200) #}"
    by (simp add: recent_def sample_log_def seconds_def)
  ultimately have "{# anon (sample_log 691200) #} \<subseteq># plogEntries (snd (logHistory BatchInsert DeleteBefore 7 sample_history (sample_plogs [False, False, True])))"
    using acknowledged_logs_retained [OF sample_plogs_ok sample_history_good, of "[False, False, True]"]
    by (simp add: sample_batches recent_def)
  then show ?thesis using sample_plogs_ok sample_history_good by (auto intro: mset_subset_eqD)
qed

end
