(* ===== verification/QueryLogPages.thy ===== *)
theory QueryLogPages
  imports QueryLogProps
begin

section \<open>The query log: pages of the partitioned storage\<close>

text \<open>
  A query of the partitioned storage asks every shard for its newest rows, as many as the pages
  up to the wanted one hold, sorts them together and cuts the page out. Here: that this gives
  the timestamps and the count that one table with the same entries gives.
\<close>

subsection \<open>Merging sorted prefixes\<close>

lemma take_insort:
  fixes b :: int
  assumes "sorted c" and "k \<le> length (filter (\<lambda>x. x \<le> b) c)"
  shows "take k (insort b c) = take k c"
  using assms
proof (induction c arbitrary: k)
  case (Cons y ys)
  show ?case
  proof (cases k)
    case (Suc j)
    have "y \<le> b"
    proof (rule ccontr)
      assume "\<not> y \<le> b"
      with Cons.prems(1) have "filter (\<lambda>x. x \<le> b) (y # ys) = []" by (auto simp: filter_empty_conv)
      with Cons.prems(2) Suc show False by (metis le_zero_eq list.size(3) nat.distinct(1))
    qed
    moreover from this have "insort b (y # ys) = y # insort b ys"
      using Cons.prems(1) by (cases "b = y") (auto simp: insort_is_Cons)
    ultimately show ?thesis using Cons.IH [of j] Cons.prems Suc by simp
  qed simp
qed simp

lemma take_sort_append:
  fixes C :: "int list"
  assumes "\<forall>b \<in> set B. k \<le> length (filter (\<lambda>x. x \<le> b) C)"
  shows "take k (sort (B @ C)) = take k (sort C)"
  using assms
proof (induction B)
  case (Cons b B)
  have "length (filter (\<lambda>x. x \<le> b) (sort (B @ C))) = length (filter (\<lambda>x. x \<le> b) (B @ C))"
    by (metis mset_filter mset_sort size_mset)
  then have "take k (insort b (sort (B @ C))) = take k (sort (B @ C))" using Cons.prems by (intro take_insort) simp_all
  with Cons show ?case by simp
qed simp

lemma take_sort_prefix:
  fixes xs :: "int list"
  shows "take k (sort (take k (sort xs) @ ys)) = take k (sort (xs @ ys))"
proof -
  let ?A = "take k (sort xs)" and ?B = "drop k (sort xs)"
  have "k \<le> length (filter (\<lambda>x. x \<le> b) (?A @ ys))" if "b \<in> set ?B" for b
  proof -
    have "sorted (?A @ ?B)" by simp
    then have "\<forall>a \<in> set ?A. a \<le> b" using that unfolding sorted_append by blast
    then have "filter (\<lambda>x. x \<le> b) ?A = ?A" by simp
    moreover have "length ?A = k" using that by (cases "k \<le> length xs") auto
    ultimately show ?thesis by simp
  qed
  then have "take k (sort (?B @ ?A @ ys)) = take k (sort (?A @ ys))" by (intro take_sort_append) blast
  moreover have "mset (?B @ ?A @ ys) = mset (xs @ ys)"
    using arg_cong [OF append_take_drop_id [of k "sort xs"], of mset] by (simp only: mset_append mset_sort) (simp add: ac_simps)
  then have "sort (?B @ ?A @ ys) = sort (xs @ ys)" by (metis properties_for_sort mset_sort sorted_sort)
  ultimately show ?thesis by simp
qed

lemma take_sort_concat:
  fixes xss :: "int list list"
  shows "take k (sort (concat (map (\<lambda>xs. take k (sort xs)) xss))) = take k (sort (concat xss))"
proof (induction xss)
  case (Cons xs xss)
  let ?T = "concat (map (\<lambda>xs. take k (sort xs)) xss)"
  have swap: "sort (a @ b) = sort (b @ a)" for a b :: "int list" by (rule properties_for_sort) (simp_all add: add.commute)
  have "take k (sort (take k (sort xs) @ ?T)) = take k (sort (take k (sort ?T) @ xs))"
    by (simp only: take_sort_prefix swap [of ?T])
  also have "\<dots> = take k (sort (concat (xs # xss)))" unfolding Cons.IH take_sort_prefix by (simp only: swap [of "concat xss"] concat.simps)
  finally show ?case by simp
qed simp

text \<open>Keys of a list of rows in the order of a query.\<close>

definition keys :: "QueryLog list \<Rightarrow> int list" where
  "keys rows = map (\<lambda>l. - ql_Timestamp l) rows"

lemma keys_simps [simp]: "keys [] = []" "keys (xs @ ys) = keys xs @ keys ys" "keys (take k xs) = take k (keys xs)" "keys (drop k xs) = drop k (keys xs)"
  by (simp_all add: keys_def take_map drop_map)

lemma keys_times: "keys xs = keys ys \<Longrightarrow> map ql_Timestamp xs = map ql_Timestamp ys"
proof -
  assume "keys xs = keys ys"
  moreover have "map ql_Timestamp zs = map uminus (keys zs)" for zs by (simp add: keys_def comp_def)
  ultimately show ?thesis by simp
qed

lemma sort_keys_cong: "mset xs = mset ys \<Longrightarrow> sort (keys xs) = sort (keys ys)"
  by (rule properties_for_sort) (simp_all add: keys_def)

lemma keys_ordered: "ordersDesc order \<Longrightarrow> keys (order rows) = sort (keys rows)"
  by (rule sym, rule properties_for_sort) (simp_all add: ordersDesc_def keys_def)

lemma keys_sorted: "keys (sort_key (\<lambda>l. (- ql_Timestamp l, - ql_ID l)) rows) = sort (keys rows)"
proof (rule sym, rule properties_for_sort)
  have "sorted (map (\<lambda>l. (- ql_Timestamp l, - ql_ID l)) (sort_key (\<lambda>l. (- ql_Timestamp l, - ql_ID l)) rows))" by simp
  then show "sorted (keys (sort_key (\<lambda>l. (- ql_Timestamp l, - ql_ID l)) rows))"
    unfolding keys_def sorted_map by (rule sorted_wrt_mono_rel [rotated]) auto
qed (simp add: keys_def)


subsection \<open>The shards of a query\<close>

definition rowsAt :: "(string \<times> logTable option) list \<Rightarrow> string \<Rightarrow> QueryLog list" where
  "rowsAt files n = (case map_of files n of Some (Some t) \<Rightarrow> lt_rows t | _ \<Rightarrow> [])"

definition hasTables :: "(string \<times> logTable option) list \<Rightarrow> bool" where
  "hasTables files \<longleftrightarrow> list_all (\<lambda>(n, t). parseQueryLogShardName n \<noteq> None \<longrightarrow> t \<noteq> None) files"

lemma queryShards_calm:
  assumes "\<forall>n \<in> set shards. \<exists>t. map_of files n = Some (Some t)"
  shows "queryShards order cond limit files shards [] =
    (Inr (\<Sum>n \<leftarrow> shards. int (length (filter cond (rowsAt files n))),
          concat (map (\<lambda>n. limitOffset limit 0 (order (filter cond (rowsAt files n)))) shards)), [])"
  using assms
proof (induction shards)
  case (Cons n shards)
  then obtain t where "map_of files n = Some (Some t)" by auto
  with Cons show ?case by (simp add: queryShard_def Let_def rowsAt_def)
qed simp

text \<open>Whether a query looks into a file.\<close>

definition visits :: "QueryLogFilter \<Rightarrow> string \<times> logTable option \<Rightarrow> bool" where
  "visits f x = (case parseQueryLogShardName (fst x) of None \<Rightarrow> False | Some day \<Rightarrow>
     (case f_StartTime f of None \<Rightarrow> True | Some t \<Rightarrow> queryLogShardDay t \<le> day)
     \<and> (case f_EndTime f of None \<Rightarrow> True | Some t \<Rightarrow> day \<le> queryLogShardDay t))"

lemma shardDay_nonempty: "queryLogShardDay t \<noteq> []"
  by (simp add: queryLogShardDay_def formatDate_def pad4_def split: prod.splits)

lemma matching_mset: "mset (matchingShardPaths f s) = mset (map fst (filter (visits f) (pq_files s)))"
proof -
  define S where "S = (\<lambda>(day, _ :: string). \<not> ((case f_StartTime f of None \<Rightarrow> [] | Some t \<Rightarrow> queryLogShardDay t) \<noteq> [] \<and> day < (case f_StartTime f of None \<Rightarrow> [] | Some t \<Rightarrow> queryLogShardDay t))
    \<and> \<not> ((case f_EndTime f of None \<Rightarrow> [] | Some t \<Rightarrow> queryLogShardDay t) \<noteq> [] \<and> day > (case f_EndTime f of None \<Rightarrow> [] | Some t \<Rightarrow> queryLogShardDay t)))"
  have sel: "S (day, n) \<longleftrightarrow> (case f_StartTime f of None \<Rightarrow> True | Some t \<Rightarrow> queryLogShardDay t \<le> day)
     \<and> (case f_EndTime f of None \<Rightarrow> True | Some t \<Rightarrow> day \<le> queryLogShardDay t)" for day and n :: string
    by (auto simp: S_def shardDay_nonempty not_less split: option.splits)
  have paths: "map snd (filter S (List.map_filter (\<lambda>(name, _). map_option (\<lambda>day. (day, name)) (parseQueryLogShardName name)) files))
      = map fst (filter (visits f) files)" for files :: "(string \<times> logTable option) list"
  proof (induction files)
    case (Cons x files)
    obtain n t where x: "x = (n, t)" by fastforce
    show ?case
    proof (cases "parseQueryLogShardName n")
      case None
      with Cons x show ?thesis by (simp add: List.map_filter_simps visits_def)
    next
      case (Some day)
      have "visits f x \<longleftrightarrow> S (day, n)" unfolding sel by (simp add: visits_def x Some)
      with Cons x Some show ?thesis by (simp add: List.map_filter_simps)
    qed
  qed (simp add: List.map_filter_def)
  have "matchingShardPaths f s = rev (sort (map snd (filter S (listShardPaths s))))"
    by (simp only: matchingShardPaths_def Let_def S_def)
  then show ?thesis by (simp only: listShardPaths_def paths mset_rev mset_sort)
qed

lemma rowsAt_file:
  assumes "shards_ok files" and "x \<in> set files" and "visits f x"
  shows "rowsAt files (fst x) = fileRows x"
proof -
  have "map_of files (fst x) = Some (snd x)" using assms(1,2) by (simp add: shards_ok_def)
  then show ?thesis using assms(3) by (auto simp: rowsAt_def fileRows_def visits_def split: option.splits prod.splits)
qed

text \<open>A file that is not visited has no row that the filter accepts.\<close>

lemma unvisited_empty:
  assumes "shards_ok files" and "x \<in> set files" and "\<not> visits f x"
    and times: "\<forall>t. f_StartTime f = Some t \<or> f_EndTime f = Some t \<longrightarrow> goodTime t"
  shows "filter (buildQueryLogWhere f) (fileRows x) = []"
proof -
  have "\<not> buildQueryLogWhere f l" if l: "l \<in> set (fileRows x)" for l
  proof
    assume w: "buildQueryLogWhere f l"
    obtain n u where x: "x = (n, u)" by fastforce
    with assms(1,2) l have g: "goodTime (ql_Timestamp l)" "parseQueryLogShardName n = Some (queryLogShardDay (ql_Timestamp l))"
      unfolding shards_ok_def by blast+
    have "f_StartTime f = Some t \<Longrightarrow> queryLogShardDay t \<le> queryLogShardDay (ql_Timestamp l)" for t
      using w day_not_older [of t "ql_Timestamp l"] g times by (force simp: buildQueryLogWhere_def not_less)
    moreover have "f_EndTime f = Some t \<Longrightarrow> queryLogShardDay (ql_Timestamp l) \<le> queryLogShardDay t" for t
      using w day_not_older [of "ql_Timestamp l" t] g times by (force simp: buildQueryLogWhere_def not_less)
    ultimately have "visits f x" using g x by (auto simp: visits_def split: option.splits)
    with assms(3) show False by simp
  qed
  then show ?thesis by (simp add: filter_empty_conv)
qed


lemma mset_concat_cong:
  assumes "mset xs = mset ys"
  shows "mset (concat (map g xs)) = mset (concat (map g ys))"
proof -
  have "mset (concat (map g zs)) = (\<Sum>x \<in># mset zs. mset (g x))" for zs by (induction zs) simp_all
  with assms show ?thesis by simp
qed

lemma visited_rows:
  assumes ok: "shards_ok (pq_files s)" and times: "\<forall>t. f_StartTime f = Some t \<or> f_EndTime f = Some t \<longrightarrow> goodTime t"
  shows "mset (concat (map (\<lambda>n. filter (buildQueryLogWhere f) (rowsAt (pq_files s) n)) (matchingShardPaths f s)))
    = mset (filter (buildQueryLogWhere f) (shardRows (pq_files s)))"
proof -
  let ?c = "buildQueryLogWhere f" and ?files = "pq_files s"
  have "mset (concat (map (\<lambda>n. filter ?c (rowsAt ?files n)) (matchingShardPaths f s)))
      = mset (concat (map (\<lambda>n. filter ?c (rowsAt ?files n)) (map fst (filter (visits f) ?files))))"
    by (rule mset_concat_cong [OF matching_mset])
  also have "map (\<lambda>n. filter ?c (rowsAt ?files n)) (map fst (filter (visits f) ?files)) = map (\<lambda>x. filter ?c (fileRows x)) (filter (visits f) ?files)"
  proof -
    have "filter ?c (rowsAt ?files (fst x)) = filter ?c (fileRows x)" if "x \<in> set (filter (visits f) ?files)" for x
      using rowsAt_file [OF ok, of x f] that by simp
    then show ?thesis by (simp only: map_map comp_def cong: map_cong)
  qed
  also have "concat (map (\<lambda>x. filter ?c (fileRows x)) (filter (visits f) xs)) = filter ?c (shardRows xs)" if "set xs \<subseteq> set ?files" for xs
    using that
  proof (induction xs)
    case (Cons x xs)
    have "visits f x \<or> filter ?c (fileRows x) = []" using unvisited_empty [OF ok _ _ times, of x] Cons.prems by auto
    with Cons show ?case by (auto simp: shardRows_def)
  qed (simp add: shardRows_def)
  finally show ?thesis by simp
qed

lemma pageOf_take:
  assumes "0 \<le> offset" "0 \<le> n" "offset + n < 2 ^ 62"
  shows "pageOf offset n xs = take (nat n) (drop (nat offset) xs)"
proof -
  have w: "wrap64 (offset + n) = offset + n" using assms by (intro wrap64_id) (simp add: int64_range_def)
  show ?thesis
  proof (cases "offset + n > int (length xs)")
    case True
    then show ?thesis using assms by (auto simp: pageOf_def w Let_def nat_le_iff) 
  next
    case False
    then show ?thesis using assms by (auto simp: pageOf_def w Let_def nat_le_iff)
  qed
qed


subsection \<open>The page\<close>

lemma where_anon [simp]: "buildQueryLogWhere f (anon l) = buildQueryLogWhere f l"
  by (simp add: buildQueryLogWhere_def anon_def split: option.splits)

lemma anon_where: "map anon (filter (buildQueryLogWhere f) rows) = filter (buildQueryLogWhere f) (map anon rows)"
  by (induction rows) simp_all

lemma keys_by_entries:
  assumes "mset (map anon xs) = mset (map anon ys)"
  shows "sort (keys (filter (buildQueryLogWhere f) xs)) = sort (keys (filter (buildQueryLogWhere f) ys))"
    and "length (filter (buildQueryLogWhere f) xs) = length (filter (buildQueryLogWhere f) ys)"
proof -
  have k: "keys (filter (buildQueryLogWhere f) zs) = keys (filter (buildQueryLogWhere f) (map anon zs))" for zs
    by (induction zs) (simp_all add: keys_def)
  have "mset (keys (filter (buildQueryLogWhere f) (map anon xs))) = mset (keys (filter (buildQueryLogWhere f) (map anon ys)))"
    unfolding keys_def mset_map [of "\<lambda>l. - ql_Timestamp l"] mset_filter by (simp only: assms)
  then have m: "mset (keys (filter (buildQueryLogWhere f) xs)) = mset (keys (filter (buildQueryLogWhere f) ys))" by (simp only: k [of xs] k [of ys])
  then show "sort (keys (filter (buildQueryLogWhere f) xs)) = sort (keys (filter (buildQueryLogWhere f) ys))"
    by (metis mset_sort properties_for_sort sorted_sort)
  from m show "length (filter (buildQueryLogWhere f) xs) = length (filter (buildQueryLogWhere f) ys)"
    using mset_eq_length by (fastforce simp: keys_def)
qed

lemma merged_keys:
  assumes "ordersDesc order"
  shows "take k (sort (keys (concat (map (\<lambda>n. take k (order (g n))) ns)))) = take k (sort (keys (concat (map g ns))))"
proof -
  have "keys (concat (map (\<lambda>n. take k (order (g n))) ns)) = concat (map (\<lambda>xs. take k (sort xs)) (map (\<lambda>n. keys (g n)) ns))"
    by (induction ns) (simp_all add: keys_ordered [OF assms])
  moreover have "keys (concat (map g ns)) = concat (map (\<lambda>n. keys (g n)) ns)" by (induction ns) simp_all
  ultimately show ?thesis by (simp only: take_sort_concat)
qed

text \<open>Filters that the query can answer: times with a date of four-digit years, and a page whose rows fit into one slice.\<close>

definition goodFilter :: "QueryLogFilter \<Rightarrow> bool" where
  "goodFilter f \<longleftrightarrow> (case f_StartTime f of None \<Rightarrow> True | Some t \<Rightarrow> goodTime t) \<and> (case f_EndTime f of None \<Rightarrow> True | Some t \<Rightarrow> goodTime t)
     \<and> f_Page f * 200 \<le> maxSlice"

lemma normalize_where: "buildQueryLogWhere (normalizeQueryLogFilter f) = buildQueryLogWhere f"
  by (simp add: fun_eq_iff buildQueryLogWhere_def normalizeQueryLogFilter_def Let_def)

lemma normalize_times [simp]:
  "f_StartTime (normalizeQueryLogFilter f) = f_StartTime f" "f_EndTime (normalizeQueryLogFilter f) = f_EndTime f"
  by (simp_all add: normalizeQueryLogFilter_def Let_def)

lemma normalize_bounds:
  assumes "goodFilter f"
  shows "1 \<le> f_Page (normalizeQueryLogFilter f)" "1 \<le> f_PageSize (normalizeQueryLogFilter f)"
    "f_Page (normalizeQueryLogFilter f) * f_PageSize (normalizeQueryLogFilter f) \<le> maxSlice"
proof -
  let ?f = "normalizeQueryLogFilter f"
  show p: "1 \<le> f_Page ?f" "1 \<le> f_PageSize ?f" by (auto simp: normalizeQueryLogFilter_def Let_def)
  have "f_PageSize ?f \<le> 200" by (auto simp: normalizeQueryLogFilter_def Let_def)
  then have "f_Page ?f * f_PageSize ?f \<le> f_Page ?f * 200" using p by (simp add: mult_left_mono)
  also have "\<dots> \<le> maxSlice" using assms by (auto simp: goodFilter_def normalizeQueryLogFilter_def Let_def maxSlice_def)
  finally show "f_Page ?f * f_PageSize ?f \<le> maxSlice" .
qed

lemma matching_tables:
  assumes "shards_ok (pq_files s)" and "hasTables (pq_files s)" and "n \<in> set (matchingShardPaths f s)"
  shows "\<exists>t. map_of (pq_files s) n = Some (Some t)"
proof -
  have "n \<in> set (map fst (filter (visits f) (pq_files s)))" using assms(3) mset_eq_setD [OF matching_mset] by blast
  then obtain t where t: "(n, t) \<in> set (pq_files s)" "visits f (n, t)" by auto
  then have "t \<noteq> None" using assms(2) by (auto simp: hasTables_def list_all_iff visits_def split: option.splits)
  with t assms(1) show ?thesis by (auto simp: shards_ok_def)
qed

text \<open>The answer of the partitioned storage without faults.\<close>

definition candidates :: "QueryLogFilter \<Rightarrow> nat \<Rightarrow> PartitionedQueryLogStorage \<Rightarrow> QueryLog list" where
  "candidates f k s = concat (map (\<lambda>n. take k (pq_order s (filter (buildQueryLogWhere f) (rowsAt (pq_files s) n)))) (matchingShardPaths f s))"

lemma sum_lengths: "(\<Sum>n \<leftarrow> ns. int (length (g n))) = int (length (concat (map g ns)))"
  by (induction ns) simp_all

lemma Query_calm:
  assumes f: "f = normalizeQueryLogFilter f0" and good: "goodFilter f0"
    and ok: "shards_ok (pq_files s)" and tables: "hasTables (pq_files s)" and calm: "pq_faults s = []"
    and off: "off = (f_Page f - 1) * f_PageSize f"
  shows "Query f0 s = (Inr (take (nat (f_PageSize f)) (drop (nat off)
      (sort_key (\<lambda>l. (- ql_Timestamp l, - ql_ID l)) (candidates f (nat (off + f_PageSize f)) s))),
      int (length (filter (buildQueryLogWhere f) (shardRows (pq_files s))))), s)"
proof -
  let ?p = "f_PageSize f" and ?shards = "matchingShardPaths f s" and ?c = "buildQueryLogWhere f"
  note b = normalize_bounds [OF good, folded f]
  have o1: "0 \<le> off" using b by (simp add: off)
  have sum: "off + ?p = f_Page f * ?p" by (simp add: off algebra_simps)
  have small: "off + ?p \<le> maxSlice" using b(3) sum by simp
  have w: "wrap64 off = off" "wrap64 (off + ?p) = off + ?p"
    using o1 small b(2) by (auto intro!: wrap64_id simp: int64_range_def maxSlice_def)
  have times: "\<forall>t. f_StartTime f = Some t \<or> f_EndTime f = Some t \<longrightarrow> goodTime t"
    using good by (auto simp: f goodFilter_def)
  have len: "length (concat (map (\<lambda>n. filter ?c (rowsAt (pq_files s) n)) ?shards)) = length (filter ?c (shardRows (pq_files s)))"
    using visited_rows [OF ok times] by (rule mset_eq_length)
  then have total: "(\<Sum>n \<leftarrow> ?shards. int (length (filter ?c (rowsAt (pq_files s) n)))) = int (length (filter ?c (shardRows (pq_files s))))"
    by (simp only: sum_lengths)
  have q: "queryShards (pq_order s) ?c (off + ?p) (pq_files s) ?shards [] =
      (Inr (int (length (filter ?c (shardRows (pq_files s)))), candidates f (nat (off + ?p)) s), [])"
    using queryShards_calm [of ?shards "pq_files s"] matching_tables [OF ok tables] o1 b(2)
    by (simp add: total candidates_def limitOffset_def)
  have s: "withFaults [] s = s" using calm by (simp add: withFaults_def)
  show ?thesis
  proof (cases "?shards = []")
    case True
    then have "filter ?c (shardRows (pq_files s)) = []" using len by simp
    then show ?thesis using True by (simp add: Query_def f [symmetric] Let_def calm s candidates_def)
  next
    case False
    have "pageOf off ?p xs = take (nat ?p) (drop (nat off) xs)" for xs :: "QueryLog list"
      using o1 b(2) small by (intro pageOf_take) (simp_all add: maxSlice_def)
    with False show ?thesis using o1 b(2) small
      by (simp add: Query_def f [symmetric] off [symmetric] Let_def calm s w q)
  qed
qed

lemma mset_take_sub: "mset (take k xs) \<subseteq># mset xs"
  by (metis append_take_drop_id mset_append mset_subset_eq_add_left)

lemma mset_drop_sub: "mset (drop k xs) \<subseteq># mset xs"
  by (metis append_take_drop_id mset_append mset_subset_eq_add_right)

lemma candidates_sub:
  assumes "ordersDesc order"
  shows "mset (concat (map (\<lambda>n. take k (order (g n))) ns)) \<subseteq># mset (concat (map g ns))"
proof (induction ns)
  case (Cons n ns)
  have "mset (take k (order (g n))) \<subseteq># mset (g n)" using mset_take_sub [of k "order (g n)"] assms by (simp add: ordersDesc_def)
  with Cons show ?case by (simp add: subset_mset.add_mono)
qed simp

lemma storageQuery_calm:
  assumes g: "g = normalizeQueryLogFilter f" and good: "goodFilter f" and calm: "qs_faults u = []" and off: "off = (f_Page g - 1) * f_PageSize g"
  shows "storageQuery f u = (Inr (take (nat (f_PageSize g)) (drop (nat off) (qs_order u (filter (buildQueryLogWhere g) (lt_rows (qs_table u))))),
    int (length (filter (buildQueryLogWhere g) (lt_rows (qs_table u))))), u)"
proof -
  note b = normalize_bounds [OF good, folded g]
  have pos: "0 \<le> off" "1 \<le> f_PageSize g" using b by (simp_all add: off)
  have "off + f_PageSize g \<le> maxSlice" using b(3) by (simp add: off algebra_simps)
  then have "wrap64 off = off" using pos by (intro wrap64_id) (simp add: int64_range_def maxSlice_def)
  with pos calm show ?thesis by (simp add: storageQuery_def Let_def limitOffset_def flip: g off)
qed

lemma page_sub:
  assumes "ordersDesc (pq_order s)" and "shards_ok (pq_files s)" and "\<forall>t. f_StartTime f = Some t \<or> f_EndTime f = Some t \<longrightarrow> goodTime t"
  shows "mset (map anon (take p (drop o1 (sort_key h (candidates f k s))))) \<subseteq># filter_mset (buildQueryLogWhere f) (plogEntries s)"
proof -
  let ?c = "buildQueryLogWhere f" and ?rows = "shardRows (pq_files s)"
  have "mset (take p (drop o1 (sort_key h (candidates f k s)))) \<subseteq># mset (candidates f k s)"
    by (metis mset_drop_sub mset_sort mset_take_sub subset_mset.order_trans)
  also have "\<dots> \<subseteq># mset (filter ?c ?rows)"
    unfolding candidates_def visited_rows [OF assms(2,3), symmetric] by (rule candidates_sub [OF assms(1)])
  finally have "mset (map anon (take p (drop o1 (sort_key h (candidates f k s))))) \<subseteq># mset (map anon (filter ?c ?rows))"
    by (simp only: mset_map image_mset_subseteq_mono)
  then show ?thesis by (simp only: anon_where plogEntries_def mset_filter)
qed

text \<open>The timestamps of a page, as a cut out of all matching ones.\<close>

lemma Query_keys:
  assumes ok: "plogs_ok s" and calm: "pq_faults s = []" and tables: "hasTables (pq_files s)" and good: "goodFilter f"
    and g: "g = normalizeQueryLogFilter f" and p: "p = nat (f_PageSize g)" and k: "k = nat (f_Page g - 1)"
    and rows: "rows = filter (buildQueryLogWhere f) (shardRows (pq_files s))"
  shows "\<exists>page. Query f s = (Inr (page, int (length rows)), s) \<and> keys page = take p (drop (k * p) (sort (keys rows)))
    \<and> mset (map anon page) \<subseteq># filter_mset (buildQueryLogWhere f) (plogEntries s)"
proof -
  define off where "off = (f_Page g - 1) * f_PageSize g"
  have files: "shards_ok (pq_files s)" and order: "ordersDesc (pq_order s)" using ok by (simp_all add: plogs_ok_def)
  note b = normalize_bounds [OF good, folded g]
  have o: "nat off = k * p" using b by (simp add: off_def k p nat_mult_distrib)
  have op: "nat (off + f_PageSize g) = nat off + p" using b by (simp add: off_def p nat_add_distrib)
  have times: "\<forall>t. f_StartTime g = Some t \<or> f_EndTime g = Some t \<longrightarrow> goodTime t" using good by (auto simp: g goodFilter_def)
  have w: "buildQueryLogWhere g = buildQueryLogWhere f" by (simp add: g normalize_where)
  let ?page = "take p (drop (nat off) (sort_key (\<lambda>l. (- ql_Timestamp l, - ql_ID l)) (candidates g (nat off + p) s)))"
  have q: "Query f s = (Inr (?page, int (length rows)), s)"
    using Query_calm [OF g good files tables calm off_def] by (simp only: op w rows p)
  have "take (nat off + p) (sort (keys (candidates g (nat off + p) s))) = take (nat off + p) (sort (keys rows))"
    unfolding candidates_def merged_keys [OF order] sort_keys_cong [OF visited_rows [OF files times]] by (simp only: w rows)
  then have "keys ?page = take p (drop (nat off) (sort (keys rows)))"
    by (simp add: keys_sorted take_drop add.commute)
  moreover have "mset (map anon ?page) \<subseteq># filter_mset (buildQueryLogWhere f) (plogEntries s)"
    using page_sub [OF order files times] by (simp only: w)
  ultimately show ?thesis using q by (intro exI [of _ ?page]) (simp add: o)
qed

lemma concat_cuts: "length xs \<le> n * p \<Longrightarrow> concat (map (\<lambda>i. take p (drop (i * p) xs)) [0..<n]) = xs"
proof (induction n arbitrary: xs)
  case (Suc n)
  have "concat (map (\<lambda>i. take p (drop (i * p) xs)) [0..<Suc n]) = concat (map (\<lambda>i. take p (drop (i * p) xs)) [0..<n]) @ take p (drop (n * p) xs)"
    by simp
  also have "concat (map (\<lambda>i. take p (drop (i * p) xs)) [0..<n]) = concat (map (\<lambda>i. take p (drop (i * p) (take (n * p) xs))) [0..<n])"
  proof -
    have "take p (drop (i * p) xs) = take p (drop (i * p) (take (n * p) xs))" if "i < n" for i
    proof -
      have "Suc i * p \<le> n * p" using that by (intro mult_le_mono1) simp
      then show ?thesis by (simp add: drop_take min_def)
    qed
    then show ?thesis by (auto intro!: arg_cong [of _ _ concat])
  qed
  also have "\<dots> = take (n * p) xs" by (rule Suc.IH) simp
  finally show ?case using Suc.prems by (simp add: take_all)
qed simp

text \<open>C16: The day-partitioned query log answers a query as one table with the same entries would: whatever the filter and the
  page, both succeed, report the same number of matching entries and give pages with the same timestamps in the same order,
  although the partitioned storage reads only the files of the days between the filter's bounds and only the newest rows of
  each. The page it gives consists of matching entries, each at most as often as it is stored. This holds for all orders that the two databases
  may give rows of equal timestamps in; without failures of the calls; when every shard file has its table; for filters whose times have four-digit years and whose page is in the range that one slice can hold.\<close>

theorem partitioned_query_equivalent:
  assumes ok: "plogs_ok s" "storage_ok u" and same: "storageEntries u = plogEntries s"
    and calm: "pq_faults s = []" "qs_faults u = []" and tables: "hasTables (pq_files s)" and good: "goodFilter f"
  shows "\<exists>page page' n. Query f s = (Inr (page, n), s) \<and> storageQuery f u = (Inr (page', n), u)
    \<and> map ql_Timestamp page = map ql_Timestamp page'
    \<and> mset (map anon page) \<subseteq># filter_mset (buildQueryLogWhere f) (plogEntries s)"
proof -
  define g where "g = normalizeQueryLogFilter f"
  define off where "off = (f_Page g - 1) * f_PageSize g"
  let ?p = "nat (f_PageSize g)" and ?k = "nat (f_Page g - 1)" and ?c = "buildQueryLogWhere f"
  let ?page' = "take ?p (drop (nat off) (qs_order u (filter ?c (lt_rows (qs_table u)))))"
  have entries: "mset (map anon (lt_rows (qs_table u))) = mset (map anon (shardRows (pq_files s)))"
    using same by (simp only: storageEntries_def plogEntries_def)
  obtain page where q: "Query f s = (Inr (page, int (length (filter ?c (shardRows (pq_files s))))), s)"
    and page: "keys page = take ?p (drop (?k * ?p) (sort (keys (filter ?c (shardRows (pq_files s))))))"
      "mset (map anon page) \<subseteq># filter_mset ?c (plogEntries s)"
    using Query_keys [OF ok(1) calm(1) tables good g_def refl refl refl] by blast
  have q': "storageQuery f u = (Inr (?page', int (length (filter ?c (shardRows (pq_files s))))), u)"
    using storageQuery_calm [OF g_def good calm(2) off_def] keys_by_entries(2) [OF entries, of f] by (simp add: g_def normalize_where)
  have "nat off = ?k * ?p" using normalize_bounds [OF good] by (simp add: off_def g_def nat_mult_distrib)
  then have "keys ?page' = keys page"
    using ok(2) keys_by_entries(1) [OF entries, of f] by (simp add: page(1) keys_ordered storage_ok_def)
  then have "map ql_Timestamp page = map ql_Timestamp ?page'" by (intro keys_times) simp
  with q q' page(2) show ?thesis by blast
qed

definition sample_shards :: PartitionedQueryLogStorage where
  "sample_shards = (sample_plogs [])\<lparr>pq_files :=
     [(shardPath (queryLogShardDay (seconds 100)), Some \<lparr>lt_seq = 1, lt_rows = [(sample_log 100)\<lparr>ql_ID := 1\<rparr>]\<rparr>), (''README'', None),
      (shardPath (queryLogShardDay (seconds 691200)), Some \<lparr>lt_seq = 1, lt_rows = [(sample_log 691200)\<lparr>ql_ID := 1\<rparr>]\<rparr>)]\<rparr>"

definition sample_storage :: QueryLogStorage where
  "sample_storage = \<lparr>qs_table = \<lparr>lt_seq = 2, lt_rows = [(sample_log 100)\<lparr>ql_ID := 1\<rparr>, (sample_log 691200)\<lparr>ql_ID := 2\<rparr>]\<rparr>, qs_faults = [],
     qs_order = sort_key (\<lambda>l. - ql_Timestamp l), qs_pick = (\<lambda>xs. xs)\<rparr>"

definition sample_filter :: QueryLogFilter where
  "sample_filter = \<lparr>f_Domain = ''example'', f_ClientIP = [], f_QueryType = ''A'', f_ResponseCode = [], f_ResponseSource = [],
     f_StartTime = Some (seconds 100), f_EndTime = None, f_Page = 1, f_PageSize = 1\<rparr>"

lemma sample_times: "goodTime (seconds 100)" "goodTime (seconds 691200)"
  by (simp_all add: goodTime_def fourDigits_def sample_days sample_dates) (simp_all add: seconds_def)

lemma sample_log_time [simp]: "ql_Timestamp (sample_log t) = seconds t"
  by (simp add: sample_log_def)

lemma sample_names:
  "shardPath (queryLogShardDay (seconds 100)) \<noteq> shardPath (queryLogShardDay (seconds 691200))"
  "goodTime t \<Longrightarrow> shardPath (queryLogShardDay t) \<noteq> ''README''" "parseQueryLogShardName ''README'' = None"
proof -
  show readme: "parseQueryLogShardName ''README'' = None" by code_simp
  show "goodTime t \<Longrightarrow> shardPath (queryLogShardDay t) \<noteq> ''README''" using parse_shardPath [of t] readme by auto
  have "queryLogShardDay (seconds 100) \<noteq> queryLogShardDay (seconds 691200)"
    using sample_times by (simp add: queryLogShardDay_def goodTime_def formatDate_iff sample_days)
  then show "shardPath (queryLogShardDay (seconds 100)) \<noteq> shardPath (queryLogShardDay (seconds 691200))"
    using parse_shardPath [OF sample_times(1)] parse_shardPath [OF sample_times(2)] by auto
qed

lemma sample_shards_ok: "plogs_ok sample_shards" "hasTables (pq_files sample_shards)" "storageEntries sample_storage = plogEntries sample_shards"
  using sample_names sample_names(2) [OF sample_times(1)] sample_names(2) [OF sample_times(2)] sample_times
    parse_shardPath [OF sample_times(1)] parse_shardPath [OF sample_times(2)]
  by (auto simp: plogs_ok_def sample_shards_def sample_plogs_def shards_ok_def ordersDesc_def hasTables_def fileRows_def shardRows_def
      plogEntries_def storageEntries_def sample_storage_def)

lemma sample_storage_ok: "storage_ok sample_storage" "goodFilter sample_filter"
  using sample_times by (auto simp: storage_ok_def sample_storage_def logTable_ok_def keyed_def ordersDesc_def goodFilter_def sample_filter_def maxSlice_def)

theorem partitioned_query_equivalent_witness:
  "plogs_ok sample_shards \<and> storage_ok sample_storage \<and> storageEntries sample_storage = plogEntries sample_shards
   \<and> pq_faults sample_shards = [] \<and> qs_faults sample_storage = [] \<and> hasTables (pq_files sample_shards) \<and> goodFilter sample_filter
   \<and> (\<exists>page. Query sample_filter sample_shards = (Inr (page, 2), sample_shards) \<and> map ql_Timestamp page = [seconds 691200])"
proof -
  have calm: "pq_faults sample_shards = []" "qs_faults sample_storage = []"
    by (simp_all add: sample_shards_def sample_plogs_def sample_storage_def)
  have rows: "sqlLike ''%example%'' ''www.example.com''" by code_simp
  have "storageQuery sample_filter sample_storage = (Inr ([(sample_log 691200)\<lparr>ql_ID := 2\<rparr>], 2), sample_storage)"
    using rows by (simp add: storageQuery_def sample_filter_def sample_storage_def normalizeQueryLogFilter_def Let_def limitOffset_def
      buildQueryLogWhere_def wrap64_def sample_log_def) (simp add: seconds_def)
  with partitioned_query_equivalent [OF sample_shards_ok(1) sample_storage_ok(1) sample_shards_ok(3) calm sample_shards_ok(2) sample_storage_ok(2)]
  have "\<exists>page. Query sample_filter sample_shards = (Inr (page, 2), sample_shards) \<and> map ql_Timestamp page = [seconds 691200]" by auto
  with sample_shards_ok sample_storage_ok calm show ?thesis by blast
qed


text \<open>A page beyond what a slice can hold does not give an empty page: the request panics, as soon as there is a file to look into.\<close>

lemma huge_page_panics:
  assumes g: "g = normalizeQueryLogFilter f" and calm: "pq_faults s = []" and some: "matchingShardPaths g s \<noteq> []"
    and huge: "maxSlice < f_Page g * f_PageSize g" "f_Page g * f_PageSize g < 2 ^ 63"
  shows "Query f s = (Inl panic, s)"
proof -
  have b: "1 \<le> f_Page g" "1 \<le> f_PageSize g" by (auto simp: g normalizeQueryLogFilter_def Let_def)
  have sum: "(f_Page g - 1) * f_PageSize g + f_PageSize g = f_Page g * f_PageSize g" by (simp add: algebra_simps)
  have "0 \<le> (f_Page g - 1) * f_PageSize g" using b by simp
  then have w: "wrap64 ((f_Page g - 1) * f_PageSize g) = (f_Page g - 1) * f_PageSize g" "wrap64 (f_Page g * f_PageSize g) = f_Page g * f_PageSize g"
    using sum huge(2) b(2) unfolding atomize_conj by (intro conjI wrap64_id; unfold int64_range_def; linarith)
  have "withFaults [] s = s" using calm by (simp add: withFaults_def)
  then show ?thesis using some huge(1) calm by (simp add: Query_def g [symmetric] Let_def w sum)
qed

end
