(* ===== verification/WebLogs.thy ===== *)
theory WebLogs
  imports QueryLogPages
begin

section \<open>The query log endpoint (web/api\_query\_logs.go)\<close>

text \<open>
  The request is its parameters: texts, and the times that \<^verbatim>\<open>time.Parse\<close> reads from \<^verbatim>\<open>start_time\<close> and \<^verbatim>\<open>end_time\<close> (none when the parameter is
  missing or no time). The answer is a status with an error code or with the page. A server without
  query log has no storage.
\<close>

record LogRequest =
  lr_domain :: string
  lr_client_ip :: string
  lr_query_type :: string
  lr_response_code :: string
  lr_response_source :: string
  lr_page :: string
  lr_page_size :: string
  lr_start :: "instant option"
  lr_end :: "instant option"

record LogPage =
  lp_logs :: "QueryLog list"
  lp_total :: int
  lp_page :: int
  lp_page_size :: int
  lp_total_pages :: int

definition parseIntParam :: "string \<Rightarrow> int \<Rightarrow> int" where
  "parseIntParam v defaultVal =
     (if v \<noteq> [] then (case Atoi v of None \<Rightarrow> defaultVal | Some n \<Rightarrow> if n > 0 then n else defaultVal) else defaultVal)"

definition logFilter :: "LogRequest \<Rightarrow> QueryLogFilter" where
  "logFilter q =
     (let f = \<lparr>f_Domain = lr_domain q, f_ClientIP = lr_client_ip q, f_QueryType = lr_query_type q, f_ResponseCode = lr_response_code q,
               f_ResponseSource = lr_response_source q, f_StartTime = lr_start q, f_EndTime = lr_end q,
               f_Page = parseIntParam (lr_page q) 1, f_PageSize = parseIntParam (lr_page_size q) 50\<rparr>
      in if f_PageSize f > 200 then f\<lparr>f_PageSize := 200\<rparr> else f)"

definition totalPages :: "int \<Rightarrow> int \<Rightarrow> int" where
  "totalPages n m = (let k = wrap64 (wrap64 (n + m) - 1) div m in if k < 0 then 0 else k)"

definition getQueryLogs ::
  "LogRequest \<Rightarrow> PartitionedQueryLogStorage option \<Rightarrow> (int \<times> string + int \<times> LogPage) \<times> PartitionedQueryLogStorage option" where
  "getQueryLogs q st =
     (case st of
        None \<Rightarrow> (Inl (503, ''QUERY_LOG_DISABLED''), None)
      | Some s \<Rightarrow>
          (let f = logFilter q
           in case Query f s of
                (Inl e, s') \<Rightarrow> (Inl (500, if e = panic then [] else ''INTERNAL_ERROR''), Some s')
              | (Inr (logs, n), s') \<Rightarrow>
                  (Inr (200, \<lparr>lp_logs = logs, lp_total = n, lp_page = f_Page f, lp_page_size = f_PageSize f,
                       lp_total_pages = totalPages n (f_PageSize f)\<rparr>), Some s')))"

subsection \<open>Paging\<close>

lemma parseIntParam_pos: "0 < d \<Longrightarrow> 0 < parseIntParam v d"
  by (simp add: parseIntParam_def split: option.splits)

lemma logFilter_size: "1 \<le> f_PageSize (logFilter q)" "f_PageSize (logFilter q) \<le> 200"
  using parseIntParam_pos [of 50 "lr_page_size q"] by (simp_all add: logFilter_def Let_def)

lemma logFilter_page: "1 \<le> f_Page (logFilter q)"
  using parseIntParam_pos [of 1 "lr_page q"] by (simp add: logFilter_def Let_def)

lemma logFilter_normal: "normalizeQueryLogFilter (logFilter q) = logFilter q"
  using logFilter_size [of q] logFilter_page [of q] by (simp add: normalizeQueryLogFilter_def Let_def)

lemma logFilter_at:
  assumes "Atoi ps = Some n" and "0 < n"
  shows "logFilter (q\<lparr>lr_page := ps\<rparr>) = (logFilter q)\<lparr>f_Page := n\<rparr>"
proof -
  have "ps \<noteq> []" using assms(1) by (auto simp: Atoi_def)
  with assms show ?thesis by (simp add: logFilter_def Let_def parseIntParam_def)
qed

lemma totalPages_covers:
  assumes "0 \<le> n" "n < 2 ^ 62" "1 \<le> m" "m \<le> 200"
  shows "totalPages n m = (n + m - 1) div m" "0 \<le> totalPages n m" "n \<le> totalPages n m * m"
proof -
  have w: "wrap64 (n + m) = n + m" "wrap64 (n + m - 1) = n + m - 1"
    using assms by (auto intro!: wrap64_id simp: int64_range_def)
  have "0 \<le> (n + m - 1) div m" using assms by (simp add: pos_imp_zdiv_nonneg_iff)
  then show e: "totalPages n m = (n + m - 1) div m" "0 \<le> totalPages n m" by (simp_all add: totalPages_def w Let_def)
  have "(n + m - 1) div m * m = n + m - 1 - (n + m - 1) mod m" by (simp add: minus_mod_eq_div_mult)
  then show "n \<le> totalPages n m * m" using pos_mod_bound [of m "n + m - 1"] assms(3) unfolding e by linarith
qed

lemma stamps_of_keys: "map uminus (sort (keys rows)) = rev (sorted_list_of_multiset (image_mset ql_Timestamp (mset rows)))"
proof -
  have "sort (map ql_Timestamp rows) = rev (map uminus (sort (keys rows)))"
  proof (rule properties_for_sort)
    have "mset (map uminus (keys rows)) = mset (map ql_Timestamp rows)" by (simp add: keys_def comp_def)
    then show "mset (rev (map uminus (sort (keys rows)))) = mset (map ql_Timestamp rows)" by simp
    have "sorted (sort (keys rows))" by simp
    then show "sorted (rev (map uminus (sort (keys rows))))" by (simp add: sorted_wrt_rev sorted_wrt_map)
  qed
  then show ?thesis by (metis mset_map rev_rev_ident sorted_list_of_multiset_mset)
qed

definition matching :: "LogRequest \<Rightarrow> PartitionedQueryLogStorage \<Rightarrow> QueryLog multiset" where
  "matching q s = filter_mset (buildQueryLogWhere (logFilter q)) (plogEntries s)"

text \<open>The number of pages that the endpoint reports for a request.\<close>

definition pagesOf :: "LogRequest \<Rightarrow> PartitionedQueryLogStorage \<Rightarrow> nat" where
  "pagesOf q s = nat (totalPages (int (size (matching q s))) (f_PageSize (logFilter q)))"

lemma page_answer:
  assumes ok: "plogs_ok s" "pq_faults s = []" "hasTables (pq_files s)" and good: "goodFilter ((logFilter q)\<lparr>f_Page := n\<rparr>)"
    and n: "Atoi ps = Some n" "0 < n" and m: "m = nat (f_PageSize (logFilter q))"
    and rows: "rows = filter (buildQueryLogWhere (logFilter q)) (shardRows (pq_files s))"
  shows "\<exists>page. getQueryLogs (q\<lparr>lr_page := ps\<rparr>) (Some s) = (Inr (200, \<lparr>lp_logs = page, lp_total = int (length rows), lp_page = n,
      lp_page_size = f_PageSize (logFilter q), lp_total_pages = totalPages (int (length rows)) (f_PageSize (logFilter q))\<rparr>), Some s)
    \<and> keys page = take m (drop (nat (n - 1) * m) (sort (keys rows))) \<and> mset (map anon page) \<subseteq># matching q s"
proof -
  let ?f = "(logFilter q)\<lparr>f_Page := n\<rparr>"
  have normal: "normalizeQueryLogFilter ?f = ?f" using logFilter_normal [of "q\<lparr>lr_page := ps\<rparr>"] by (simp add: logFilter_at [OF n])
  have w: "buildQueryLogWhere ?f = buildQueryLogWhere (logFilter q)" by (simp add: fun_eq_iff buildQueryLogWhere_def)
  have "\<exists>page. Query ?f s = (Inr (page, int (length rows)), s) \<and> keys page = take m (drop (nat (n - 1) * m) (sort (keys rows)))
      \<and> mset (map anon page) \<subseteq># filter_mset (buildQueryLogWhere ?f) (plogEntries s)"
    by (rule Query_keys [OF ok good normal [symmetric]]) (simp_all add: m rows w)
  then show ?thesis by (auto simp: getQueryLogs_def Let_def logFilter_at [OF n] matching_def w)
qed

text \<open>Entries that are all stored, and have the keys of the stored ones, are the stored ones when keys are unique.\<close>

lemma mset_by_key:
  assumes "set_mset X \<subseteq> set_mset M" and "image_mset f X = image_mset f M" and "\<And>k. count (image_mset f M) k \<le> 1"
  shows "X = M"
proof -
  have "count X x \<le> count M x" for x
  proof (cases "x \<in># X")
    case True
    have "replicate_mset (count X x) x \<subseteq># X" by (simp add: count_le_replicate_mset_subset_eq [symmetric])
    from mset_subset_eq_count [OF image_mset_subseteq_mono [OF this, of f], of "f x"]
    have "count X x \<le> count (image_mset f X) (f x)" by simp
    also have "\<dots> \<le> 1" using assms(2,3) by metis
    also have "\<dots> \<le> count M x" using True assms(1) by (metis count_greater_eq_one_iff subsetD)
    finally show ?thesis .
  qed (simp add: not_in_iff)
  then have "X \<subseteq># M" by (rule mset_subset_eqI)
  moreover have "size X = size M" using arg_cong [OF assms(2), of size] by simp
  ultimately show ?thesis by (metis mset_subset_size nat_less_le subset_mset.le_less)
qed

text \<open>C19: Reading the query log page by page. Whoever asks the query-log endpoint for the pages from the first to the last that it announces
  gets, with every answer, status 200, the number of matching entries and the same number of pages. The pages one after the other
  have exactly the timestamps of the matching entries, newest first, and hold only matching entries. When no two matching entries have the same
  timestamp, the pages together hold exactly the matching entries, each once; with equal timestamps an entry may appear on two pages while another is
  missing. This holds on a well-formed day-partitioned storage whose files all have their table, that does not change meanwhile and whose calls do not fail,
  for times with four-digit years, pages within what one slice can hold and fewer than \<open>2 ^ 62\<close> matching entries.\<close>

theorem paging_complete:
  assumes ok: "plogs_ok s" "pq_faults s = []" "hasTables (pq_files s)"
    and good: "goodFilter ((logFilter q)\<lparr>f_Page := int (pagesOf q s)\<rparr>)" and few: "int (size (matching q s)) < 2 ^ 62"
    and numbers: "length ps = pagesOf q s" "\<forall>i < length ps. Atoi (ps ! i) = Some (int i + 1)"
  shows "\<exists>pages. length pages = length ps
    \<and> (\<forall>i < length ps. \<exists>answer. getQueryLogs (q\<lparr>lr_page := ps ! i\<rparr>) (Some s) = (Inr (200, answer), Some s)
          \<and> lp_logs answer = pages ! i \<and> lp_total answer = int (size (matching q s)) \<and> lp_total_pages answer = int (length ps))
    \<and> map ql_Timestamp (concat pages) = rev (sorted_list_of_multiset (image_mset ql_Timestamp (matching q s)))
    \<and> set (map anon (concat pages)) \<subseteq> set_mset (matching q s)
    \<and> ((\<forall>t. count (image_mset ql_Timestamp (matching q s)) t \<le> 1) \<longrightarrow> mset (map anon (concat pages)) = matching q s)"
proof -
  define rows where "rows = filter (buildQueryLogWhere (logFilter q)) (shardRows (pq_files s))"
  define m where "m = nat (f_PageSize (logFilter q))"
  have anon_rows: "map anon rows = filter (buildQueryLogWhere (logFilter q)) (map anon (shardRows (pq_files s)))"
    unfolding rows_def by (rule anon_where)
  then have match: "matching q s = mset (map anon rows)" by (simp add: matching_def plogEntries_def flip: mset_filter del: mset_map)
  then have len: "size (matching q s) = length rows" by simp
  have stamps: "image_mset ql_Timestamp (matching q s) = image_mset ql_Timestamp (mset rows)"
    by (simp add: match multiset.map_comp comp_def)
  note cover = totalPages_covers [OF _ few logFilter_size, simplified len]
  have pages: "int (pagesOf q s) = totalPages (int (length rows)) (f_PageSize (logFilter q))"
    using cover(2) by (simp add: pagesOf_def len)
  have page: "\<exists>page. getQueryLogs (q\<lparr>lr_page := ps ! i\<rparr>) (Some s) = (Inr (200, \<lparr>lp_logs = page, lp_total = int (length rows), lp_page = int i + 1,
        lp_page_size = f_PageSize (logFilter q), lp_total_pages = int (length ps)\<rparr>), Some s) \<and> keys page = take m (drop (i * m) (sort (keys rows)))
        \<and> mset (map anon page) \<subseteq># matching q s"
    if i: "i < length ps" for i
  proof -
    have "goodFilter ((logFilter q)\<lparr>f_Page := int i + 1\<rparr>)" using good i numbers(1) by (auto simp: goodFilter_def split: option.splits)
    from page_answer [OF ok this _ _ m_def rows_def, of "ps ! i"] numbers i pages show ?thesis by simp
  qed
  then obtain P where P: "\<forall>i < length ps. getQueryLogs (q\<lparr>lr_page := ps ! i\<rparr>) (Some s) = (Inr (200, \<lparr>lp_logs = P i, lp_total = int (length rows), lp_page = int i + 1,
        lp_page_size = f_PageSize (logFilter q), lp_total_pages = int (length ps)\<rparr>), Some s) \<and> keys (P i) = take m (drop (i * m) (sort (keys rows)))
        \<and> mset (map anon (P i)) \<subseteq># matching q s"
    by metis
  have "int (length rows) \<le> int (length ps * m)" using cover(3) pages numbers(1) logFilter_size(1) [of q] by (simp add: m_def)
  then have "length (sort (keys rows)) \<le> length ps * m" by (simp only: of_nat_le_iff) (simp add: keys_def)
  then have all: "concat (map (\<lambda>i. take m (drop (i * m) (sort (keys rows)))) [0..<length ps]) = sort (keys rows)"
    by (rule concat_cuts)
  have "keys (concat (map P ns)) = concat (map (\<lambda>i. keys (P i)) ns)" for ns by (induction ns) simp_all
  moreover have "map (\<lambda>i. keys (P i)) [0..<length ps] = map (\<lambda>i. take m (drop (i * m) (sort (keys rows)))) [0..<length ps]" using P by simp
  ultimately have "keys (concat (map P [0..<length ps])) = sort (keys rows)" by (simp only: all)
  then have "map ql_Timestamp (concat (map P [0..<length ps])) = map uminus (sort (keys rows))"
    by (metis (no_types, lifting) keys_def list.map_comp list.map_cong comp_def minus_minus)
  then have all_stamps: "map ql_Timestamp (concat (map P [0..<length ps])) = rev (sorted_list_of_multiset (image_mset ql_Timestamp (matching q s)))"
    by (simp only: stamps_of_keys stamps)
  let ?X = "mset (map anon (concat (map P [0..<length ps])))"
  have sub: "set_mset ?X \<subseteq> set_mset (matching q s)"
  proof -
    have "set (map anon (P i)) \<subseteq> set_mset (matching q s)" if "i < length ps" for i
      using P that by (metis set_mset_mono set_mset_mset)
    then show ?thesis by (simp add: UN_subset_iff image_UN)
  qed
  have "image_mset ql_Timestamp ?X = mset (map ql_Timestamp (concat (map P [0..<length ps])))"
    by (simp add: multiset.map_comp comp_def)
  also have "\<dots> = image_mset ql_Timestamp (matching q s)" by (simp only: all_stamps mset_rev mset_sorted_list_of_multiset)
  finally have "(\<forall>t. count (image_mset ql_Timestamp (matching q s)) t \<le> 1) \<longrightarrow> ?X = matching q s"
    using mset_by_key [OF sub] by blast
  with sub all_stamps P show ?thesis by (intro exI [of _ "map P [0..<length ps]"]) (auto simp: len)
qed

definition sample_log_request :: LogRequest where
  "sample_log_request = \<lparr>lr_domain = ''example'', lr_client_ip = [], lr_query_type = ''A'', lr_response_code = [], lr_response_source = [],
     lr_page = [], lr_page_size = ''1'', lr_start = Some (seconds 100), lr_end = None\<rparr>"

lemma sample_log_filter: "logFilter sample_log_request = sample_filter"
proof -
  have "Atoi ''1'' = Some 1" by code_simp
  then show ?thesis by (simp add: logFilter_def sample_log_request_def sample_filter_def parseIntParam_def Let_def)
qed

lemma sample_matching: "matching sample_log_request sample_shards = mset [anon (sample_log 100), anon (sample_log 691200)]"
proof -
  have like: "sqlLike ''%example%'' ''www.example.com''" by code_simp
  have "plogEntries sample_shards = mset [anon (sample_log 100), anon (sample_log 691200)]"
    by (simp add: sample_shards_ok(3) [symmetric] storageEntries_def sample_storage_def)
  moreover have "buildQueryLogWhere sample_filter (sample_log 100)" "buildQueryLogWhere sample_filter (sample_log 691200)"
    using like by (simp_all add: buildQueryLogWhere_def sample_filter_def sample_log_def seconds_def)
  ultimately show ?thesis by (simp add: matching_def sample_log_filter)
qed

theorem paging_complete_witness:
  "plogs_ok sample_shards \<and> hasTables (pq_files sample_shards) \<and> pagesOf sample_log_request sample_shards = 2
   \<and> (\<exists>pages. length pages = 2
     \<and> (\<exists>answer. getQueryLogs (sample_log_request\<lparr>lr_page := ''2''\<rparr>) (Some sample_shards) = (Inr (200, answer), Some sample_shards)
          \<and> lp_logs answer = pages ! 1 \<and> lp_total answer = 2 \<and> lp_total_pages answer = 2)
     \<and> map ql_Timestamp (concat pages) = [seconds 691200, seconds 100]
     \<and> mset (map anon (concat pages)) = mset [anon (sample_log 100), anon (sample_log 691200)])"
proof -
  let ?q = sample_log_request and ?s = sample_shards and ?ps = "[''1'', ''2'']"
  have pages: "pagesOf ?q ?s = 2"
    by (simp add: pagesOf_def sample_matching sample_log_filter) (simp add: sample_filter_def totalPages_def wrap64_def Let_def)
  have good: "goodFilter ((logFilter ?q)\<lparr>f_Page := int (pagesOf ?q ?s)\<rparr>)"
    using sample_times by (simp add: sample_log_filter pages goodFilter_def sample_filter_def maxSlice_def)
  have "Atoi ''1'' = Some 1 \<and> Atoi ''2'' = Some 2" by code_simp
  then have numbers: "length ?ps = pagesOf ?q ?s" "\<forall>i < length ?ps. Atoi (?ps ! i) = Some (int i + 1)"
    by (simp_all add: pages less_Suc_eq numeral_2_eq_2 all_conj_distrib)
  have calm: "pq_faults ?s = []" by (simp add: sample_shards_def sample_plogs_def)
  have few: "int (size (matching ?q ?s)) < 2 ^ 62" by (simp add: sample_matching)
  have sorted: "rev (sorted_list_of_multiset (image_mset ql_Timestamp (matching ?q ?s))) = [seconds 691200, seconds 100]"
    by (simp add: sample_matching) (simp add: seconds_def)
  obtain pages where p: "length pages = length ?ps"
    and answers: "\<forall>i < length ?ps. \<exists>answer. getQueryLogs (?q\<lparr>lr_page := ?ps ! i\<rparr>) (Some ?s) = (Inr (200, answer), Some ?s)
      \<and> lp_logs answer = pages ! i \<and> lp_total answer = int (size (matching ?q ?s)) \<and> lp_total_pages answer = int (length ?ps)"
    and stamps: "map ql_Timestamp (concat pages) = rev (sorted_list_of_multiset (image_mset ql_Timestamp (matching ?q ?s)))"
    and exact: "(\<forall>t. count (image_mset ql_Timestamp (matching ?q ?s)) t \<le> 1) \<longrightarrow> mset (map anon (concat pages)) = matching ?q ?s"
    using paging_complete [OF sample_shards_ok(1) calm sample_shards_ok(2) good few numbers] by blast
  from answers have "\<exists>answer. getQueryLogs (?q\<lparr>lr_page := ?ps ! 1\<rparr>) (Some ?s) = (Inr (200, answer), Some ?s)
      \<and> lp_logs answer = pages ! 1 \<and> lp_total answer = int (size (matching ?q ?s)) \<and> lp_total_pages answer = int (length ?ps)"
    by (elim allE [of _ 1]) simp
  moreover have "\<forall>t. count (image_mset ql_Timestamp (matching ?q ?s)) t \<le> 1" by (simp add: sample_matching) (simp add: seconds_def)
  with exact have "mset (map anon (concat pages)) = matching ?q ?s" by blast
  ultimately show ?thesis using p stamps sample_shards_ok pages unfolding sorted
    by (intro conjI exI [of _ pages]) (simp_all add: sample_matching)
qed

text \<open>
  Equal timestamps: each shard gives its newest rows up to the end of the page in an order of its own, and
  only these are then sorted by id. With four entries of one instant and two on a page, both pages hold the entries 2 and 1.
\<close>

definition tied_shards :: PartitionedQueryLogStorage where
  "tied_shards = (sample_plogs [])\<lparr>pq_files := [(shardPath (queryLogShardDay (seconds 100)), Some \<lparr>lt_seq = 4,
     lt_rows = map (\<lambda>i. (sample_log 100)\<lparr>ql_ID := i\<rparr>) [1, 2, 3, 4]\<rparr>)]\<rparr>"

definition idsOf :: "(int \<times> string + int \<times> LogPage) \<times> PartitionedQueryLogStorage option \<Rightarrow> rowid list" where
  "idsOf r = (case fst r of Inl _ \<Rightarrow> [] | Inr (_, page) \<Rightarrow> map ql_ID (lp_logs page))"

lemma tied_pages_repeat:
  "idsOf (getQueryLogs (sample_log_request\<lparr>lr_page := ''1'', lr_page_size := ''2''\<rparr>) (Some tied_shards)) = [2, 1]"
  "idsOf (getQueryLogs (sample_log_request\<lparr>lr_page := ''2'', lr_page_size := ''2''\<rparr>) (Some tied_shards)) = [2, 1]"
  by code_simp+

end
