(* ===== verification/Configuration.thy ===== *)
theory Configuration
  imports Prelude
begin

section \<open>Configuration (config/config.go)\<close>

text \<open>
  The configuration record, the defaults that \<^verbatim>\<open>Load\<close> fills in and the checks of \<^verbatim>\<open>Validate\<close>. Reading the file,
  the YAML decoder (gopkg.in/yaml.v3) and the host name are parameters. Durations are nanoseconds.
\<close>

record DNSConfig =
  d_Listen :: string
  d_Port :: int
  d_TCP :: bool
  d_UDP :: bool
  d_UDPSize :: int
  d_NSID :: string
  d_Version :: string

record WebConfig =
  w_Listen :: string
  w_Port :: int

record AdblockConfig =
  a_Enabled :: bool
  a_SyncInterval :: int
  a_BlockResponse :: string

record SyncConfig =
  s_Mode :: string
  s_PrimaryURL :: string
  s_Interval :: int
  s_ReadOnly :: bool

record QueryLogConfig =
  l_Enabled :: bool
  l_Dir :: string
  l_RetentionDays :: int
  l_FlushInterval :: int
  l_BufferSize :: int

record Config =
  c_DNS :: DNSConfig
  c_UpstreamTimeout :: int
  c_Web :: WebConfig
  c_DatabasePath :: string
  c_CityDB :: string
  c_Adblock :: AdblockConfig
  c_Sync :: SyncConfig
  c_LogLevel :: string
  c_QueryLog :: QueryLogConfig

definition SyncModePrimary :: string where
  "SyncModePrimary = ''primary''"

definition SyncModeSecondary :: string where
  "SyncModeSecondary = ''secondary''"

definition Valid :: "string \<Rightarrow> bool" where
  "Valid m \<longleftrightarrow> m = SyncModePrimary \<or> m = SyncModeSecondary"

subsection \<open>Paths: filepath.Clean, Dir and Join\<close>

text \<open>The elements that remain, last one first.\<close>

fun cleanElems :: "bool \<Rightarrow> string list \<Rightarrow> string list \<Rightarrow> string list" where
  "cleanElems rooted kept [] = kept"
| "cleanElems rooted kept (e # es) =
     (if e = [] \<or> e = ''.'' then cleanElems rooted kept es
      else if e = ''..'' then
        (case kept of
           [] \<Rightarrow> cleanElems rooted (if rooted then [] else [''..'']) es
         | k # ks \<Rightarrow> if k = ''..'' then cleanElems rooted (e # kept) es else cleanElems rooted ks es)
      else cleanElems rooted (e # kept) es)"

definition filepathClean :: "string \<Rightarrow> string" where
  "filepathClean path =
     (let rooted = HasPrefix path ''/'';
          p = Join ''/'' (rev (cleanElems rooted [] (Split (CHR ''/'') path)))
      in if rooted then CHR ''/'' # p else if p = [] then ''.'' else p)"

definition filepathDir :: "string \<Rightarrow> string" where
  "filepathDir path = filepathClean (rev (dropWhile (\<lambda>c. c \<noteq> CHR ''/'') (rev path)))"

definition filepathJoin :: "string \<Rightarrow> string \<Rightarrow> string" where
  "filepathJoin a b = (let es = filter (\<lambda>e. e \<noteq> []) [a, b] in if es = [] then [] else filepathClean (Join ''/'' es))"

subsection \<open>Loading\<close>

definition orString :: "string \<Rightarrow> string \<Rightarrow> string" where
  "orString s d = (if s = [] then d else s)"

definition orInt :: "int \<Rightarrow> int \<Rightarrow> int" where
  "orInt n d = (if n = 0 then d else n)"

definition setDefaults :: "string option \<Rightarrow> Config \<Rightarrow> Config" where
  "setDefaults hostname c =
     c\<lparr>c_DNS := (c_DNS c)\<lparr>d_Port := orInt (d_Port (c_DNS c)) 53, d_UDPSize := orInt (d_UDPSize (c_DNS c)) 1232,
         d_NSID := orString (d_NSID (c_DNS c)) (case hostname of Some h \<Rightarrow> h | None \<Rightarrow> ''dns-go''),
         d_Version := orString (d_Version (c_DNS c)) ''DNS-Go v0.2.0''\<rparr>,
       c_Web := (c_Web c)\<lparr>w_Port := orInt (w_Port (c_Web c)) 8080\<rparr>,
       c_UpstreamTimeout := orInt (c_UpstreamTimeout c) (seconds 5),
       c_Adblock := (c_Adblock c)\<lparr>a_SyncInterval := orInt (a_SyncInterval (c_Adblock c)) (seconds 3600),
         a_BlockResponse := orString (a_BlockResponse (c_Adblock c)) ''0.0.0.0''\<rparr>,
       c_LogLevel := orString (c_LogLevel c) ''info'',
       c_QueryLog := (c_QueryLog c)\<lparr>l_RetentionDays := orInt (l_RetentionDays (c_QueryLog c)) 7,
         l_Dir := (if l_Dir (c_QueryLog c) = [] \<and> c_DatabasePath c \<noteq> [] then filepathJoin (filepathDir (c_DatabasePath c)) ''query-logs'' else l_Dir (c_QueryLog c)),
         l_FlushInterval := orInt (l_FlushInterval (c_QueryLog c)) (seconds 2), l_BufferSize := orInt (l_BufferSize (c_QueryLog c)) 1000\<rparr>,
       c_Sync := (c_Sync c)\<lparr>s_Mode := orString (s_Mode (c_Sync c)) SyncModePrimary, s_Interval := orInt (s_Interval (c_Sync c)) (seconds 1)\<rparr>\<rparr>"

definition Load :: "(string \<Rightarrow> string option) \<Rightarrow> (string \<Rightarrow> Config option) \<Rightarrow> string option \<Rightarrow> string \<Rightarrow> string + Config" where
  "Load readFile unmarshal hostname path =
     (case readFile path of
        None \<Rightarrow> Inl ''read''
      | Some data \<Rightarrow> (case unmarshal data of None \<Rightarrow> Inl ''parse'' | Some c \<Rightarrow> Inr (setDefaults hostname c)))"

definition Validate :: "Config \<Rightarrow> string + unit" where
  "Validate c =
     (if \<not> d_TCP (c_DNS c) \<and> \<not> d_UDP (c_DNS c) then Inl ''protocol''
      else if d_Port (c_DNS c) < 1 \<or> d_Port (c_DNS c) > 65535 then Inl ''dns port''
      else if w_Port (c_Web c) < 1 \<or> w_Port (c_Web c) > 65535 then Inl ''web port''
      else if c_DatabasePath c = [] then Inl ''database path''
      else if a_BlockResponse (c_Adblock c) \<noteq> ''0.0.0.0'' \<and> a_BlockResponse (c_Adblock c) \<noteq> ''NXDOMAIN'' then Inl ''block response''
      else if \<not> Valid (s_Mode (c_Sync c)) then Inl ''sync mode''
      else Inr ())"


subsection \<open>What is accepted\<close>

definition acceptable :: "Config \<Rightarrow> bool" where
  "acceptable c \<longleftrightarrow> (d_TCP (c_DNS c) \<or> d_UDP (c_DNS c)) \<and> 0 \<le> d_Port (c_DNS c) \<and> d_Port (c_DNS c) \<le> 65535
     \<and> 0 \<le> w_Port (c_Web c) \<and> w_Port (c_Web c) \<le> 65535 \<and> c_DatabasePath c \<noteq> []
     \<and> a_BlockResponse (c_Adblock c) \<in> {[], ''0.0.0.0'', ''NXDOMAIN''} \<and> s_Mode (c_Sync c) \<in> {[], ''primary'', ''secondary''}"

lemma setDefaults_idem: "setDefaults h (setDefaults h c) = setDefaults h c"
  by (simp add: setDefaults_def orString_def orInt_def split: option.splits)

lemma validate_defaults: "Validate (setDefaults h c) = Inr () \<longleftrightarrow> acceptable c"
  by (auto simp: Validate_def acceptable_def setDefaults_def orString_def orInt_def Valid_def SyncModePrimary_def SyncModeSecondary_def)

lemma Load_cases:
  "Load readFile unmarshal h path = Inr c \<longleftrightarrow> (\<exists>data raw. readFile path = Some data \<and> unmarshal data = Some raw \<and> c = setDefaults h raw)"
  by (auto simp: Load_def split: option.splits)

definition configComplete :: "Config \<Rightarrow> bool" where
  "configComplete c \<longleftrightarrow> (d_TCP (c_DNS c) \<or> d_UDP (c_DNS c)) \<and> d_Port (c_DNS c) \<in> {1..65535} \<and> w_Port (c_Web c) \<in> {1..65535} \<and> d_UDPSize (c_DNS c) \<noteq> 0
     \<and> d_Version (c_DNS c) \<noteq> [] \<and> c_DatabasePath c \<noteq> [] \<and> s_Mode (c_Sync c) \<in> {SyncModePrimary, SyncModeSecondary}
     \<and> a_BlockResponse (c_Adblock c) \<in> {''0.0.0.0'', ''NXDOMAIN''} \<and> c_UpstreamTimeout c \<noteq> 0 \<and> a_SyncInterval (c_Adblock c) \<noteq> 0
     \<and> s_Interval (c_Sync c) \<noteq> 0 \<and> l_Dir (c_QueryLog c) \<noteq> [] \<and> l_RetentionDays (c_QueryLog c) \<noteq> 0 \<and> l_FlushInterval (c_QueryLog c) \<noteq> 0
     \<and> l_BufferSize (c_QueryLog c) \<noteq> 0"

lemma filepathJoin_nonempty: "b \<noteq> [] \<Longrightarrow> filepathJoin a b \<noteq> []"
  by (simp add: filepathJoin_def filepathClean_def Let_def)

lemma acceptable_complete: "acceptable c \<Longrightarrow> configComplete (setDefaults h c)"
  by (auto simp: acceptable_def configComplete_def setDefaults_def orString_def orInt_def SyncModePrimary_def SyncModeSecondary_def seconds_def filepathJoin_nonempty)

text \<open>Loading and validating accept a configuration file exactly when it can be read and decoded and the decoded values
  name a transport, a database, ports of 16 bits (0 standing for the default), a known block response or none and a known mode or
  none; the configuration is then the decoded one with the defaults, and it is complete: ports, UDP size, version, mode, block response, log directory,
  non-zero timeouts, intervals, buffer size and retention.\<close>

lemma configuration_accepted:
  "Load readFile unmarshal h path = Inr c \<and> Validate c = Inr () \<longleftrightarrow>
     (\<exists>data raw. readFile path = Some data \<and> unmarshal data = Some raw \<and> acceptable raw \<and> c = setDefaults h raw \<and> configComplete c)"
  by (auto simp: Load_cases validate_defaults acceptable_complete)

end
