(* ===== verification/Startup.thy ===== *)
theory Startup
  imports Configuration
begin

section \<open>Starting and stopping (main.go, storage/database.go, dns/server.go, web/server.go)\<close>

text \<open>
  What \<^verbatim>\<open>run\<close> acquires and releases: database connections, readers, goroutines and sockets. \<open>pr_running\<close> holds
  what is in use, newest first, \<open>pr_stopped\<close> what was released, in that order. \<^verbatim>\<open>fails\<close> tells which calls to the operating system and
  to libraries fail. \<open>deferred\<close> is Go's \<^verbatim>\<open>defer\<close>: whatever the rest of the function returns, the resource is released
  after it. Logging is left out. What the components do while they run is the subject of the other theories.
\<close>

datatype resource = Writer | Reader | GeoIPResolver | HealthCheckWorker | AdblockSyncer | LogStorage | LogWriter | LogCleaner
  | DNSHandler | UDPServer | TCPServer | SyncWorker | WebServer

text \<open>
  \<open>Unstarted\<close>: the goroutine of a DNS server has not begun to serve when it is shut down; the library then only reports
  "server not started". \<open>ShutdownFails\<close>: the context of a shutdown expired, after the socket was closed.
\<close>

datatype call = OpenWriter | OpenReader | PingWriter | PingReader | Pragma nat | RunMigrate | OpenCity | MakeLogDir | MakeHandler
  | ListenUDP | ListenTCP | Unstarted resource | ShutdownFails resource | ListenWeb

record process =
  pr_running :: "resource list"
  pr_stopped :: "resource list"

definition idle :: process where
  "idle = \<lparr>pr_running = [], pr_stopped = []\<rparr>"

definition starting :: "resource \<Rightarrow> process \<Rightarrow> process" where
  "starting r p = p\<lparr>pr_running := r # pr_running p\<rparr>"

definition stopping :: "resource \<Rightarrow> process \<Rightarrow> process" where
  "stopping r p = p\<lparr>pr_running := remove1 r (pr_running p), pr_stopped := pr_stopped p @ [r]\<rparr>"

definition deferred :: "resource \<Rightarrow> (process \<Rightarrow> 'x \<times> process) \<Rightarrow> process \<Rightarrow> 'x \<times> process" where
  "deferred r k p = (case k (starting r p) of (x, p') \<Rightarrow> (x, stopping r p'))"

subsection \<open>The database\<close>

definition closeDatabase :: "process \<Rightarrow> process" where
  "closeDatabase p = stopping Reader (stopping Writer p)"

fun configurePragmas :: "(call \<Rightarrow> bool) \<Rightarrow> nat list \<Rightarrow> bool" where
  "configurePragmas fails [] = True"
| "configurePragmas fails (i # is) = (if fails (Pragma i) then False else configurePragmas fails is)"

definition NewDatabase :: "(call \<Rightarrow> bool) \<Rightarrow> process \<Rightarrow> bool \<times> process" where
  "NewDatabase fails p0 =
     (if fails OpenWriter then (False, p0)
      else let p1 = starting Writer p0
           in if fails OpenReader then (False, stopping Writer p1)
              else let p2 = starting Reader p1
                   in if fails PingWriter then (False, closeDatabase p2)
                      else if fails PingReader then (False, closeDatabase p2)
                      else if \<not> configurePragmas fails [0..<5] then (False, closeDatabase p2)
                      else if fails RunMigrate then (False, closeDatabase p2)
                      else (True, p2))"

subsection \<open>The DNS server\<close>

definition shutdown :: "(call \<Rightarrow> bool) \<Rightarrow> resource \<Rightarrow> process \<Rightarrow> process" where
  "shutdown fails r p = (if fails (Unstarted r) then p else stopping r p)"

definition serverStart :: "(call \<Rightarrow> bool) \<Rightarrow> DNSConfig \<Rightarrow> process \<Rightarrow> bool \<times> process" where
  "serverStart fails c p0 =
     (if d_UDP c \<and> fails ListenUDP then (False, p0)
      else let p1 = (if d_UDP c then starting UDPServer p0 else p0)
           in if d_TCP c then
                (if fails ListenTCP then (False, if d_UDP c then shutdown fails UDPServer p1 else p1)
                 else (True, starting TCPServer p1))
              else (True, p1))"

definition serverStop :: "(call \<Rightarrow> bool) \<Rightarrow> DNSConfig \<Rightarrow> process \<Rightarrow> bool \<times> process" where
  "serverStop fails c p0 =
     (let p1 = (if d_UDP c then shutdown fails UDPServer p0 else p0);
          p2 = (if d_TCP c then shutdown fails TCPServer p1 else p1);
          failed = (\<lambda>r. \<not> fails (Unstarted r) \<and> fails (ShutdownFails r))
      in (\<not> (d_UDP c \<and> failed UDPServer \<or> d_TCP c \<and> failed TCPServer), p2))"

subsection \<open>The handler\<close>

text \<open>\<^verbatim>\<open>Handler.Stop\<close> also stops the log writer it was given.\<close>

definition handlerClose :: "bool \<Rightarrow> process \<Rightarrow> process" where
  "handlerClose logging p = stopping DNSHandler (if logging then stopping LogWriter p else p)"

subsection \<open>run\<close>

text \<open>
  From the web server on: it listens, the process waits for a signal, then the DNS server and the web server stop. The flag
  \<^verbatim>\<open>dnsStopped\<close> is the second component of the result.
\<close>

definition serveUntilSignal :: "(call \<Rightarrow> bool) \<Rightarrow> Config \<Rightarrow> process \<Rightarrow> ((string + unit) \<times> bool) \<times> process" where
  "serveUntilSignal fails c p0 =
     (if fails ListenWeb then ((Inl ''web server'', False), p0)
      else let p1 = starting WebServer p0;
               p2 = snd (serverStop fails (c_DNS c) p1);
               p3 = stopping WebServer p2
           in ((Inr (), True), p3))"

definition withSync :: "(call \<Rightarrow> bool) \<Rightarrow> Config \<Rightarrow> process \<Rightarrow> ((string + unit) \<times> bool) \<times> process" where
  "withSync fails c =
     (if s_Mode (c_Sync c) = SyncModeSecondary then deferred SyncWorker (serveUntilSignal fails c) else serveUntilSignal fails c)"

definition withServer :: "(call \<Rightarrow> bool) \<Rightarrow> Config \<Rightarrow> process \<Rightarrow> (string + unit) \<times> process" where
  "withServer fails c p0 =
     (case serverStart fails (c_DNS c) p0 of
        (False, p) \<Rightarrow> (Inl ''dns server'', p)
      | (True, p) \<Rightarrow>
          (case withSync fails c p of
             ((r, dnsStopped), p') \<Rightarrow> (r, if dnsStopped then p' else snd (serverStop fails (c_DNS c) p'))))"

definition withHandler :: "(call \<Rightarrow> bool) \<Rightarrow> Config \<Rightarrow> process \<Rightarrow> (string + unit) \<times> process" where
  "withHandler fails c p0 =
     (if fails MakeHandler then (Inl ''dns handler'', p0)
      else case withServer fails c (starting DNSHandler p0) of
             (r, p) \<Rightarrow> (r, handlerClose (l_Enabled (c_QueryLog c)) p))"

definition withQueryLog :: "(call \<Rightarrow> bool) \<Rightarrow> Config \<Rightarrow> process \<Rightarrow> (string + unit) \<times> process" where
  "withQueryLog fails c p0 =
     (if \<not> l_Enabled (c_QueryLog c) then withHandler fails c p0
      else if l_Dir (c_QueryLog c) = [] \<or> fails MakeLogDir then (Inl ''query log'', p0)
      else deferred LogStorage (\<lambda>p. deferred LogCleaner (withHandler fails c) (starting LogWriter p)) p0)"

definition withWorkers :: "(call \<Rightarrow> bool) \<Rightarrow> Config \<Rightarrow> process \<Rightarrow> (string + unit) \<times> process" where
  "withWorkers fails c =
     deferred HealthCheckWorker
       (if s_Mode (c_Sync c) \<noteq> SyncModeSecondary then deferred AdblockSyncer (withQueryLog fails c) else withQueryLog fails c)"

definition withGeoIP :: "(call \<Rightarrow> bool) \<Rightarrow> Config \<Rightarrow> process \<Rightarrow> (string + unit) \<times> process" where
  "withGeoIP fails c =
     (if c_CityDB c \<noteq> [] \<and> \<not> fails OpenCity then deferred GeoIPResolver (withWorkers fails c) else withWorkers fails c)"

definition run :: "(string \<Rightarrow> string option) \<Rightarrow> (string \<Rightarrow> Config option) \<Rightarrow> string option \<Rightarrow> (call \<Rightarrow> bool) \<Rightarrow> string \<Rightarrow> (string + unit) \<times> process" where
  "run readFile unmarshal hostname fails path =
     (case Load readFile unmarshal hostname path of
        Inl e \<Rightarrow> (Inl e, idle)
      | Inr c \<Rightarrow>
          (case Validate c of
             Inl e \<Rightarrow> (Inl e, idle)
           | Inr _ \<Rightarrow>
               (case NewDatabase fails idle of
                  (False, p) \<Rightarrow> (Inl ''database'', p)
                | (True, p) \<Rightarrow> (case withGeoIP fails c p of (r, p') \<Rightarrow> (r, closeDatabase p')))))"


subsection \<open>Everything is released\<close>

text \<open>What a component uses while it runs, and a list of releases in which nothing goes before its users.\<close>

fun needs :: "resource \<Rightarrow> resource list" where
  "needs HealthCheckWorker = [Writer, Reader]"
| "needs AdblockSyncer = [Writer, Reader]"
| "needs LogWriter = [LogStorage]"
| "needs LogCleaner = [LogStorage]"
| "needs DNSHandler = [Writer, Reader, GeoIPResolver, LogStorage]"
| "needs UDPServer = [Writer, Reader, GeoIPResolver, LogStorage, LogWriter, DNSHandler, HealthCheckWorker]"
| "needs TCPServer = [Writer, Reader, GeoIPResolver, LogStorage, LogWriter, DNSHandler, HealthCheckWorker]"
| "needs SyncWorker = [Writer, Reader, DNSHandler, HealthCheckWorker]"
| "needs WebServer = [Writer, Reader, DNSHandler, HealthCheckWorker, AdblockSyncer, LogStorage]"
| "needs _ = []"

fun ordered :: "resource list \<Rightarrow> bool" where
  "ordered [] = True"
| "ordered (r # rs) = (list_all (\<lambda>q. r \<notin> set (needs q)) rs \<and> ordered rs)"

lemma ordered_append [simp]:
  "ordered (xs @ ys) \<longleftrightarrow> ordered xs \<and> ordered ys \<and> (\<forall>x \<in> set xs. \<forall>y \<in> set ys. x \<notin> set (needs y))"
  by (induction xs) (auto simp: list_all_iff)

text \<open>
  \<open>tidy L S k\<close>: \<open>k\<close> releases what it acquires but for resources of \<open>L\<close>, each once and in order; what it releases is in \<open>S\<close>.
\<close>

definition tidy :: "resource set \<Rightarrow> resource set \<Rightarrow> (process \<Rightarrow> 'x \<times> process) \<Rightarrow> bool" where
  "tidy L S k \<longleftrightarrow> (\<forall>p. \<exists>rest new. snd (k p) = p\<lparr>pr_running := rest @ pr_running p, pr_stopped := pr_stopped p @ new\<rparr>
     \<and> set rest \<subseteq> L \<and> set new \<subseteq> S \<and> distinct new \<and> ordered new)"

lemma tidyI:
  assumes "\<And>p. snd (k p) = p\<lparr>pr_running := rest p @ pr_running p, pr_stopped := pr_stopped p @ new p\<rparr>"
    and "\<And>p. set (rest p) \<subseteq> L" "\<And>p. set (new p) \<subseteq> S" "\<And>p. distinct (new p)" "\<And>p. ordered (new p)"
  shows "tidy L S k"
  unfolding tidy_def using assms by blast

lemma tidyE:
  assumes "tidy L S k"
  obtains rest new where "snd (k p) = p\<lparr>pr_running := rest @ pr_running p, pr_stopped := pr_stopped p @ new\<rparr>"
    "set rest \<subseteq> L" "set new \<subseteq> S" "distinct new" "ordered new"
  using assms unfolding tidy_def by blast

lemma tidy_mono: "tidy L S k \<Longrightarrow> S \<subseteq> S' \<Longrightarrow> tidy L S' k"
  unfolding tidy_def by (meson subset_trans)

lemma deferred_tidy:
  assumes k: "tidy L S k" and "r \<notin> L" "r \<notin> S" and "\<forall>q \<in> S. q \<notin> set (needs r)"
  shows "tidy L (insert r S) (deferred r k)"
proof -
  have "\<exists>rest new. snd (deferred r k p) = p\<lparr>pr_running := rest @ pr_running p, pr_stopped := pr_stopped p @ new\<rparr>
      \<and> set rest \<subseteq> L \<and> set new \<subseteq> insert r S \<and> distinct new \<and> ordered new" for p
  proof -
    obtain rest new where e: "snd (k (starting r p)) = (starting r p)\<lparr>pr_running := rest @ pr_running (starting r p), pr_stopped := pr_stopped (starting r p) @ new\<rparr>"
      "set rest \<subseteq> L" "set new \<subseteq> S" "distinct new" "ordered new" by (rule tidyE [OF k])
    have "snd (deferred r k p) = stopping r (snd (k (starting r p)))" by (simp add: deferred_def split: prod.splits)
    also have "\<dots> = p\<lparr>pr_running := rest @ pr_running p, pr_stopped := pr_stopped p @ (new @ [r])\<rparr>"
      using e(1,2) assms(2) by (auto simp: starting_def stopping_def remove1_append)
    finally show ?thesis using e(2-5) assms(3,4) by (intro exI [of _ rest] exI [of _ "new @ [r]"]) auto
  qed
  then show ?thesis unfolding tidy_def by blast
qed


definition servers :: "DNSConfig \<Rightarrow> resource list" where
  "servers c = (if d_TCP c then [TCPServer] else []) @ (if d_UDP c then [UDPServer] else [])"

definition unstopped :: "(call \<Rightarrow> bool) \<Rightarrow> resource list \<Rightarrow> resource list" where
  "unstopped fails rs = filter (\<lambda>r. fails (Unstarted r)) rs"

definition stopped :: "(call \<Rightarrow> bool) \<Rightarrow> resource list \<Rightarrow> resource list" where
  "stopped fails rs = rev (filter (\<lambda>r. \<not> fails (Unstarted r)) rs)"

lemma serverStop_effect:
  assumes "pr_running p = pre @ servers c @ R" and "TCPServer \<notin> set pre" "UDPServer \<notin> set pre"
  shows "snd (serverStop fails c p) = p\<lparr>pr_running := pre @ unstopped fails (servers c) @ R, pr_stopped := pr_stopped p @ stopped fails (servers c)\<rparr>"
  using assms
  by (cases "d_TCP c"; cases "d_UDP c"; cases "fails (Unstarted TCPServer)"; cases "fails (Unstarted UDPServer)")
    (simp_all add: serverStop_def shutdown_def servers_def unstopped_def stopped_def stopping_def remove1_append Let_def)

lemma serveUntilSignal_effect:
  assumes "pr_running p = pre @ servers (c_DNS c) @ R" and "TCPServer \<notin> set pre" "UDPServer \<notin> set pre"
  shows "snd (serveUntilSignal fails c p) = (if fails ListenWeb then p
    else p\<lparr>pr_running := pre @ unstopped fails (servers (c_DNS c)) @ R, pr_stopped := pr_stopped p @ stopped fails (servers (c_DNS c)) @ [WebServer]\<rparr>)"
    and "snd (fst (serveUntilSignal fails c p)) = (\<not> fails ListenWeb)"
proof -
  have "snd (serverStop fails (c_DNS c) (starting WebServer p)) = (starting WebServer p)\<lparr>pr_running := (WebServer # pre) @ unstopped fails (servers (c_DNS c)) @ R,
      pr_stopped := pr_stopped (starting WebServer p) @ stopped fails (servers (c_DNS c))\<rparr>"
    using assms by (intro serverStop_effect) (simp_all add: starting_def)
  then show "snd (serveUntilSignal fails c p) = (if fails ListenWeb then p
    else p\<lparr>pr_running := pre @ unstopped fails (servers (c_DNS c)) @ R, pr_stopped := pr_stopped p @ stopped fails (servers (c_DNS c)) @ [WebServer]\<rparr>)"
    by (simp add: serveUntilSignal_def Let_def stopping_def starting_def)
qed (simp add: serveUntilSignal_def Let_def)

definition syncs :: "Config \<Rightarrow> resource list" where
  "syncs c = (if s_Mode (c_Sync c) = SyncModeSecondary then [SyncWorker] else [])"

lemma withSync_effect:
  assumes "pr_running p = servers (c_DNS c) @ R"
  shows "snd (withSync fails c p) = (if fails ListenWeb then p\<lparr>pr_stopped := pr_stopped p @ syncs c\<rparr>
    else p\<lparr>pr_running := unstopped fails (servers (c_DNS c)) @ R, pr_stopped := pr_stopped p @ stopped fails (servers (c_DNS c)) @ [WebServer] @ syncs c\<rparr>)"
    and "snd (fst (withSync fails c p)) = (\<not> fails ListenWeb)"
  using assms serveUntilSignal_effect [of p "[]" c R fails] serveUntilSignal_effect [of "starting SyncWorker p" "[SyncWorker]" c R fails]
  by (auto simp: withSync_def syncs_def deferred_def starting_def stopping_def split: prod.splits)

lemma withServer_effect:
  "\<exists>rest new. snd (withServer fails c p) = p\<lparr>pr_running := rest @ pr_running p, pr_stopped := pr_stopped p @ new\<rparr>
     \<and> rest \<in> {[], unstopped fails [UDPServer], unstopped fails (servers (c_DNS c))}
     \<and> new \<in> {[], stopped fails [UDPServer], stopped fails (servers (c_DNS c)) @ [WebServer] @ syncs c, syncs c @ stopped fails (servers (c_DNS c))}"
proof (cases "serverStart fails (c_DNS c) p")
  case (Pair ok p1)
  let ?d = "servers (c_DNS c)"
  show ?thesis
  proof (cases ok)
    case False
    have "\<not> ok \<Longrightarrow> p1 = p \<or> p1 = p\<lparr>pr_running := unstopped fails [UDPServer] @ pr_running p, pr_stopped := pr_stopped p @ stopped fails [UDPServer]\<rparr>"
      using Pair by (auto simp: serverStart_def Let_def shutdown_def unstopped_def stopped_def starting_def stopping_def split: if_splits)
    moreover have "snd (withServer fails c p) = p1" using False Pair by (simp add: withServer_def)
    ultimately show ?thesis using False by force
  next
    case True
    then have p1: "p1 = p\<lparr>pr_running := ?d @ pr_running p\<rparr>"
      using Pair by (auto simp: serverStart_def Let_def servers_def starting_def split: if_splits)
    obtain r st p2 where w: "withSync fails c p1 = ((r, st), p2)" by (metis prod.collapse)
    have e: "p2 = (if fails ListenWeb then p1\<lparr>pr_stopped := pr_stopped p1 @ syncs c\<rparr>
        else p1\<lparr>pr_running := unstopped fails ?d @ pr_running p, pr_stopped := pr_stopped p1 @ stopped fails ?d @ [WebServer] @ syncs c\<rparr>)"
      "st = (\<not> fails ListenWeb)"
      using withSync_effect [of p1 c "pr_running p" fails] w by (simp_all add: p1)
    show ?thesis
    proof (cases st)
      case True
      with Pair \<open>ok\<close> w e p1 have "snd (withServer fails c p) = p\<lparr>pr_running := unstopped fails ?d @ pr_running p,
          pr_stopped := pr_stopped p @ (stopped fails ?d @ [WebServer] @ syncs c)\<rparr>" by (simp add: withServer_def)
      then show ?thesis by blast
    next
      case False
      with e p1 have p2: "p2 = p\<lparr>pr_running := ?d @ pr_running p, pr_stopped := pr_stopped p @ syncs c\<rparr>" by simp
      have "snd (serverStop fails (c_DNS c) p2) = p\<lparr>pr_running := unstopped fails ?d @ pr_running p,
          pr_stopped := pr_stopped p @ (syncs c @ stopped fails ?d)\<rparr>"
        using serverStop_effect [of p2 "[]" "c_DNS c" "pr_running p" fails] by (simp add: p2)
      with Pair \<open>ok\<close> w False have "snd (withServer fails c p) = p\<lparr>pr_running := unstopped fails ?d @ pr_running p,
          pr_stopped := pr_stopped p @ (syncs c @ stopped fails ?d)\<rparr>" by (simp add: withServer_def)
      then show ?thesis by blast
    qed
  qed
qed


text \<open>The only resources that can be left: a DNS server that is shut down before it has begun to serve, and the log writer when no handler can be made.\<close>

definition leftover :: "(call \<Rightarrow> bool) \<Rightarrow> resource set" where
  "leftover fails = {r. (r = UDPServer \<or> r = TCPServer) \<and> fails (Unstarted r)} \<union> (if fails MakeHandler then {LogWriter} else {})"

abbreviation "serverSet \<equiv> {UDPServer, TCPServer, WebServer, SyncWorker}"

lemma withServer_tidy:
  obtains rest new where "snd (withServer fails c p) = p\<lparr>pr_running := rest @ pr_running p, pr_stopped := pr_stopped p @ new\<rparr>"
    "set rest \<subseteq> leftover fails \<inter> {UDPServer, TCPServer}" "set new \<subseteq> serverSet" "distinct new" "ordered new"
proof -
  obtain rest new where e: "snd (withServer fails c p) = p\<lparr>pr_running := rest @ pr_running p, pr_stopped := pr_stopped p @ new\<rparr>"
    and rest: "rest \<in> {[], unstopped fails [UDPServer], unstopped fails (servers (c_DNS c))}"
    and new: "new \<in> {[], stopped fails [UDPServer], stopped fails (servers (c_DNS c)) @ [WebServer] @ syncs c, syncs c @ stopped fails (servers (c_DNS c))}"
    using withServer_effect by meson
  have "set rest \<subseteq> leftover fails \<inter> {UDPServer, TCPServer}"
    using rest by (auto simp: unstopped_def servers_def leftover_def split: if_splits)
  moreover have "set new \<subseteq> serverSet \<and> distinct new \<and> ordered new"
    using new by (auto simp: stopped_def servers_def syncs_def split: if_splits)
  ultimately show ?thesis using e that by blast
qed

lemma withHandler_effect:
  assumes "\<not> fails MakeHandler"
  obtains rest new where "snd (withHandler fails c p) = p\<lparr>pr_running := rest @ (if l_Enabled (c_QueryLog c) then remove1 LogWriter (pr_running p) else pr_running p),
      pr_stopped := pr_stopped p @ new @ (if l_Enabled (c_QueryLog c) then [LogWriter] else []) @ [DNSHandler]\<rparr>"
    "set rest \<subseteq> leftover fails \<inter> {UDPServer, TCPServer}" "set new \<subseteq> serverSet" "distinct new" "ordered new"
proof -
  obtain rest new where e: "snd (withServer fails c (starting DNSHandler p)) = (starting DNSHandler p)\<lparr>pr_running := rest @ pr_running (starting DNSHandler p),
      pr_stopped := pr_stopped (starting DNSHandler p) @ new\<rparr>"
    and rn: "set rest \<subseteq> leftover fails \<inter> {UDPServer, TCPServer}" "set new \<subseteq> serverSet" "distinct new" "ordered new"
    by (rule withServer_tidy)
  have not: "DNSHandler \<notin> set rest" "LogWriter \<notin> set rest" using rn(1) by auto
  have "snd (withHandler fails c p) = handlerClose (l_Enabled (c_QueryLog c)) (snd (withServer fails c (starting DNSHandler p)))"
    using assms by (simp add: withHandler_def split: prod.splits)
  also have "\<dots> = p\<lparr>pr_running := rest @ (if l_Enabled (c_QueryLog c) then remove1 LogWriter (pr_running p) else pr_running p),
      pr_stopped := pr_stopped p @ new @ (if l_Enabled (c_QueryLog c) then [LogWriter] else []) @ [DNSHandler]\<rparr>"
    unfolding e using not by (simp add: handlerClose_def starting_def stopping_def remove1_append)
  finally show ?thesis using rn that by blast
qed

lemma withQueryLog_tidy:
  "tidy (leftover fails) (serverSet \<union> {LogWriter, DNSHandler, LogCleaner, LogStorage}) (withQueryLog fails c)"
proof -
  let ?S = "serverSet \<union> {LogWriter, DNSHandler, LogCleaner, LogStorage}" and ?on = "l_Enabled (c_QueryLog c)"
  have "\<exists>rest new. snd (withQueryLog fails c p) = p\<lparr>pr_running := rest @ pr_running p, pr_stopped := pr_stopped p @ new\<rparr>
      \<and> set rest \<subseteq> leftover fails \<and> set new \<subseteq> ?S \<and> distinct new \<and> ordered new" for p
  proof -
    let ?q = "starting LogCleaner (starting LogWriter (starting LogStorage p))"
    have on: "snd (withQueryLog fails c p) = (if l_Dir (c_QueryLog c) = [] \<or> fails MakeLogDir then p
        else stopping LogStorage (stopping LogCleaner (snd (withHandler fails c ?q))))" if "?on"
      using that by (simp add: withQueryLog_def deferred_def split: prod.splits)
    consider "\<not> ?on" "fails MakeHandler" | "\<not> ?on" "\<not> fails MakeHandler"
      | "?on" "l_Dir (c_QueryLog c) = [] \<or> fails MakeLogDir"
      | "?on" "\<not> (l_Dir (c_QueryLog c) = [] \<or> fails MakeLogDir)" "fails MakeHandler"
      | "?on" "\<not> (l_Dir (c_QueryLog c) = [] \<or> fails MakeLogDir)" "\<not> fails MakeHandler" by blast
    then show ?thesis
    proof cases
      case 1
      then show ?thesis by (intro exI [of _ "[]"]) (simp add: withQueryLog_def withHandler_def)
    next
      case 2
      obtain rest new where e: "snd (withHandler fails c p) = p\<lparr>pr_running := rest @ (if ?on then remove1 LogWriter (pr_running p) else pr_running p),
          pr_stopped := pr_stopped p @ new @ (if ?on then [LogWriter] else []) @ [DNSHandler]\<rparr>"
        "set rest \<subseteq> leftover fails \<inter> {UDPServer, TCPServer}" "set new \<subseteq> serverSet" "distinct new" "ordered new"
        by (rule withHandler_effect [where fails = fails and c = c and p = p, OF 2(2)])
      from e(2-5) 2(1) show ?thesis by (intro exI [of _ rest] exI [of _ "new @ [DNSHandler]"]) (auto simp: withQueryLog_def e(1))
    next
      case 3
      then show ?thesis using on by (intro exI [of _ "[]"]) simp
    next
      case 4
      then show ?thesis using on
        by (intro exI [of _ "[LogWriter]"] exI [of _ "[LogCleaner, LogStorage]"])
          (auto simp: withHandler_def starting_def stopping_def leftover_def)
    next
      case 5
      obtain rest new where e: "snd (withHandler fails c ?q) = ?q\<lparr>pr_running := rest @ (if ?on then remove1 LogWriter (pr_running ?q) else pr_running ?q),
          pr_stopped := pr_stopped ?q @ new @ (if ?on then [LogWriter] else []) @ [DNSHandler]\<rparr>"
        "set rest \<subseteq> leftover fails \<inter> {UDPServer, TCPServer}" "set new \<subseteq> serverSet" "distinct new" "ordered new"
        by (rule withHandler_effect [where fails = fails and c = c and p = ?q, OF 5(3)])
      have not: "LogCleaner \<notin> set rest" "LogStorage \<notin> set rest" using e(2) by auto
      have "snd (withQueryLog fails c p) = stopping LogStorage (stopping LogCleaner (snd (withHandler fails c ?q)))"
        using on 5(1,2) by (simp only: if_False)
      also have "\<dots> = p\<lparr>pr_running := rest @ pr_running p,
          pr_stopped := pr_stopped p @ (new @ [LogWriter, DNSHandler, LogCleaner, LogStorage])\<rparr>"
        unfolding e(1) using 5(1) not by (simp add: starting_def stopping_def remove1_append)
      finally show ?thesis using e(2-5)
        by (intro exI [of _ rest] exI [of _ "new @ [LogWriter, DNSHandler, LogCleaner, LogStorage]"]) auto
    qed
  qed
  then show ?thesis unfolding tidy_def by blast
qed

lemma withGeoIP_tidy:
  "tidy (leftover fails) (serverSet \<union> {LogWriter, DNSHandler, LogCleaner, LogStorage, AdblockSyncer, HealthCheckWorker, GeoIPResolver}) (withGeoIP fails c)"
proof -
  let ?S = "serverSet \<union> {LogWriter, DNSHandler, LogCleaner, LogStorage}" and ?L = "leftover fails"
  have q: "tidy ?L ?S (withQueryLog fails c)" by (rule withQueryLog_tidy)
  have a: "tidy ?L (insert AdblockSyncer ?S) (if s_Mode (c_Sync c) \<noteq> SyncModeSecondary then deferred AdblockSyncer (withQueryLog fails c) else withQueryLog fails c)"
    using deferred_tidy [OF q, of AdblockSyncer] tidy_mono [OF q] by (auto simp: leftover_def)
  have w: "tidy ?L (insert HealthCheckWorker (insert AdblockSyncer ?S)) (withWorkers fails c)"
    unfolding withWorkers_def using deferred_tidy [OF a, of HealthCheckWorker] by (simp add: leftover_def)
  have "tidy ?L (insert GeoIPResolver (insert HealthCheckWorker (insert AdblockSyncer ?S))) (withGeoIP fails c)"
    unfolding withGeoIP_def using deferred_tidy [OF w, of GeoIPResolver] tidy_mono [OF w] by (auto simp: leftover_def)
  then show ?thesis by (rule tidy_mono) blast
qed

lemma NewDatabase_effect:
  assumes "NewDatabase fails idle = (ok, p)"
  shows "if ok then p = starting Reader (starting Writer idle) else pr_running p = [] \<and> pr_stopped p \<in> {[], [Writer], [Writer, Reader]}"
  using assms by (auto simp: NewDatabase_def Let_def idle_def closeDatabase_def starting_def stopping_def split: if_splits)

lemma run_effect:
  assumes "run readFile unmarshal hostname fails path = (r, p)"
  shows "set (pr_running p) \<subseteq> leftover fails \<and> distinct (pr_stopped p) \<and> ordered (pr_stopped p)"
proof (cases "(\<exists>c. Load readFile unmarshal hostname path = Inr c \<and> Validate c = Inr ()) \<and> fst (NewDatabase fails idle)")
  case False
  then have "p = idle \<or> (\<exists>d. NewDatabase fails idle = (False, d) \<and> p = d)"
    using assms by (auto simp: run_def split: sum.splits prod.splits bool.splits)
  then have "pr_running p = [] \<and> pr_stopped p \<in> {[], [Writer], [Writer, Reader]}"
    using NewDatabase_effect [of fails False] by (auto simp: idle_def)
  then show ?thesis by auto
next
  case True
  then obtain c where c: "Load readFile unmarshal hostname path = Inr c" "Validate c = Inr ()" by blast
  have d: "NewDatabase fails idle = (True, starting Reader (starting Writer idle))"
    using True NewDatabase_effect [of fails True] by (cases "NewDatabase fails idle") auto
  let ?p = "starting Reader (starting Writer idle)"
  have p: "p = closeDatabase (snd (withGeoIP fails c ?p))" using assms c d by (simp add: run_def split: prod.splits)
  obtain rest new where e: "snd (withGeoIP fails c ?p) = ?p\<lparr>pr_running := rest @ pr_running ?p, pr_stopped := pr_stopped ?p @ new\<rparr>"
    "set rest \<subseteq> leftover fails" "set new \<subseteq> serverSet \<union> {LogWriter, DNSHandler, LogCleaner, LogStorage, AdblockSyncer, HealthCheckWorker, GeoIPResolver}"
    "distinct new" "ordered new" by (rule tidyE [OF withGeoIP_tidy])
  have not: "Reader \<notin> set rest" "Writer \<notin> set rest" using e(2) by (auto simp: leftover_def split: if_splits)
  have "p = \<lparr>pr_running = rest, pr_stopped = new @ [Writer, Reader]\<rparr>"
    unfolding p e(1) using not by (simp add: closeDatabase_def starting_def stopping_def idle_def remove1_append)
  with e(2-5) show ?thesis by auto
qed

text \<open>When nothing fails, an accepted configuration starts and stops everything it asks for.\<close>

lemma run_complete:
  assumes "Load readFile unmarshal hostname path = Inr c" and "Validate c = Inr ()" and "l_Enabled (c_QueryLog c) \<longrightarrow> l_Dir (c_QueryLog c) \<noteq> []"
  shows "run readFile unmarshal hostname (\<lambda>_. False) path = (Inr (), \<lparr>pr_running = [], pr_stopped =
    rev (servers (c_DNS c)) @ [WebServer] @ syncs c @ (if l_Enabled (c_QueryLog c) then [LogWriter] else []) @ [DNSHandler]
    @ (if l_Enabled (c_QueryLog c) then [LogCleaner, LogStorage] else []) @ (if s_Mode (c_Sync c) = SyncModeSecondary then [] else [AdblockSyncer])
    @ [HealthCheckWorker] @ (if c_CityDB c = [] then [] else [GeoIPResolver]) @ [Writer, Reader]\<rparr>)"
  using assms
  by (cases "d_UDP (c_DNS c)"; cases "d_TCP (c_DNS c)"; cases "s_Mode (c_Sync c) = SyncModeSecondary"; cases "l_Enabled (c_QueryLog c)"; cases "c_CityDB c = []")
    (simp_all add: run_def NewDatabase_def upt_rec Let_def withGeoIP_def withWorkers_def withQueryLog_def withHandler_def withServer_def withSync_def
      serveUntilSignal_def serverStart_def serverStop_def shutdown_def handlerClose_def closeDatabase_def deferred_def starting_def stopping_def idle_def
      servers_def syncs_def numeral_eq_Suc)

text \<open>C18: Whatever fails while the process starts, runs and stops, \<^verbatim>\<open>run\<close> ends with everything it acquired released: database connections,
  GeoIP reader, workers, log storage, handler and sockets, each of them once, and none before the components that use it (the
  DNS and web servers before the handler, the handler's log writer before the log storage, the database last). Two exceptions are all there is: a
  DNS server that is shut down before its goroutine has begun to serve, and the log writer when the handler cannot be made.\<close>

theorem run_releases:
  "set (pr_running (snd (run readFile unmarshal hostname fails path))) \<subseteq> leftover fails
   \<and> distinct (pr_stopped (snd (run readFile unmarshal hostname fails path)))
   \<and> ordered (pr_stopped (snd (run readFile unmarshal hostname fails path)))"
proof -
  obtain r p where "run readFile unmarshal hostname fails path = (r, p)" by fastforce
  then show ?thesis using run_effect by simp
qed
end
