(* ===== verification/Seed.thy ===== *)
theory Seed
  imports AdblockStore Startup
begin

section \<open>The initial data (init\_db.go)\<close>

text \<open>
  \<^verbatim>\<open>initDB\<close> adds the default upstream servers that are not there yet and the default ad-block source. It reads the
  servers through the storage's cache and inserts without it; what fails is logged and passed over.
\<close>

definition seedRow :: "string \<times> string \<times> string \<times> int \<Rightarrow> UpstreamServer" where
  "seedRow = (\<lambda>(name, address, protocol, priority).
     \<lparr>u_ID = 0, u_Name = name, u_Address = address, u_Protocol = protocol, u_Priority = priority, u_Enabled = True, u_CreatedAt = 0, u_UpdatedAt = 0\<rparr>)"

definition seedServers :: "(string \<times> string \<times> string \<times> int) list" where
  "seedServers = [(''Google DNS'', ''8.8.8.8:53'', ''udp'', 1), (''Cloudflare DNS'', ''1.1.1.1:53'', ''udp'', 2),
     (''Google DNS (Secondary)'', ''8.8.4.4:53'', ''udp'', 3)]"

definition seedServer :: "instant \<Rightarrow> string \<times> string \<times> string \<times> int \<Rightarrow> db \<times> UpstreamCache \<Rightarrow> db \<times> UpstreamCache" where
  "seedServer now row = (\<lambda>(d, c).
     case ListUpstreamServers now d c of
       (Inl _, d', c') \<Rightarrow> (d', c')
     | (Inr existing, d', c') \<Rightarrow>
         if list_ex (\<lambda>e. u_Address e = u_Address (seedRow row)) existing then (d', c')
         else (case autocommit (tx_call ExecFailed (insertUpstream now (seedRow row))) d' of
                 (Inl _, d'') \<Rightarrow> (d'', c')
               | (Inr _, d'') \<Rightarrow> (snd (autocommit (tx_ok ResultFailed) d''), c')))"

text \<open>\<^verbatim>\<open>INSERT OR IGNORE\<close>: the URL is unique.\<close>

definition seedSourceRow :: "instant \<Rightarrow> tables \<Rightarrow> db_error + unit \<times> tables" where
  "seedSourceRow now t =
     (let url = ''https://adguardteam.github.io/AdGuardSDNSFilter/Filters/filter.txt''
      in if list_ex (\<lambda>y. as_URL y = url) (t_sources t) then Inr ((), t)
         else Inr ((), (take_id TSources t)\<lparr>t_sources := t_sources t @
                [\<lparr>as_ID = next_id TSources t, as_Name = ''AdGuard DNS Filter'', as_URL = url, as_Enabled = True, as_LastSync = None,
                  as_LastModified = None, as_RuleCount = 0, as_CreatedAt = now, as_UpdatedAt = now\<rparr>]\<rparr>))"

definition seedData :: "instant \<Rightarrow> db \<Rightarrow> db" where
  "seedData now d0 =
     (case fold (seedServer now) seedServers (d0, NewUpstreamStorage) of
        (d, _) \<Rightarrow> snd (autocommit (tx_call ExecFailed (seedSourceRow now)) d))"

definition initDB ::
  "(string \<Rightarrow> string option) \<Rightarrow> (string \<Rightarrow> Config option) \<Rightarrow> string option \<Rightarrow> (call \<Rightarrow> bool) \<Rightarrow> instant \<Rightarrow> string \<Rightarrow> db \<Rightarrow> (string + db) \<times> process" where
  "initDB readFile unmarshal hostname fails now path d =
     (case Load readFile unmarshal hostname path of
        Inl e \<Rightarrow> (Inl e, idle)
      | Inr c \<Rightarrow>
          (case NewDatabase fails idle of
             (False, p) \<Rightarrow> (Inl ''database'', p)
           | (True, p) \<Rightarrow> (Inr (seedData now d), closeDatabase p)))"

subsection \<open>Once is enough\<close>

definition seeded :: "tables \<Rightarrow> bool" where
  "seeded t \<longleftrightarrow> list_all (\<lambda>row. list_ex (\<lambda>u. u_Address u = u_Address (seedRow row)) (t_upstreams t)) seedServers
     \<and> list_ex (\<lambda>y. as_URL y = ''https://adguardteam.github.io/AdGuardSDNSFilter/Filters/filter.txt'') (t_sources t)"


definition addresses :: "db \<Rightarrow> string set" where
  "addresses d = u_Address ` set (t_upstreams (tables d))"

text \<open>The cache holds nothing or what the table had before.\<close>

definition cacheWithin :: "instant \<Rightarrow> db \<Rightarrow> UpstreamCache \<Rightarrow> bool" where
  "cacheWithin now d c \<longleftrightarrow> (case upstreamCacheGet now c of None \<Rightarrow> True | Some listed \<Rightarrow> u_Address ` set listed \<subseteq> addresses d)"

lemma list_calm:
  assumes "faults d = []" and "cacheWithin now d c" and "0 \<le> uc_ttl c"
  obtains listed c' where "ListUpstreamServers now d c = (Inr listed, d, c')" "u_Address ` set listed \<subseteq> addresses d"
    "cacheWithin now d c'" "uc_ttl c' = uc_ttl c" "upstreamCacheGet now c = None \<Longrightarrow> u_Address ` set listed = addresses d"
    "upstreamCacheGet now c' = Some listed"
proof (cases "upstreamCacheGet now c")
  case None
  with assms show ?thesis
    by (intro that [of "allUpstreams (tables d)" "upstreamCacheSet now (allUpstreams (tables d)) c"])
      (auto simp: ListUpstreamServers_def read_through_def reader_def cacheWithin_def upstreamCacheGet_def upstreamCacheSet_def allUpstreams_def addresses_def)
next
  case (Some listed)
  with assms show ?thesis
    by (intro that [of listed c]) (auto simp: ListUpstreamServers_def read_through_def cacheWithin_def)
qed

lemma list_ex_address: "list_ex (\<lambda>e. u_Address e = a) xs \<longleftrightarrow> a \<in> u_Address ` set xs"
  by (auto simp: list_ex_iff)

lemma seed_step:
  assumes "seedServer now row (d, c) = (d', c')" and "faults d = []" and "cacheWithin now d c" and "0 \<le> uc_ttl c"
  shows "faults d' = [] \<and> cacheWithin now d' c' \<and> 0 \<le> uc_ttl c' \<and> insert (u_Address (seedRow row)) (addresses d) = addresses d'
    \<and> t_sources (tables d') = t_sources (tables d)"
proof -
  obtain listed c1 where l: "ListUpstreamServers now d c = (Inr listed, d, c1)" "u_Address ` set listed \<subseteq> addresses d"
    "cacheWithin now d c1" "uc_ttl c1 = uc_ttl c" by (rule list_calm [OF assms(2-4)])
  show ?thesis
  proof (cases "list_ex (\<lambda>e. u_Address e = u_Address (seedRow row)) listed")
    case True
    then have "u_Address (seedRow row) \<in> addresses d" using l(2) unfolding list_ex_address by blast
    moreover have "d' = d" "c' = c1" using assms(1) l(1) True by (simp_all add: seedServer_def)
    ultimately show ?thesis using assms(2,4) l(3,4) by auto
  next
    case False
    then show ?thesis
      using assms(1,2,4) l
      by (auto simp: seedServer_def autocommit_def tx_call_def tx_ok_def insertUpstream_def Let_def take_id_def addresses_def cacheWithin_def
        split: option.splits)
  qed
qed

lemma seed_steps:
  assumes "fold (seedServer now) rows (d, c) = (d', c')" and "faults d = []" and "cacheWithin now d c" and "0 \<le> uc_ttl c"
  shows "faults d' = [] \<and> addresses d' = addresses d \<union> (\<lambda>row. u_Address (seedRow row)) ` set rows \<and> t_sources (tables d') = t_sources (tables d)"
  using assms
proof (induction rows arbitrary: d c)
  case (Cons row rows)
  obtain d1 c1 where s: "seedServer now row (d, c) = (d1, c1)" by fastforce
  note step = seed_step [OF s Cons.prems(2-4)]
  from Cons.prems(1) s have "fold (seedServer now) rows (d1, c1) = (d', c')" by simp
  from Cons.IH [OF this] step show ?case by auto
qed simp

text \<open>A second run finds everything.\<close>

lemma seed_noop:
  assumes "faults d = []" and "u_Address (seedRow row) \<in> addresses d" and "0 \<le> uc_ttl c"
    and "\<And>listed. upstreamCacheGet now c = Some listed \<Longrightarrow> u_Address ` set listed = addresses d"
  shows "\<exists>c'. seedServer now row (d, c) = (d, c') \<and> 0 \<le> uc_ttl c' \<and> (\<forall>listed. upstreamCacheGet now c' = Some listed \<longrightarrow> u_Address ` set listed = addresses d)"
proof -
  have within: "cacheWithin now d c" using assms(4) by (simp add: cacheWithin_def split: option.splits)
  obtain listed c1 where l: "ListUpstreamServers now d c = (Inr listed, d, c1)" "uc_ttl c1 = uc_ttl c"
    "upstreamCacheGet now c = None \<Longrightarrow> u_Address ` set listed = addresses d" "upstreamCacheGet now c1 = Some listed"
    using list_calm [OF assms(1) within assms(3)] by metis
  have all: "u_Address ` set listed = addresses d"
  proof (cases "upstreamCacheGet now c")
    case (Some xs)
    then have "listed = xs" using l(1) by (simp add: ListUpstreamServers_def read_through_def)
    with Some assms(4) show ?thesis by simp
  qed (use l(3) in simp)
  then have "list_ex (\<lambda>e. u_Address e = u_Address (seedRow row)) listed" using assms(2) by (simp add: list_ex_address)
  then have "seedServer now row (d, c) = (d, c1)" using l(1) by (simp add: seedServer_def)
  with l(2,4) all assms(3) show ?thesis by auto
qed

lemma seed_noops:
  assumes "faults d = []" and "\<forall>row \<in> set rows. u_Address (seedRow row) \<in> addresses d" and "0 \<le> uc_ttl c"
    and "\<forall>listed. upstreamCacheGet now c = Some listed \<longrightarrow> u_Address ` set listed = addresses d"
  shows "fst (fold (seedServer now) rows (d, c)) = d"
  using assms
proof (induction rows arbitrary: c)
  case (Cons row rows)
  then obtain c' where "seedServer now row (d, c) = (d, c')" "0 \<le> uc_ttl c'"
    "\<forall>listed. upstreamCacheGet now c' = Some listed \<longrightarrow> u_Address ` set listed = addresses d"
    using seed_noop [of d row c now] by auto
  with Cons show ?case by simp
qed simp

lemma seedData_once:
  assumes "faults d = []" and "0 < now" "0 < now'"
  shows "seeded (tables (seedData now d)) \<and> seedData now' (seedData now d) = seedData now d"
proof -
  have fresh: "upstreamCacheGet t NewUpstreamStorage = None" "0 \<le> uc_ttl NewUpstreamStorage" if "0 < t" for t
    using that by (simp_all add: upstreamCacheGet_def NewUpstreamStorage_def NewUpstreamCache_def seconds_def)
  obtain d1 c1 where f: "fold (seedServer now) seedServers (d, NewUpstreamStorage) = (d1, c1)" by fastforce
  have d1: "faults d1 = []" "(\<lambda>row. u_Address (seedRow row)) ` set seedServers \<subseteq> addresses d1"
    using seed_steps [OF f assms(1)] fresh [OF assms(2)] by (auto simp: cacheWithin_def)
  define d2 where "d2 = seedData now d"
  have d2: "faults d2 = []" "addresses d2 = addresses d1"
    "list_ex (\<lambda>y. as_URL y = ''https://adguardteam.github.io/AdGuardSDNSFilter/Filters/filter.txt'') (t_sources (tables d2))"
    using d1(1) by (auto simp: d2_def seedData_def f autocommit_def tx_call_def seedSourceRow_def Let_def take_id_def addresses_def)
  have "fst (fold (seedServer now') seedServers (d2, NewUpstreamStorage)) = d2"
    using d2(1,2) d1(2) fresh [OF assms(3)] by (intro seed_noops) auto
  then have "seedData now' d2 = d2"
    using d2(1,3) by (auto simp: seedData_def [of now' d2] autocommit_def tx_call_def seedSourceRow_def Let_def split: prod.splits)
  have "list_all (\<lambda>row. list_ex (\<lambda>u. u_Address u = u_Address (seedRow row)) (t_upstreams (tables d2))) seedServers"
    using d2(2) d1(2) by (auto simp: list_ex_address list_all_iff addresses_def)
  then have "seeded (tables d2)" using d2(3) by (simp only: seeded_def)
  moreover note \<open>seedData now' d2 = d2\<close>
  ultimately show ?thesis by (simp add: d2_def)
qed

end
