(* ===== verification/Spec2Isabelle.thy ===== *)
theory Spec2Isabelle
  imports WebAccept WebLogs Seed
begin

text \<open>
  A verification development for dns-go, a DNS server in Go with local zones, an upstream
  resolver, a response cache, global server load balancing (GSLB) with health checks, an ad-block filter, a query log,
  an administration API and replication to secondary servers.

  \<^bold>\<open>The program and its parts.\<close> A query reaches \<^verbatim>\<open>Handler.ServeDNS\<close> (\<^verbatim>\<open>src/dns/handler.go\<close>). It passes through stages,
  each of which answers or passes on: malformed and CHAOS queries, the response cache (\<^verbatim>\<open>src/dns/cache.go\<close>), the
  ad-block filter (\<^verbatim>\<open>src/adblock\<close>), GSLB (\<^verbatim>\<open>src/gslb\<close>), the local zones (\<^verbatim>\<open>src/storage/zone.go\<close>, \<^verbatim>\<open>record.go\<close>), names that must not leave the
  network, and the upstream servers (\<^verbatim>\<open>src/dns/resolver.go\<close>). Background goroutines keep the state of these stages: health checks, downloads of
  filter lists, writers that collect log entries and statistics in batches. All data is in SQLite; the storages
  keep caches in front of it. The administration API (\<^verbatim>\<open>src/web\<close>) changes the tables through the same storages, every change of
  replicated data raises a version, and a secondary (\<^verbatim>\<open>src/sync/worker.go\<close>) copies the tables when the versions differ.

  \<^bold>\<open>Theories and sources.\<close>
  \<^item> \<open>Prelude\<close>, \<open>NetAddr\<close>, \<open>Calendar\<close>: what the sources use of Go's standard library (\<^verbatim>\<open>int64\<close> wrap-around, \<^verbatim>\<open>strings\<close>, \<^verbatim>\<open>strconv\<close>,
    \<^verbatim>\<open>net.IP\<close>, dates), shared lemmas on lists.
  \<^item> \<open>Model\<close>: the records of \<^verbatim>\<open>src/model\<close> and DNS messages.
  \<^item> \<open>Database\<close>: the tables of \<^verbatim>\<open>migration.go\<close> with their constraints, transactions, failing calls, and the version counter of
    \<^verbatim>\<open>sync_version.go\<close>. A database is its tables with a script of which calls to come will fail.
  \<^item> \<open>ZoneStore\<close>, \<open>RecordStore\<close>, \<open>UpstreamStore\<close>, \<open>GslbStore\<close>, \<open>AdblockStore\<close>: the storages, one definition per method, with
    their caches and expiry times; \<open>AdblockStore\<close> also has the downloader and \<^verbatim>\<open>src/adblock/sync.go\<close>.
  \<^item> \<open>DnsCache\<close>: the response cache; entries live in a heap because the code compares pointers.
  \<^item> \<open>AdblockRule\<close>: parsing of rules, the filter and its indexes (\<^verbatim>\<open>rule.go\<close>, \<^verbatim>\<open>filter.go\<close>, \<^verbatim>\<open>loader.go\<close>).
  \<^item> \<open>GslbEngine\<close>, \<open>HealthWorker\<close>: choosing members, and the checks with their goroutines as a step relation.
  \<^item> \<open>Resolver\<close>: forwarding to the upstream servers; the network is a parameter.
  \<^item> \<open>Batch\<close>: buffered batches, the query tracker, statistics and the log cleaner, with the goroutines as step relations.
  \<^item> \<open>RecordRR\<close>, \<open>HandlerState\<close>, \<open>Handler\<close>, \<open>HandlerOps\<close>, \<open>HandlerProps\<close>: the handler, bottom up: resource records from table rows, CNAME
    chains, the stages and \<^verbatim>\<open>ServeDNS\<close>, the remaining operations, and the theorems on answers.
  \<^item> \<open>SyncExport\<close>, \<open>SyncWorker\<close>, \<open>SyncPair\<close>, \<open>SyncHistory\<close>: the export API of the primary, the worker of a secondary, the two together, and
    histories of writes and synchronisations that interleave.
  \<^item> \<open>WebApi\<close>, \<open>WebGslb\<close>, \<open>WebRest\<close>, \<open>WebRouter\<close>: the handlers of the API and the routes; \<open>WebProps\<close>, \<open>WebFresh\<close>, \<open>WebAccept\<close>: their theorems.
  \<^item> \<open>QueryLogs\<close>: both implementations of the query-log repository (\<^verbatim>\<open>query_log.go\<close>, \<^verbatim>\<open>query_log_partitioned.go\<close>); \<open>QueryLogProps\<close> and
    \<open>QueryLogPages\<close>: their contract and their pages; \<open>WebLogs\<close>: the endpoint of \<^verbatim>\<open>api_query_logs.go\<close>.
  \<^item> \<open>Configuration\<close>, \<open>Startup\<close>, \<open>Seed\<close>: \<^verbatim>\<open>config.go\<close>; \<^verbatim>\<open>run\<close> of \<^verbatim>\<open>main.go\<close> with the connections of \<^verbatim>\<open>database.go\<close> and the servers of \<^verbatim>\<open>server.go\<close>;
    \<^verbatim>\<open>init_db.go\<close>.

  \<^bold>\<open>How state and calls are modelled.\<close> A struct is a record, a method is a function from the receiver's state (and the database where it uses one) to a result
  and the new state; an error is the left side of a sum. A call to SQLite, the file system or the network that can fail takes its outcome from a script or
  from a parameter, so the theorems hold for all failures unless they say that there are none. The clock is an argument. A mutex
  makes an operation one step; where the order of goroutines matters (health checks, batches, synchronisation histories) there is an inductive step
  relation and the theorems are about all reachable states. Interfaces between components are locales, each interpreted on the model's definitions: \<open>read_cache\<close> with its two
  extensions for the caches in front of tables, \<open>versioned_write\<close> for writes that raise the version, \<open>response_cache\<close>, \<open>table_import\<close> for
  the tables of a synchronisation, and \<open>query_log_repository\<close>, which the table and the day files both implement.

  \<^bold>\<open>What is shown.\<close>
  \<^item> Answers: every query gets exactly one response; names of local zones are answered from the stored records as the specification over the tables
    says; along histories of requests and prefetches every query that leaves the server is for an alias, for a name that is neither private nor
    local, or the prefetch of a name under a local zone; blocked names are sinkholed; an upstream answer is served from the
    cache for its TTL while other requests come and nothing is evicted; CNAME chains are bounded and without repetition.
  \<^item> Cache: well-formedness and the capacity bound in all reachable states, lookup after insertion, independence of other keys.
  \<^item> Storages: reads through caches agree with the tables after every own write that does not move a record to another zone; histories of GSLB writes keep the references; wildcards match one level.
  \<^item> GSLB: only healthy members as long as there are some, shares by weight, failing open; hysteresis of the health counters, one loop per check
    unless a \<^verbatim>\<open>Restart\<close> is overtaken by another change of the same check, which is the only way to a double close.
  \<^item> Ad-block: the indexed filter decides as a scan over the rules does; a synchronised list is what the filter then uses.
  \<^item> Background work: nothing is flushed twice or lost, stopping drains the buffers.
  \<^item> Replication: a full synchronisation copies the tables except the expected status codes of health checks, which are not exported and become 200; a failed
    one changes nothing; equal versions mean equal exported data along histories of commits and ad-block synchronisations of the primary and a secondary
    that is written only by syncs; and a secondary converges. The caches of GSLB on a secondary are outside these theorems.
  \<^item> Administration: a read-only server does not change replicated tables, every accepted change raises the version and is visible in the
    lookups of the zone and record storages (the response cache keeps its answers until they expire), and an accepted enabled record is found there under
    its stored name and can be converted.
  \<^item> Query log: acknowledged entries survive until the retention ends, the day files answer queries as one table, the pages together
    have the timestamps of all matching entries and, when timestamps are distinct, the entries.
  \<^item> Process: \<^verbatim>\<open>run\<close> releases what it acquires, in an order in which nothing is released before its users.

  \<^bold>\<open>Bounds and parameters.\<close> CNAME chains have the source's limit of 8 steps. Versions travel through a JSON number, hence the bound of
  \<open>2 ^ 53\<close> in the replication theorems. Dates are compared as texts in the sources; the theorems assume years of at most four digits (\<open>goodTime\<close>).
  A page of the query log must fit into a Go slice (\<open>maxSlice\<close>); beyond it the request panics (\<open>huge_page_panics\<close>). Recursions are
  structural or have a termination proof; no fuel is used. Parameters, with their assumptions as hypotheses: the regular-expression engine, the GeoIP reader, the
  checksum, the network (DNS exchanges, HTTP, probes), the random choice of the GSLB engine, the YAML decoder, row orders that SQL
  leaves open, iteration orders of Go maps.

  \<^bold>\<open>Not modelled.\<close> Prometheus counters (\<^verbatim>\<open>metrics.go\<close>) and logging, which do not influence answers; the socket loops of the DNS and HTTP libraries; the middleware
  that adds CORS headers; \<^verbatim>\<open>api_server_info.go\<close>, a report whose uptime text depends on floating-point rounding; the \<^verbatim>\<open>ALTER TABLE\<close>
  steps of the migration for files of older versions; memory exhaustion; interleavings inside operations that hold no common lock, beyond
  the step relations named above; texts of error messages.
\<close>

end
